(* ===== verification/Prelude.thy ===== *)
theory Prelude
  imports Main "HOL-Library.Word" "HOL-Library.Signed_Division"
begin

text \<open>
  Shared vocabulary of the development.

  \<^item> \<open>fault\<close>: the ways a C fragment of the repository can go wrong without raising a
    PostgreSQL error (an array access outside its bounds, a read of memory that was
    allocated and never written or already freed, a null pointer), or that a bounded loop of the model used up
    its bound (\<open>OutOfFuel\<close>, shown unreachable where a bound is used). Every model function
    that indexes an array or follows a pointer returns \<open>fault + 'a\<close>.
  \<^item> the result combinator \<open>bindE\<close> and the checked array operations \<open>arr_get\<close> and
    \<open>arr_set\<close>;
  \<^item> the C library functions the modified files call on characters and strings
    (\<open>isspace\<close>, \<open>toupper\<close>, \<open>strtok\<close>, \<open>strstr\<close>, \<open>strncasecmp\<close>, \<open>strtol\<close>).
    Strings are byte lists without the terminating NUL; the character classes are those of
    the C locale.
  \<^item> the named collections \<open>arr_simps\<close> and \<open>cstr_simps\<close> that the component theories use.
\<close>

section \<open>Faults and results\<close>

datatype fault = OutOfBounds | NullDeref | UninitRead | UseAfterFree | OutOfFuel

type_synonym 'a res = "fault + 'a"

definition bindE :: "'e + 'a \<Rightarrow> ('a \<Rightarrow> 'e + 'b) \<Rightarrow> 'e + 'b" where
  "bindE r f = (case r of Inl e \<Rightarrow> Inl e | Inr x \<Rightarrow> f x)"

named_theorems arr_simps \<open>checked array access\<close>
named_theorems cstr_simps \<open>C string functions\<close>

lemma bindE_simps [simp]:
  "bindE (Inl e) f = Inl e"
  "bindE (Inr x) f = f x"
  by (simp_all add: bindE_def)

lemma bindE_eq_Inr [simp]: "bindE r f = Inr y \<longleftrightarrow> (\<exists>x. r = Inr x \<and> f x = Inr y)"
  by (cases r) auto

lemma bindE_assoc: "bindE (bindE r f) g = bindE r (\<lambda>x. bindE (f x) g)"
  by (cases r) auto

lemma bindE_cong [fundef_cong]:
  "r = r' \<Longrightarrow> (\<And>x. r' = Inr x \<Longrightarrow> f x = f' x) \<Longrightarrow> bindE r f = bindE r' f'"
  by (cases r') auto

section \<open>Checked array access\<close>

text \<open>
  A C array is a list; an index is a C \<open>int\<close>, so it can be negative. Reading or writing
  outside the allocation is a fault of the model.
\<close>

definition arr_get :: "'a list \<Rightarrow> int \<Rightarrow> 'a res" where
  "arr_get xs i = (if 0 \<le> i \<and> i < int (length xs) then Inr (xs ! nat i) else Inl OutOfBounds)"

definition arr_set :: "'a list \<Rightarrow> int \<Rightarrow> 'a \<Rightarrow> 'a list res" where
  "arr_set xs i x =
     (if 0 \<le> i \<and> i < int (length xs) then Inr (xs[nat i := x]) else Inl OutOfBounds)"

lemma arr_get_ok [arr_simps]: "0 \<le> i \<Longrightarrow> i < int (length xs) \<Longrightarrow> arr_get xs i = Inr (xs ! nat i)"
  by (simp add: arr_get_def)

lemma arr_set_ok [arr_simps]: "0 \<le> i \<Longrightarrow> i < int (length xs) \<Longrightarrow> arr_set xs i x = Inr (xs[nat i := x])"
  by (simp add: arr_set_def)

lemma arr_get_Inr_iff:
  "arr_get xs i = Inr x \<longleftrightarrow> 0 \<le> i \<and> i < int (length xs) \<and> xs ! nat i = x"
  by (auto simp: arr_get_def)

lemma arr_set_Inr_iff:
  "arr_set xs i x = Inr ys \<longleftrightarrow> 0 \<le> i \<and> i < int (length xs) \<and> ys = xs[nat i := x]"
  by (auto simp: arr_set_def)

lemma arr_get_nat [arr_simps]: "n < length xs \<Longrightarrow> arr_get xs (int n) = Inr (xs ! n)"
  by (simp add: arr_get_def)

lemma arr_set_nat [arr_simps]: "n < length xs \<Longrightarrow> arr_set xs (int n) x = Inr (xs[n := x])"
  by (simp add: arr_set_def)

section \<open>Memory that is allocated but not initialised\<close>

text \<open>
  \<open>malloc\<close> returns slots that are \<open>None\<close> until they are written; reading such a slot is a fault.
\<close>

definition read_slot :: "'a option list \<Rightarrow> nat \<Rightarrow> 'a res" where
  "read_slot xs i =
     bindE (arr_get xs (int i)) (\<lambda>v. case v of None \<Rightarrow> Inl UninitRead | Some e \<Rightarrow> Inr e)"

definition write_slot :: "'a option list \<Rightarrow> nat \<Rightarrow> 'a \<Rightarrow> 'a option list res" where
  "write_slot xs i e = arr_set xs (int i) (Some e)"

text \<open>\<open>for (i = 0; i < n; i++) body\<close> for a body that updates \<open>x\<close> and may fail.\<close>

primrec for_loop :: "nat \<Rightarrow> (nat \<Rightarrow> 'a \<Rightarrow> 'a res) \<Rightarrow> 'a \<Rightarrow> 'a res" where
  "for_loop 0 body x = Inr x"
| "for_loop (Suc n) body x = bindE (for_loop n body x) (body n)"

definition fill_slots :: "nat \<Rightarrow> 'a \<Rightarrow> 'a option list \<Rightarrow> 'a option list res" where
  "fill_slots n v xs = for_loop n (\<lambda>i ys. write_slot ys i v) xs"

definition copy_slots :: "nat \<Rightarrow> 'a option list \<Rightarrow> 'a option list \<Rightarrow> 'a option list res" where
  "copy_slots n src dst = for_loop n (\<lambda>i ys. bindE (read_slot src i) (write_slot ys i)) dst"

lemma read_slot_Some [simp]: "i < length xs \<Longrightarrow> xs ! i = Some e \<Longrightarrow> read_slot xs i = Inr e"
  by (simp add: read_slot_def arr_get_nat)

lemma read_slot_Inr: "read_slot xs i = Inr e \<longleftrightarrow> i < length xs \<and> xs ! i = Some e"
  by (auto simp: read_slot_def arr_get_Inr_iff split: option.splits)

lemma write_slot_ok [simp]: "i < length xs \<Longrightarrow> write_slot xs i e = Inr (xs[i := Some e])"
  by (simp add: write_slot_def arr_set_nat)

lemma write_slot_oob [simp]: "length xs \<le> i \<Longrightarrow> write_slot xs i e = Inl OutOfBounds"
  by (simp add: write_slot_def arr_set_def)

text \<open>The slots below \<open>n\<close> are initialised.\<close>

definition filled :: "'a option list \<Rightarrow> nat \<Rightarrow> bool" where
  "filled xs n = (n \<le> length xs \<and> (\<forall>i<n. xs ! i \<noteq> None))"

lemma fill_slots_ok: "n \<le> length xs \<Longrightarrow> fill_slots n v xs = Inr (replicate n (Some v) @ drop n xs)"
proof (induction n)
  case (Suc n)
  then have "drop n xs = xs ! n # drop (Suc n) xs" by (simp add: Cons_nth_drop_Suc)
  with Suc show ?case by (simp add: fill_slots_def list_update_append replicate_append_same)
qed (simp add: fill_slots_def)

lemma copy_slots_ok:
  "filled src n \<Longrightarrow> n \<le> length dst \<Longrightarrow> copy_slots n src dst = Inr (take n src @ drop n dst)"
proof (induction n)
  case (Suc n)
  then have "filled src n" "n < length src" "n < length dst" by (auto simp: filled_def)
  moreover obtain v where "src ! n = Some v" using Suc.prems(1) by (auto simp: filled_def)
  moreover have "drop n dst = dst ! n # drop (Suc n) dst" using Suc.prems(2) by (simp add: Cons_nth_drop_Suc)
  ultimately show ?case
    using Suc.IH by (simp add: copy_slots_def list_update_append min_def take_Suc_conv_app_nth)
qed (simp add: copy_slots_def)

lemma copy_slots_uninit:
  "i < n \<Longrightarrow> n \<le> length src \<Longrightarrow> n \<le> length dst \<Longrightarrow> filled src i \<Longrightarrow> src ! i = None \<Longrightarrow>
   copy_slots n src dst = Inl UninitRead"
proof (induction n)
  case (Suc n)
  show ?case
  proof (cases "i = n")
    case True
    then show ?thesis
      using copy_slots_ok [of src n dst] Suc.prems
      by (simp add: copy_slots_def read_slot_def arr_get_nat)
  next
    case False
    then show ?thesis using Suc by (simp add: copy_slots_def)
  qed
qed simp

section \<open>Characters and strings of the C library\<close>

definition isspace :: "char \<Rightarrow> bool" where
  "isspace c = (let n = of_char c in n = (32::nat) \<or> (9 \<le> n \<and> n \<le> 13))"

definition isdigit :: "char \<Rightarrow> bool" where
  "isdigit c = (let n = of_char c in (48::nat) \<le> n \<and> n \<le> 57)"

definition isupper :: "char \<Rightarrow> bool" where
  "isupper c = (let n = of_char c in (65::nat) \<le> n \<and> n \<le> 90)"

definition islower :: "char \<Rightarrow> bool" where
  "islower c = (let n = of_char c in (97::nat) \<le> n \<and> n \<le> 122)"

definition isalpha :: "char \<Rightarrow> bool" where
  "isalpha c = (isupper c \<or> islower c)"

definition toupper :: "char \<Rightarrow> char" where
  "toupper c = (if islower c then char_of (of_char c - (32::nat)) else c)"

definition tolower :: "char \<Rightarrow> char" where
  "tolower c = (if isupper c then char_of (of_char c + (32::nat)) else c)"

text \<open>\<open>strcasecmp(s, t) == 0\<close> and \<open>strncasecmp(s, t, n) == 0\<close>.\<close>

definition strcaseeq :: "string \<Rightarrow> string \<Rightarrow> bool" where
  "strcaseeq s t = (map tolower s = map tolower t)"

definition strncaseeq :: "string \<Rightarrow> string \<Rightarrow> nat \<Rightarrow> bool" where
  "strncaseeq s t n = (map tolower (take n s) = map tolower (take n t))"

text \<open>\<open>strncmp(s, t, n) == 0\<close>.\<close>

definition strneq :: "string \<Rightarrow> string \<Rightarrow> nat \<Rightarrow> bool" where
  "strneq s t n = (take n s = take n t)"

text \<open>\<open>strstr(s, t) != NULL\<close>: \<open>t\<close> occurs in \<open>s\<close>.\<close>

fun starts_with :: "string \<Rightarrow> string \<Rightarrow> bool" where
  "starts_with s [] = True"
| "starts_with [] (c # t) = False"
| "starts_with (d # s) (c # t) = (d = c \<and> starts_with s t)"

fun strstr :: "string \<Rightarrow> string \<Rightarrow> bool" where
  "strstr [] t = (t = [])"
| "strstr (c # s) t = (starts_with (c # s) t \<or> strstr s t)"

text \<open>
  \<open>strtok\<close> keeps a pointer into the string; the model returns the token together with the
  rest of the string behind the delimiter that ended it. \<open>None\<close> is the null pointer.
\<close>

definition strtok :: "string \<Rightarrow> string \<Rightarrow> (string \<times> string) option" where
  "strtok s delims =
     (let s' = dropWhile (\<lambda>c. c \<in> set delims) s
      in if s' = [] then None
         else Some (takeWhile (\<lambda>c. c \<notin> set delims) s',
                    drop 1 (dropWhile (\<lambda>c. c \<notin> set delims) s')))"

definition digit_val :: "char \<Rightarrow> int" where
  "digit_val c = int (of_char c - (48::nat))"

fun digits_acc :: "int \<Rightarrow> string \<Rightarrow> int \<times> string" where
  "digits_acc acc [] = (acc, [])"
| "digits_acc acc (c # s) = (if isdigit c then digits_acc (acc * 10 + digit_val c) s else (acc, c # s))"

text \<open>
  \<open>strtol(s, &endptr, 10)\<close>: the value and the text at \<open>endptr\<close>. Without a digit the
  conversion consumes nothing and \<open>endptr\<close> is the start of the string.
\<close>

definition strtol :: "string \<Rightarrow> int \<times> string" where
  "strtol s =
     (let s1 = dropWhile isspace s;
          neg = (s1 \<noteq> [] \<and> hd s1 = CHR ''-'');
          s2 = (if s1 \<noteq> [] \<and> (hd s1 = CHR ''-'' \<or> hd s1 = CHR ''+'') then tl s1 else s1)
      in if s2 \<noteq> [] \<and> isdigit (hd s2)
         then (let (v, r) = digits_acc 0 s2 in ((if neg then - v else v), r))
         else (0, s))"

definition digit_char :: "nat \<Rightarrow> char" where
  "digit_char d = char_of (48 + d)"

text \<open>The text \<open>printf\<close> produces for a non-negative \<open>%d\<close>.\<close>

fun show_nat :: "nat \<Rightarrow> string" where
  "show_nat n = (if n < 10 then [digit_char n] else show_nat (n div 10) @ [digit_char (n mod 10)])"

declare show_nat.simps [simp del]

definition show_int :: "int \<Rightarrow> string" where
  "show_int i = (if i < 0 then CHR ''-'' # show_nat (nat (- i)) else show_nat (nat i))"

section \<open>Facts about the string functions\<close>

lemma isspace_space [cstr_simps]: "isspace CHR '' ''"
  by (simp add: isspace_def)

lemma of_char_digit_char: "d < 10 \<Longrightarrow> (of_char (digit_char d) :: nat) = 48 + d"
  by (simp add: digit_char_def)

lemma isdigit_digit_char [cstr_simps]: "d < 10 \<Longrightarrow> isdigit (digit_char d)"
  by (simp add: isdigit_def of_char_digit_char)

lemma show_nat_nonempty [cstr_simps]: "show_nat n \<noteq> []"
  by (subst show_nat.simps) simp

lemma show_nat_digits: "\<forall>c \<in> set (show_nat n). isdigit c"
proof (induction n rule: show_nat.induct)
  case (1 n)
  then show ?case
    by (subst show_nat.simps) (auto simp: cstr_simps)
qed

lemma starts_with_iff: "starts_with s t \<longleftrightarrow> (\<exists>u. s = t @ u)"
  by (induction s t rule: starts_with.induct) auto

lemma strstr_iff: "strstr s t \<longleftrightarrow> (\<exists>p u. s = p @ t @ u)"
proof (induction s t rule: strstr.induct)
  case (2 c s t)
  have "(\<exists>p u. c # s = p @ t @ u) \<longleftrightarrow> (\<exists>u. c # s = t @ u) \<or> (\<exists>p u. s = p @ t @ u)"
    by (metis append_Cons append_Nil append_eq_Cons_conv)
  with 2 show ?case by (auto simp: starts_with_iff)
qed auto

lemma strcaseeq_refl [cstr_simps]: "strcaseeq s s"
  by (simp add: strcaseeq_def)

lemma takeWhile_append_stop:
  "(\<forall>c \<in> set xs. P c) \<Longrightarrow> \<not> P d \<Longrightarrow> takeWhile P (xs @ d # ys) = xs"
  by (induction xs) auto

lemma dropWhile_append_stop:
  "(\<forall>c \<in> set xs. P c) \<Longrightarrow> \<not> P d \<Longrightarrow> dropWhile P (xs @ d # ys) = d # ys"
  by (induction xs) auto

text \<open>The token that ends at a delimiter, and the token that ends the string.\<close>

lemma strtok_token:
  assumes "tok \<noteq> []" and "\<forall>c \<in> set tok. c \<notin> set delims" and "d \<in> set delims"
  shows "strtok (tok @ d # rest) delims = Some (tok, rest)"
proof -
  have 1: "dropWhile (\<lambda>c. c \<in> set delims) (tok @ d # rest) = tok @ d # rest"
    using assms(1,2) by (cases tok) auto
  show ?thesis
    using assms by (simp add: strtok_def 1 takeWhile_append_stop dropWhile_append_stop)
qed

lemma strtok_last:
  assumes "tok \<noteq> []" and "\<forall>c \<in> set tok. c \<notin> set delims"
  shows "strtok tok delims = Some (tok, [])"
proof -
  have 1: "dropWhile (\<lambda>c. c \<in> set delims) tok = tok"
    using assms by (cases tok) auto
  have 2: "dropWhile (\<lambda>c. c \<notin> set delims) tok = []"
    using assms(2) by (simp add: dropWhile_eq_Nil_conv)
  show ?thesis
    using assms by (simp add: strtok_def 1 2)
qed

lemma strtok_delim:
  "d \<in> set delims \<Longrightarrow> strtok (d # rest) delims = strtok rest delims"
  by (simp add: strtok_def)

lemma strtok_shorter: "strtok s delims = Some (tok, rest) \<Longrightarrow> length rest < length s"
proof -
  assume h: "strtok s delims = Some (tok, rest)"
  let ?s = "dropWhile (\<lambda>c. c \<in> set delims) s"
  from h have ne: "?s \<noteq> []" and r: "rest = drop 1 (dropWhile (\<lambda>c. c \<notin> set delims) ?s)"
    by (auto simp: strtok_def Let_def split: if_splits)
  have 1: "length ?s \<le> length s" by (rule length_dropWhile_le)
  have 2: "length (dropWhile (\<lambda>c. c \<notin> set delims) ?s) \<le> length ?s" by (rule length_dropWhile_le)
  show ?thesis
  proof (cases "dropWhile (\<lambda>c. c \<notin> set delims) ?s")
    case Nil
    with r ne 1 show ?thesis by (cases ?s) auto
  next
    case (Cons a b)
    with r 1 2 show ?thesis by simp
  qed
qed

end
