(* ===== verification/Eeop.thy ===== *)
theory Eeop
  imports Main
begin

text \<open>
  The operation codes of the expression evaluator and their textual names.

  \<open>ExprEvalOp\<close> is the enumeration of \<open>src/include/executor/execExpr.h\<close>, with its constructors
  in the order of the header; \<open>eeop_code\<close> is the integer the C compiler gives them. The three
  name tables of the repository are kept apart as the code keeps them: the table indexed by
  code (\<open>getExprEvalOpNameById\<close>) and its inverse (\<open>getExprEvalOpValue\<close>), both in
  \<open>globals.c\<close>, and the switch over the enumeration (\<open>getExprEvalOpName\<close>) in \<open>execExpr.c\<close>.
\<close>

section \<open>The enumeration\<close>

datatype (plugins only: code size) ExprEvalOp =
    EEOP_DONE | EEOP_INNER_FETCHSOME | EEOP_OUTER_FETCHSOME | EEOP_SCAN_FETCHSOME |
    EEOP_INNER_VAR | EEOP_OUTER_VAR | EEOP_SCAN_VAR | EEOP_INNER_SYSVAR | EEOP_OUTER_SYSVAR |
    EEOP_SCAN_SYSVAR | EEOP_WHOLEROW | EEOP_ASSIGN_INNER_VAR | EEOP_ASSIGN_OUTER_VAR |
    EEOP_ASSIGN_SCAN_VAR | EEOP_ASSIGN_TMP | EEOP_ASSIGN_TMP_MAKE_RO | EEOP_CONST |
    EEOP_FUNCEXPR | EEOP_FUNCEXPR_STRICT | EEOP_FUNCEXPR_FUSAGE |
    EEOP_FUNCEXPR_STRICT_FUSAGE | EEOP_BOOL_AND_STEP_FIRST | EEOP_BOOL_AND_STEP |
    EEOP_BOOL_AND_STEP_LAST | EEOP_BOOL_OR_STEP_FIRST | EEOP_BOOL_OR_STEP |
    EEOP_BOOL_OR_STEP_LAST | EEOP_BOOL_NOT_STEP | EEOP_QUAL | EEOP_JUMP | EEOP_JUMP_IF_NULL |
    EEOP_JUMP_IF_NOT_NULL | EEOP_JUMP_IF_NOT_TRUE | EEOP_NULLTEST_ISNULL |
    EEOP_NULLTEST_ISNOTNULL | EEOP_NULLTEST_ROWISNULL | EEOP_NULLTEST_ROWISNOTNULL |
    EEOP_BOOLTEST_IS_TRUE | EEOP_BOOLTEST_IS_NOT_TRUE | EEOP_BOOLTEST_IS_FALSE |
    EEOP_BOOLTEST_IS_NOT_FALSE | EEOP_PARAM_EXEC | EEOP_PARAM_EXTERN | EEOP_PARAM_CALLBACK |
    EEOP_CASE_TESTVAL | EEOP_MAKE_READONLY | EEOP_IOCOERCE | EEOP_DISTINCT |
    EEOP_NOT_DISTINCT | EEOP_NULLIF | EEOP_SQLVALUEFUNCTION | EEOP_CURRENTOFEXPR |
    EEOP_NEXTVALUEEXPR | EEOP_ARRAYEXPR | EEOP_ARRAYCOERCE | EEOP_ROW | EEOP_ROWCOMPARE_STEP |
    EEOP_ROWCOMPARE_FINAL | EEOP_MINMAX | EEOP_FIELDSELECT | EEOP_FIELDSTORE_DEFORM |
    EEOP_FIELDSTORE_FORM | EEOP_SBSREF_SUBSCRIPT | EEOP_SBSREF_OLD | EEOP_SBSREF_ASSIGN |
    EEOP_SBSREF_FETCH | EEOP_DOMAIN_TESTVAL | EEOP_DOMAIN_NOTNULL | EEOP_DOMAIN_CHECK |
    EEOP_CONVERT_ROWTYPE | EEOP_SCALARARRAYOP | EEOP_XMLEXPR | EEOP_AGGREF |
    EEOP_GROUPING_FUNC | EEOP_WINDOW_FUNC | EEOP_SUBPLAN | EEOP_ALTERNATIVE_SUBPLAN |
    EEOP_AGG_STRICT_DESERIALIZE | EEOP_AGG_DESERIALIZE | EEOP_AGG_STRICT_INPUT_CHECK_ARGS |
    EEOP_AGG_STRICT_INPUT_CHECK_NULLS | EEOP_AGG_PLAIN_PERGROUP_NULLCHECK |
    EEOP_AGG_PLAIN_TRANS_INIT_STRICT_BYVAL | EEOP_AGG_PLAIN_TRANS_STRICT_BYVAL |
    EEOP_AGG_PLAIN_TRANS_BYVAL | EEOP_AGG_PLAIN_TRANS_INIT_STRICT_BYREF |
    EEOP_AGG_PLAIN_TRANS_STRICT_BYREF | EEOP_AGG_PLAIN_TRANS_BYREF |
    EEOP_AGG_ORDERED_TRANS_DATUM | EEOP_AGG_ORDERED_TRANS_TUPLE | EEOP_LAST

definition all_eeops :: "ExprEvalOp list" where
  "all_eeops =
    [EEOP_DONE, EEOP_INNER_FETCHSOME, EEOP_OUTER_FETCHSOME, EEOP_SCAN_FETCHSOME,
     EEOP_INNER_VAR, EEOP_OUTER_VAR, EEOP_SCAN_VAR, EEOP_INNER_SYSVAR, EEOP_OUTER_SYSVAR,
     EEOP_SCAN_SYSVAR, EEOP_WHOLEROW, EEOP_ASSIGN_INNER_VAR, EEOP_ASSIGN_OUTER_VAR,
     EEOP_ASSIGN_SCAN_VAR, EEOP_ASSIGN_TMP, EEOP_ASSIGN_TMP_MAKE_RO, EEOP_CONST,
     EEOP_FUNCEXPR, EEOP_FUNCEXPR_STRICT, EEOP_FUNCEXPR_FUSAGE, EEOP_FUNCEXPR_STRICT_FUSAGE,
     EEOP_BOOL_AND_STEP_FIRST, EEOP_BOOL_AND_STEP, EEOP_BOOL_AND_STEP_LAST,
     EEOP_BOOL_OR_STEP_FIRST, EEOP_BOOL_OR_STEP, EEOP_BOOL_OR_STEP_LAST, EEOP_BOOL_NOT_STEP,
     EEOP_QUAL, EEOP_JUMP, EEOP_JUMP_IF_NULL, EEOP_JUMP_IF_NOT_NULL, EEOP_JUMP_IF_NOT_TRUE,
     EEOP_NULLTEST_ISNULL, EEOP_NULLTEST_ISNOTNULL, EEOP_NULLTEST_ROWISNULL,
     EEOP_NULLTEST_ROWISNOTNULL, EEOP_BOOLTEST_IS_TRUE, EEOP_BOOLTEST_IS_NOT_TRUE,
     EEOP_BOOLTEST_IS_FALSE, EEOP_BOOLTEST_IS_NOT_FALSE, EEOP_PARAM_EXEC, EEOP_PARAM_EXTERN,
     EEOP_PARAM_CALLBACK, EEOP_CASE_TESTVAL, EEOP_MAKE_READONLY, EEOP_IOCOERCE, EEOP_DISTINCT,
     EEOP_NOT_DISTINCT, EEOP_NULLIF, EEOP_SQLVALUEFUNCTION, EEOP_CURRENTOFEXPR,
     EEOP_NEXTVALUEEXPR, EEOP_ARRAYEXPR, EEOP_ARRAYCOERCE, EEOP_ROW, EEOP_ROWCOMPARE_STEP,
     EEOP_ROWCOMPARE_FINAL, EEOP_MINMAX, EEOP_FIELDSELECT, EEOP_FIELDSTORE_DEFORM,
     EEOP_FIELDSTORE_FORM, EEOP_SBSREF_SUBSCRIPT, EEOP_SBSREF_OLD, EEOP_SBSREF_ASSIGN,
     EEOP_SBSREF_FETCH, EEOP_DOMAIN_TESTVAL, EEOP_DOMAIN_NOTNULL, EEOP_DOMAIN_CHECK,
     EEOP_CONVERT_ROWTYPE, EEOP_SCALARARRAYOP, EEOP_XMLEXPR, EEOP_AGGREF, EEOP_GROUPING_FUNC,
     EEOP_WINDOW_FUNC, EEOP_SUBPLAN, EEOP_ALTERNATIVE_SUBPLAN, EEOP_AGG_STRICT_DESERIALIZE,
     EEOP_AGG_DESERIALIZE, EEOP_AGG_STRICT_INPUT_CHECK_ARGS,
     EEOP_AGG_STRICT_INPUT_CHECK_NULLS, EEOP_AGG_PLAIN_PERGROUP_NULLCHECK,
     EEOP_AGG_PLAIN_TRANS_INIT_STRICT_BYVAL, EEOP_AGG_PLAIN_TRANS_STRICT_BYVAL,
     EEOP_AGG_PLAIN_TRANS_BYVAL, EEOP_AGG_PLAIN_TRANS_INIT_STRICT_BYREF,
     EEOP_AGG_PLAIN_TRANS_STRICT_BYREF, EEOP_AGG_PLAIN_TRANS_BYREF,
     EEOP_AGG_ORDERED_TRANS_DATUM, EEOP_AGG_ORDERED_TRANS_TUPLE, EEOP_LAST]"

text \<open>The value of an enumeration constant: its position in the declaration.\<close>

fun index_of :: "'a \<Rightarrow> 'a list \<Rightarrow> nat" where
  "index_of x [] = 0"
| "index_of x (y # ys) = (if x = y then 0 else Suc (index_of x ys))"

definition eeop_code :: "ExprEvalOp \<Rightarrow> int" where
  "eeop_code op = int (index_of op all_eeops)"

section \<open>The name tables\<close>

definition op_names :: "string list" where
  "op_names =
    [''EEOP_DONE'', ''EEOP_INNER_FETCHSOME'', ''EEOP_OUTER_FETCHSOME'',
     ''EEOP_SCAN_FETCHSOME'', ''EEOP_INNER_VAR'', ''EEOP_OUTER_VAR'', ''EEOP_SCAN_VAR'',
     ''EEOP_INNER_SYSVAR'', ''EEOP_OUTER_SYSVAR'', ''EEOP_SCAN_SYSVAR'', ''EEOP_WHOLEROW'',
     ''EEOP_ASSIGN_INNER_VAR'', ''EEOP_ASSIGN_OUTER_VAR'', ''EEOP_ASSIGN_SCAN_VAR'',
     ''EEOP_ASSIGN_TMP'', ''EEOP_ASSIGN_TMP_MAKE_RO'', ''EEOP_CONST'', ''EEOP_FUNCEXPR'',
     ''EEOP_FUNCEXPR_STRICT'', ''EEOP_FUNCEXPR_FUSAGE'', ''EEOP_FUNCEXPR_STRICT_FUSAGE'',
     ''EEOP_BOOL_AND_STEP_FIRST'', ''EEOP_BOOL_AND_STEP'', ''EEOP_BOOL_AND_STEP_LAST'',
     ''EEOP_BOOL_OR_STEP_FIRST'', ''EEOP_BOOL_OR_STEP'', ''EEOP_BOOL_OR_STEP_LAST'',
     ''EEOP_BOOL_NOT_STEP'', ''EEOP_QUAL'', ''EEOP_JUMP'', ''EEOP_JUMP_IF_NULL'',
     ''EEOP_JUMP_IF_NOT_NULL'', ''EEOP_JUMP_IF_NOT_TRUE'', ''EEOP_NULLTEST_ISNULL'',
     ''EEOP_NULLTEST_ISNOTNULL'', ''EEOP_NULLTEST_ROWISNULL'', ''EEOP_NULLTEST_ROWISNOTNULL'',
     ''EEOP_BOOLTEST_IS_TRUE'', ''EEOP_BOOLTEST_IS_NOT_TRUE'', ''EEOP_BOOLTEST_IS_FALSE'',
     ''EEOP_BOOLTEST_IS_NOT_FALSE'', ''EEOP_PARAM_EXEC'', ''EEOP_PARAM_EXTERN'',
     ''EEOP_PARAM_CALLBACK'', ''EEOP_CASE_TESTVAL'', ''EEOP_MAKE_READONLY'',
     ''EEOP_IOCOERCE'', ''EEOP_DISTINCT'', ''EEOP_NOT_DISTINCT'', ''EEOP_NULLIF'',
     ''EEOP_SQLVALUEFUNCTION'', ''EEOP_CURRENTOFEXPR'', ''EEOP_NEXTVALUEEXPR'',
     ''EEOP_ARRAYEXPR'', ''EEOP_ARRAYCOERCE'', ''EEOP_ROW'', ''EEOP_ROWCOMPARE_STEP'',
     ''EEOP_ROWCOMPARE_FINAL'', ''EEOP_MINMAX'', ''EEOP_FIELDSELECT'',
     ''EEOP_FIELDSTORE_DEFORM'', ''EEOP_FIELDSTORE_FORM'', ''EEOP_SBSREF_SUBSCRIPT'',
     ''EEOP_SBSREF_OLD'', ''EEOP_SBSREF_ASSIGN'', ''EEOP_SBSREF_FETCH'',
     ''EEOP_DOMAIN_TESTVAL'', ''EEOP_DOMAIN_NOTNULL'', ''EEOP_DOMAIN_CHECK'',
     ''EEOP_CONVERT_ROWTYPE'', ''EEOP_SCALARARRAYOP'', ''EEOP_XMLEXPR'', ''EEOP_AGGREF'',
     ''EEOP_GROUPING_FUNC'', ''EEOP_WINDOW_FUNC'', ''EEOP_SUBPLAN'',
     ''EEOP_ALTERNATIVE_SUBPLAN'', ''EEOP_AGG_STRICT_DESERIALIZE'', ''EEOP_AGG_DESERIALIZE'',
     ''EEOP_AGG_STRICT_INPUT_CHECK_ARGS'', ''EEOP_AGG_STRICT_INPUT_CHECK_NULLS'',
     ''EEOP_AGG_PLAIN_PERGROUP_NULLCHECK'', ''EEOP_AGG_PLAIN_TRANS_INIT_STRICT_BYVAL'',
     ''EEOP_AGG_PLAIN_TRANS_STRICT_BYVAL'', ''EEOP_AGG_PLAIN_TRANS_BYVAL'',
     ''EEOP_AGG_PLAIN_TRANS_INIT_STRICT_BYREF'', ''EEOP_AGG_PLAIN_TRANS_STRICT_BYREF'',
     ''EEOP_AGG_PLAIN_TRANS_BYREF'', ''EEOP_AGG_ORDERED_TRANS_DATUM'',
     ''EEOP_AGG_ORDERED_TRANS_TUPLE'', ''EEOP_LAST'']"

definition getExprEvalOpNameById :: "int \<Rightarrow> string" where
  "getExprEvalOpNameById op_index =
     (let max_op_index = int (length op_names) - 1
      in if op_index < 0 \<or> op_index > max_op_index then ''UNKNOWN_EEOP''
         else op_names ! nat op_index)"

text \<open>The chain of string comparisons: the first pair whose name is equal decides.\<close>

definition op_values :: "(string \<times> int) list" where
  "op_values =
    [(''EEOP_DONE'', 0), (''EEOP_INNER_FETCHSOME'', 1), (''EEOP_OUTER_FETCHSOME'', 2),
     (''EEOP_SCAN_FETCHSOME'', 3), (''EEOP_INNER_VAR'', 4), (''EEOP_OUTER_VAR'', 5),
     (''EEOP_SCAN_VAR'', 6), (''EEOP_INNER_SYSVAR'', 7), (''EEOP_OUTER_SYSVAR'', 8),
     (''EEOP_SCAN_SYSVAR'', 9), (''EEOP_WHOLEROW'', 10), (''EEOP_ASSIGN_INNER_VAR'', 11),
     (''EEOP_ASSIGN_OUTER_VAR'', 12), (''EEOP_ASSIGN_SCAN_VAR'', 13),
     (''EEOP_ASSIGN_TMP'', 14), (''EEOP_ASSIGN_TMP_MAKE_RO'', 15), (''EEOP_CONST'', 16),
     (''EEOP_FUNCEXPR'', 17), (''EEOP_FUNCEXPR_STRICT'', 18), (''EEOP_FUNCEXPR_FUSAGE'', 19),
     (''EEOP_FUNCEXPR_STRICT_FUSAGE'', 20), (''EEOP_BOOL_AND_STEP_FIRST'', 21),
     (''EEOP_BOOL_AND_STEP'', 22), (''EEOP_BOOL_AND_STEP_LAST'', 23),
     (''EEOP_BOOL_OR_STEP_FIRST'', 24), (''EEOP_BOOL_OR_STEP'', 25),
     (''EEOP_BOOL_OR_STEP_LAST'', 26), (''EEOP_BOOL_NOT_STEP'', 27), (''EEOP_QUAL'', 28),
     (''EEOP_JUMP'', 29), (''EEOP_JUMP_IF_NULL'', 30), (''EEOP_JUMP_IF_NOT_NULL'', 31),
     (''EEOP_JUMP_IF_NOT_TRUE'', 32), (''EEOP_NULLTEST_ISNULL'', 33),
     (''EEOP_NULLTEST_ISNOTNULL'', 34), (''EEOP_NULLTEST_ROWISNULL'', 35),
     (''EEOP_NULLTEST_ROWISNOTNULL'', 36), (''EEOP_BOOLTEST_IS_TRUE'', 37),
     (''EEOP_BOOLTEST_IS_NOT_TRUE'', 38), (''EEOP_BOOLTEST_IS_FALSE'', 39),
     (''EEOP_BOOLTEST_IS_NOT_FALSE'', 40), (''EEOP_PARAM_EXEC'', 41),
     (''EEOP_PARAM_EXTERN'', 42), (''EEOP_PARAM_CALLBACK'', 43), (''EEOP_CASE_TESTVAL'', 44),
     (''EEOP_MAKE_READONLY'', 45), (''EEOP_IOCOERCE'', 46), (''EEOP_DISTINCT'', 47),
     (''EEOP_NOT_DISTINCT'', 48), (''EEOP_NULLIF'', 49), (''EEOP_SQLVALUEFUNCTION'', 50),
     (''EEOP_CURRENTOFEXPR'', 51), (''EEOP_NEXTVALUEEXPR'', 52), (''EEOP_ARRAYEXPR'', 53),
     (''EEOP_ARRAYCOERCE'', 54), (''EEOP_ROW'', 55), (''EEOP_ROWCOMPARE_STEP'', 56),
     (''EEOP_ROWCOMPARE_FINAL'', 57), (''EEOP_MINMAX'', 58), (''EEOP_FIELDSELECT'', 59),
     (''EEOP_FIELDSTORE_DEFORM'', 60), (''EEOP_FIELDSTORE_FORM'', 61),
     (''EEOP_SBSREF_SUBSCRIPT'', 62), (''EEOP_SBSREF_OLD'', 63), (''EEOP_SBSREF_ASSIGN'', 64),
     (''EEOP_SBSREF_FETCH'', 65), (''EEOP_DOMAIN_TESTVAL'', 66),
     (''EEOP_DOMAIN_NOTNULL'', 67), (''EEOP_DOMAIN_CHECK'', 68),
     (''EEOP_CONVERT_ROWTYPE'', 69), (''EEOP_SCALARARRAYOP'', 70), (''EEOP_XMLEXPR'', 71),
     (''EEOP_AGGREF'', 72), (''EEOP_GROUPING_FUNC'', 73), (''EEOP_WINDOW_FUNC'', 74),
     (''EEOP_SUBPLAN'', 75), (''EEOP_ALTERNATIVE_SUBPLAN'', 76),
     (''EEOP_AGG_STRICT_DESERIALIZE'', 77), (''EEOP_AGG_DESERIALIZE'', 78),
     (''EEOP_AGG_STRICT_INPUT_CHECK_ARGS'', 79), (''EEOP_AGG_STRICT_INPUT_CHECK_NULLS'', 80),
     (''EEOP_AGG_PLAIN_PERGROUP_NULLCHECK'', 81),
     (''EEOP_AGG_PLAIN_TRANS_INIT_STRICT_BYVAL'', 82),
     (''EEOP_AGG_PLAIN_TRANS_STRICT_BYVAL'', 83), (''EEOP_AGG_PLAIN_TRANS_BYVAL'', 84),
     (''EEOP_AGG_PLAIN_TRANS_INIT_STRICT_BYREF'', 85),
     (''EEOP_AGG_PLAIN_TRANS_STRICT_BYREF'', 86), (''EEOP_AGG_PLAIN_TRANS_BYREF'', 87),
     (''EEOP_AGG_ORDERED_TRANS_DATUM'', 88), (''EEOP_AGG_ORDERED_TRANS_TUPLE'', 89),
     (''EEOP_LAST'', 90)]"

definition getExprEvalOpValue :: "string \<Rightarrow> int" where
  "getExprEvalOpValue op_name = (case map_of op_values op_name of Some v \<Rightarrow> v | None \<Rightarrow> -1)"

definition getExprEvalOpName :: "ExprEvalOp \<Rightarrow> string" where
  "getExprEvalOpName op = (case op of
     EEOP_DONE \<Rightarrow> ''EEOP_DONE'' |
     EEOP_INNER_FETCHSOME \<Rightarrow> ''EEOP_INNER_FETCHSOME'' |
     EEOP_OUTER_FETCHSOME \<Rightarrow> ''EEOP_OUTER_FETCHSOME'' |
     EEOP_SCAN_FETCHSOME \<Rightarrow> ''EEOP_SCAN_FETCHSOME'' |
     EEOP_INNER_VAR \<Rightarrow> ''EEOP_INNER_VAR'' |
     EEOP_OUTER_VAR \<Rightarrow> ''EEOP_OUTER_VAR'' |
     EEOP_SCAN_VAR \<Rightarrow> ''EEOP_SCAN_VAR'' |
     EEOP_INNER_SYSVAR \<Rightarrow> ''EEOP_INNER_SYSVAR'' |
     EEOP_OUTER_SYSVAR \<Rightarrow> ''EEOP_OUTER_SYSVAR'' |
     EEOP_SCAN_SYSVAR \<Rightarrow> ''EEOP_SCAN_SYSVAR'' |
     EEOP_WHOLEROW \<Rightarrow> ''EEOP_WHOLEROW'' |
     EEOP_ASSIGN_INNER_VAR \<Rightarrow> ''EEOP_ASSIGN_INNER_VAR'' |
     EEOP_ASSIGN_OUTER_VAR \<Rightarrow> ''EEOP_ASSIGN_OUTER_VAR'' |
     EEOP_ASSIGN_SCAN_VAR \<Rightarrow> ''EEOP_ASSIGN_SCAN_VAR'' |
     EEOP_ASSIGN_TMP \<Rightarrow> ''EEOP_ASSIGN_TMP'' |
     EEOP_ASSIGN_TMP_MAKE_RO \<Rightarrow> ''EEOP_ASSIGN_TMP_MAKE_RO'' |
     EEOP_CONST \<Rightarrow> ''EEOP_CONST'' | EEOP_FUNCEXPR \<Rightarrow> ''EEOP_FUNCEXPR'' |
     EEOP_FUNCEXPR_STRICT \<Rightarrow> ''EEOP_FUNCEXPR_STRICT'' |
     EEOP_FUNCEXPR_FUSAGE \<Rightarrow> ''EEOP_FUNCEXPR_FUSAGE'' |
     EEOP_FUNCEXPR_STRICT_FUSAGE \<Rightarrow> ''EEOP_FUNCEXPR_STRICT_FUSAGE'' |
     EEOP_BOOL_AND_STEP_FIRST \<Rightarrow> ''EEOP_BOOL_AND_STEP_FIRST'' |
     EEOP_BOOL_AND_STEP \<Rightarrow> ''EEOP_BOOL_AND_STEP'' |
     EEOP_BOOL_AND_STEP_LAST \<Rightarrow> ''EEOP_BOOL_AND_STEP_LAST'' |
     EEOP_BOOL_OR_STEP_FIRST \<Rightarrow> ''EEOP_BOOL_OR_STEP_FIRST'' |
     EEOP_BOOL_OR_STEP \<Rightarrow> ''EEOP_BOOL_OR_STEP'' |
     EEOP_BOOL_OR_STEP_LAST \<Rightarrow> ''EEOP_BOOL_OR_STEP_LAST'' |
     EEOP_BOOL_NOT_STEP \<Rightarrow> ''EEOP_BOOL_NOT_STEP'' |
     EEOP_QUAL \<Rightarrow> ''EEOP_QUAL'' | EEOP_JUMP \<Rightarrow> ''EEOP_JUMP'' |
     EEOP_JUMP_IF_NULL \<Rightarrow> ''EEOP_JUMP_IF_NULL'' |
     EEOP_JUMP_IF_NOT_NULL \<Rightarrow> ''EEOP_JUMP_IF_NOT_NULL'' |
     EEOP_JUMP_IF_NOT_TRUE \<Rightarrow> ''EEOP_JUMP_IF_NOT_TRUE'' |
     EEOP_NULLTEST_ISNULL \<Rightarrow> ''EEOP_NULLTEST_ISNULL'' |
     EEOP_NULLTEST_ISNOTNULL \<Rightarrow> ''EEOP_NULLTEST_ISNOTNULL'' |
     EEOP_NULLTEST_ROWISNULL \<Rightarrow> ''EEOP_NULLTEST_ROWISNULL'' |
     EEOP_NULLTEST_ROWISNOTNULL \<Rightarrow> ''EEOP_NULLTEST_ROWISNOTNULL'' |
     EEOP_BOOLTEST_IS_TRUE \<Rightarrow> ''EEOP_BOOLTEST_IS_TRUE'' |
     EEOP_BOOLTEST_IS_NOT_TRUE \<Rightarrow> ''EEOP_BOOLTEST_IS_NOT_TRUE'' |
     EEOP_BOOLTEST_IS_FALSE \<Rightarrow> ''EEOP_BOOLTEST_IS_FALSE'' |
     EEOP_BOOLTEST_IS_NOT_FALSE \<Rightarrow> ''EEOP_BOOLTEST_IS_NOT_FALSE'' |
     EEOP_PARAM_EXEC \<Rightarrow> ''EEOP_PARAM_EXEC'' |
     EEOP_PARAM_EXTERN \<Rightarrow> ''EEOP_PARAM_EXTERN'' |
     EEOP_PARAM_CALLBACK \<Rightarrow> ''EEOP_PARAM_CALLBACK'' |
     EEOP_CASE_TESTVAL \<Rightarrow> ''EEOP_CASE_TESTVAL'' |
     EEOP_MAKE_READONLY \<Rightarrow> ''EEOP_MAKE_READONLY'' |
     EEOP_IOCOERCE \<Rightarrow> ''EEOP_IOCOERCE'' |
     EEOP_DISTINCT \<Rightarrow> ''EEOP_DISTINCT'' |
     EEOP_NOT_DISTINCT \<Rightarrow> ''EEOP_NOT_DISTINCT'' |
     EEOP_NULLIF \<Rightarrow> ''EEOP_NULLIF'' |
     EEOP_SQLVALUEFUNCTION \<Rightarrow> ''EEOP_SQLVALUEFUNCTION'' |
     EEOP_CURRENTOFEXPR \<Rightarrow> ''EEOP_CURRENTOFEXPR'' |
     EEOP_NEXTVALUEEXPR \<Rightarrow> ''EEOP_NEXTVALUEEXPR'' |
     EEOP_ARRAYEXPR \<Rightarrow> ''EEOP_ARRAYEXPR'' |
     EEOP_ARRAYCOERCE \<Rightarrow> ''EEOP_ARRAYCOERCE'' |
     EEOP_ROW \<Rightarrow> ''EEOP_ROW'' |
     EEOP_ROWCOMPARE_STEP \<Rightarrow> ''EEOP_ROWCOMPARE_STEP'' |
     EEOP_ROWCOMPARE_FINAL \<Rightarrow> ''EEOP_ROWCOMPARE_FINAL'' |
     EEOP_MINMAX \<Rightarrow> ''EEOP_MINMAX'' |
     EEOP_FIELDSELECT \<Rightarrow> ''EEOP_FIELDSELECT'' |
     EEOP_FIELDSTORE_DEFORM \<Rightarrow> ''EEOP_FIELDSTORE_DEFORM'' |
     EEOP_FIELDSTORE_FORM \<Rightarrow> ''EEOP_FIELDSTORE_FORM'' |
     EEOP_SBSREF_SUBSCRIPT \<Rightarrow> ''EEOP_SBSREF_SUBSCRIPT'' |
     EEOP_SBSREF_OLD \<Rightarrow> ''EEOP_SBSREF_OLD'' |
     EEOP_SBSREF_ASSIGN \<Rightarrow> ''EEOP_SBSREF_ASSIGN'' |
     EEOP_SBSREF_FETCH \<Rightarrow> ''EEOP_SBSREF_FETCH'' |
     EEOP_DOMAIN_TESTVAL \<Rightarrow> ''EEOP_DOMAIN_TESTVAL'' |
     EEOP_DOMAIN_NOTNULL \<Rightarrow> ''EEOP_DOMAIN_NOTNULL'' |
     EEOP_DOMAIN_CHECK \<Rightarrow> ''EEOP_DOMAIN_CHECK'' |
     EEOP_CONVERT_ROWTYPE \<Rightarrow> ''EEOP_CONVERT_ROWTYPE'' |
     EEOP_SCALARARRAYOP \<Rightarrow> ''EEOP_SCALARARRAYOP'' |
     EEOP_XMLEXPR \<Rightarrow> ''EEOP_XMLEXPR'' | EEOP_AGGREF \<Rightarrow> ''EEOP_AGGREF'' |
     EEOP_GROUPING_FUNC \<Rightarrow> ''EEOP_GROUPING_FUNC'' |
     EEOP_WINDOW_FUNC \<Rightarrow> ''EEOP_WINDOW_FUNC'' |
     EEOP_SUBPLAN \<Rightarrow> ''EEOP_SUBPLAN'' |
     EEOP_ALTERNATIVE_SUBPLAN \<Rightarrow> ''EEOP_ALTERNATIVE_SUBPLAN'' |
     EEOP_AGG_STRICT_DESERIALIZE \<Rightarrow> ''EEOP_AGG_STRICT_DESERIALIZE'' |
     EEOP_AGG_DESERIALIZE \<Rightarrow> ''EEOP_AGG_DESERIALIZE'' |
     EEOP_AGG_STRICT_INPUT_CHECK_ARGS \<Rightarrow> ''EEOP_AGG_STRICT_INPUT_CHECK_ARGS'' |
     EEOP_AGG_STRICT_INPUT_CHECK_NULLS \<Rightarrow> ''EEOP_AGG_STRICT_INPUT_CHECK_NULLS'' |
     EEOP_AGG_PLAIN_PERGROUP_NULLCHECK \<Rightarrow> ''EEOP_AGG_PLAIN_PERGROUP_NULLCHECK'' |
     EEOP_AGG_PLAIN_TRANS_INIT_STRICT_BYVAL \<Rightarrow> ''EEOP_AGG_PLAIN_TRANS_INIT_STRICT_BYVAL'' |
     EEOP_AGG_PLAIN_TRANS_STRICT_BYVAL \<Rightarrow> ''EEOP_AGG_PLAIN_TRANS_STRICT_BYVAL'' |
     EEOP_AGG_PLAIN_TRANS_BYVAL \<Rightarrow> ''EEOP_AGG_PLAIN_TRANS_BYVAL'' |
     EEOP_AGG_PLAIN_TRANS_INIT_STRICT_BYREF \<Rightarrow> ''EEOP_AGG_PLAIN_TRANS_INIT_STRICT_BYREF'' |
     EEOP_AGG_PLAIN_TRANS_STRICT_BYREF \<Rightarrow> ''EEOP_AGG_PLAIN_TRANS_STRICT_BYREF'' |
     EEOP_AGG_PLAIN_TRANS_BYREF \<Rightarrow> ''EEOP_AGG_PLAIN_TRANS_BYREF'' |
     EEOP_AGG_ORDERED_TRANS_DATUM \<Rightarrow> ''EEOP_AGG_ORDERED_TRANS_DATUM'' |
     EEOP_AGG_ORDERED_TRANS_TUPLE \<Rightarrow> ''EEOP_AGG_ORDERED_TRANS_TUPLE'' |
     EEOP_LAST \<Rightarrow> ''EEOP_LAST'')"

section \<open>The tables agree\<close>

lemma length_op_names [simp]: "length op_names = 91"
  by (simp add: op_names_def)

lemma length_all_eeops [simp]: "length all_eeops = 91"
  by (simp add: all_eeops_def)

lemma distinct_all_eeops: "distinct all_eeops"
  by (simp add: all_eeops_def)

lemma op_values_names: "map fst op_values = op_names"
  by (simp add: op_values_def op_names_def)

lemma op_values_codes: "map snd op_values = map int [0..<91]"
  by (simp add: op_values_def upt_conv_Cons)

lemma distinct_op_names: "distinct op_names"
  by code_simp

lemma all_eeops_complete: "op \<in> set all_eeops"
  by (cases op) (simp_all add: all_eeops_def)

lemma index_of_in: "x \<in> set xs \<Longrightarrow> index_of x xs < length xs \<and> xs ! index_of x xs = x"
  by (induction xs) auto

lemma eeop_code_bounds: "0 \<le> eeop_code op" "eeop_code op \<le> 90"
  using index_of_in [OF all_eeops_complete, of op] by (simp_all add: eeop_code_def)

lemma nth_eeop_code: "all_eeops ! nat (eeop_code op) = op"
  using index_of_in [OF all_eeops_complete, of op] by (simp add: eeop_code_def)

lemma eeop_code_inject [simp]: "eeop_code a = eeop_code b \<longleftrightarrow> a = b"
  by (metis nth_eeop_code)

text \<open>Operations are ordered by their codes, as the C enumeration compares them.\<close>

instantiation ExprEvalOp :: linorder
begin

definition less_eq_ExprEvalOp :: "ExprEvalOp \<Rightarrow> ExprEvalOp \<Rightarrow> bool" where
  "less_eq_ExprEvalOp a b = (eeop_code a \<le> eeop_code b)"

definition less_ExprEvalOp :: "ExprEvalOp \<Rightarrow> ExprEvalOp \<Rightarrow> bool" where
  "less_ExprEvalOp a b = (eeop_code a < eeop_code b)"

instance
  by standard (auto simp: less_eq_ExprEvalOp_def less_ExprEvalOp_def)

end

lemma op_names_eq: "op_names = map getExprEvalOpName all_eeops"
  by (simp add: op_names_def all_eeops_def getExprEvalOpName_def)

lemma op_values_nth: "i < 91 \<Longrightarrow> op_values ! i = (op_names ! i, int i)"
proof -
  assume "i < 91"
  moreover have "length op_values = 91"
    using op_values_names length_op_names by (metis length_map)
  ultimately have "fst (op_values ! i) = op_names ! i" "snd (op_values ! i) = map int [0..<91] ! i"
    using op_values_names op_values_codes by (metis nth_map)+
  with \<open>i < 91\<close> show ?thesis by (simp add: prod_eq_iff)
qed

lemma map_of_op_values: "i < 91 \<Longrightarrow> map_of op_values (op_names ! i) = Some (int i)"
proof -
  assume i: "i < 91"
  have "distinct (map fst op_values)" "length op_values = 91"
    using op_values_names distinct_op_names length_op_names by (metis length_map)+
  with i have "map_of op_values (fst (op_values ! i)) = Some (snd (op_values ! i))"
    by (simp add: map_of_is_SomeI)
  with i show ?thesis by (simp add: op_values_nth)
qed

text \<open>
  C28. The three name tables agree: the name looked up by the integer code of an operation is
  the name the switch gives, and parsing that name gives the code back, for every operation.
\<close>

theorem eeop_name_roundtrip:
  "getExprEvalOpNameById (eeop_code op) = getExprEvalOpName op \<and>
   getExprEvalOpValue (getExprEvalOpName op) = eeop_code op"
proof -
  have b: "nat (eeop_code op) < 91" using eeop_code_bounds [of op] by simp
  have n: "op_names ! nat (eeop_code op) = getExprEvalOpName op"
    using b by (simp add: op_names_eq nth_eeop_code)
  show ?thesis
    using eeop_code_bounds [of op] map_of_op_values [OF b] n
    by (simp add: getExprEvalOpNameById_def getExprEvalOpValue_def)
qed

lemma getExprEvalOpValue_NameById:
  "0 \<le> i \<Longrightarrow> i \<le> 90 \<Longrightarrow> getExprEvalOpValue (getExprEvalOpNameById i) = i"
  using map_of_op_values [of "nat i"]
  by (simp add: getExprEvalOpNameById_def getExprEvalOpValue_def)


end
