(* ===== verification/ExprTable.thy ===== *)
theory ExprTable
  imports Prelude Eeop
begin

text \<open>
  The table of known expressions (\<open>exprTypes\<close>) of \<open>src/backend/utils/init/globals.c\<close>.

  An expression is the list of its operation codes. The table is an array of
  \<open>EXPR_LIST_SIZE\<close> slots with linear probing: a slot whose hash is 0 is free, nothing is ever
  deleted, and an entry matches on its hash and its number of steps. \<open>find_expression\<close> and
  \<open>add_expression\<close> share the probing loop \<open>probe_loop\<close>. The hash is a 64-bit \<open>long long\<close> and
  the build uses \<open>-fwrapv\<close>, so it is a \<open>64 word\<close>; the home slot is C's remainder of the
  signed value.

  \<open>table_ok\<close> is the invariant of the array, \<open>ids\<close> the abstract map from (hash, length) to
  expression numbers. The lemmas show that the two operations implement lookup and insertion
  on that map as long as the hash is positive (\<open>hashable\<close>), that short expressions always
  satisfy this, and what happens when they do not.
\<close>

section \<open>Data\<close>

definition EXPR_LIST_SIZE :: nat where
  "EXPR_LIST_SIZE = 256"

definition EXPR_SIZE :: nat where
  "EXPR_SIZE = 64"

text \<open>
  \<open>struct ExprSteps\<close>. \<open>es_steps\<close> holds the initialised part of the array \<open>steps[EXPR_SIZE]\<close>;
  the member \<open>next\<close> is NULL in every entry and is left out.
\<close>

record ExprSteps =
  es_eIndex :: int
  es_expression_id :: int
  es_step_lens :: nat
  es_steps :: "int list"
  es_hash :: "64 word"

text \<open>
  The globals of the component: the array (NULL before it is allocated), the number of
  entries, the flag that the list changed, and the lines appended to
  \<^verbatim>\<open>/data/expr_eeops.txt\<close>.
\<close>

record expr_table =
  exprTypes :: "ExprSteps list option"
  exprNum :: int
  updateExprList :: bool
  eeops_file :: "string list"

section \<open>Operations\<close>

definition initializeExprStepsList :: "ExprSteps list" where
  "initializeExprStepsList =
     map (\<lambda>i. \<lparr>es_eIndex = int i, es_expression_id = 0, es_step_lens = 0, es_steps = [], es_hash = 0\<rparr>)
       [0..<EXPR_LIST_SIZE]"

fun hash_loop :: "64 word \<Rightarrow> int list \<Rightarrow> 64 word" where
  "hash_loop h [] = h"
| "hash_loop h (s # ss) = hash_loop (h * 3 + of_int s) ss"

definition calculate_hash :: "int list \<Rightarrow> 64 word" where
  "calculate_hash ss = hash_loop 17 ss"

text \<open>\<open>(int)(eHash % (long long)EXPR_LIST_SIZE)\<close>: the sign of the dividend is kept.\<close>

definition tIndex0 :: "64 word \<Rightarrow> int" where
  "tIndex0 eHash = sint eHash smod int EXPR_LIST_SIZE"

datatype probe = Found nat | Stopped nat

text \<open>
  The \<open>while\<close> loop of both operations: it stops at a free slot, at a matching slot, or when it
  is back at the slot it started from.
\<close>

fun probe_loop :: "nat \<Rightarrow> ExprSteps list \<Rightarrow> 64 word \<Rightarrow> nat \<Rightarrow> int \<Rightarrow> int \<Rightarrow> probe res" where
  "probe_loop 0 tab eHash len initIndex tIndex = Inl OutOfFuel"
| "probe_loop (Suc k) tab eHash len initIndex tIndex =
     bindE (arr_get tab tIndex) (\<lambda>e.
       if es_hash e = 0 then Inr (Stopped (nat tIndex))
       else if es_hash e = eHash \<and> es_step_lens e = len then Inr (Found (nat tIndex))
       else
         (let t1 = tIndex + 1;
              t2 = (if t1 = int EXPR_LIST_SIZE then 0 else t1)
          in if t2 = initIndex then Inr (Stopped (nat t2))
             else probe_loop k tab eHash len initIndex t2))"

text \<open>The result is the index of the entry the C function returns a pointer to.\<close>

definition find_expression :: "expr_table \<Rightarrow> int list \<Rightarrow> nat option res" where
  "find_expression t ss =
     (case exprTypes t of
        None \<Rightarrow> Inr None
      | Some tab \<Rightarrow>
          if exprNum t = 0 then Inr None
          else
            (let eHash = calculate_hash ss; initIndex = tIndex0 eHash
             in bindE (probe_loop EXPR_LIST_SIZE tab eHash (length ss) initIndex initIndex)
                  (\<lambda>p. case p of Found i \<Rightarrow> Inr (Some i) | Stopped i \<Rightarrow> Inr None)))"

text \<open>
  The line written for a new expression. The prefix is the UTF-8 encoding of the Chinese words
  for ``expression number'' in the format string.
\<close>

definition expr_prefix :: string where
  "expr_prefix = map char_of
     [0xE8, 0xA1, 0xA8, 0xE8, 0xBE, 0xBE, 0xE5, 0xBC, 0x8F, 0xE7, 0xBC, 0x96, 0xE5, 0x8F, 0xB7 :: nat]"

definition newline :: char where
  "newline = char_of (10::nat)"

definition expr_line :: "int \<Rightarrow> int list \<Rightarrow> string" where
  "expr_line n ss =
     expr_prefix @ '' '' @ show_int n @ '':'' @
     concat (map (\<lambda>s. '' '' @ getExprEvalOpNameById s) ss) @ [newline]"

text \<open>
  \<open>fopen_ok\<close> tells whether \<open>fopen\<close> of the log file succeeds; when it does not, the code still
  calls \<open>fclose\<close> on the null stream.
\<close>

definition add_expression :: "bool \<Rightarrow> expr_table \<Rightarrow> int list \<Rightarrow> (expr_table \<times> nat option) res" where
  "add_expression fopen_ok t0 ss =
     bindE (find_expression t0 ss) (\<lambda>existing_expr.
       case existing_expr of
         Some i \<Rightarrow> Inr (t0, Some i)
       | None \<Rightarrow>
           (let t = t0\<lparr>updateExprList := True\<rparr>;
                eHash = calculate_hash ss; initIndex = tIndex0 eHash
            in case exprTypes t of
                 None \<Rightarrow> Inl NullDeref
               | Some tab \<Rightarrow>
                   bindE (probe_loop EXPR_LIST_SIZE tab eHash (length ss) initIndex initIndex) (\<lambda>p.
                     case p of
                       Found i \<Rightarrow> Inr (t, Some i)
                     | Stopped i \<Rightarrow>
                         bindE (arr_get tab (int i)) (\<lambda>e.
                           if es_hash e = 0 then
                             (if length ss > EXPR_SIZE then Inl OutOfBounds
                              else
                                (let n = exprNum t + 1;
                                     e' = e\<lparr>es_eIndex := int i, es_expression_id := n,
                                            es_step_lens := length ss, es_hash := eHash,
                                            es_steps := ss\<rparr>;
                                     t' = t\<lparr>exprTypes := Some (tab[i := e']), exprNum := n\<rparr>
                                 in if fopen_ok
                                    then Inr (t'\<lparr>eeops_file := eeops_file t' @
                                                  (if n \<noteq> 0 then [expr_line n ss] else [])\<rparr>, Some i)
                                    else Inl NullDeref))
                           else Inr (t, None)))))"

section \<open>The hash\<close>

text \<open>The hash before it is reduced to 64 bits.\<close>

fun hash_int :: "int \<Rightarrow> int list \<Rightarrow> int" where
  "hash_int h [] = h"
| "hash_int h (s # ss) = hash_int (h * 3 + s) ss"

lemma hash_loop_of_int: "hash_loop (of_int h) ss = of_int (hash_int h ss)"
proof (induction ss arbitrary: h)
  case (Cons s ss)
  have "of_int h * 3 + of_int s = (of_int (h * 3 + s) :: 64 word)" by simp
  then show ?case using Cons.IH by (simp only: hash_loop.simps hash_int.simps)
qed simp

lemma hash_loop_append: "hash_loop h (xs @ ys) = hash_loop (hash_loop h xs) ys"
  by (induction xs arbitrary: h) simp_all

lemma hash_int_bounds:
  assumes "\<forall>s \<in> set ss. 0 \<le> s \<and> s \<le> 90" and "0 < h"
  shows "0 < hash_int h ss \<and> hash_int h ss \<le> (h + 45) * 3 ^ length ss - 45"
  using assms
proof (induction ss arbitrary: h)
  case (Cons s ss)
  then have s: "0 \<le> s" "s \<le> 90" by auto
  with Cons have IH: "0 < hash_int (h * 3 + s) ss"
     "hash_int (h * 3 + s) ss \<le> (h * 3 + s + 45) * 3 ^ length ss - 45"
    using Cons.IH [of "h * 3 + s"] by auto
  have "(h * 3 + s + 45) * 3 ^ length ss \<le> ((h + 45) * 3) * 3 ^ length ss"
    using s by (intro mult_right_mono) auto
  with IH have "hash_int (h * 3 + s) ss \<le> ((h + 45) * 3) * 3 ^ length ss - 45" by linarith
  moreover have "((h + 45) * 3) * 3 ^ length ss = (h + 45) * 3 ^ length (s # ss)" by simp
  ultimately show ?case using IH(1) by (simp only: hash_int.simps)
qed simp

definition hashable :: "int list \<Rightarrow> bool" where
  "hashable ss = (length ss \<le> EXPR_SIZE \<and> 0 < sint (calculate_hash ss))"

lemma calculate_hash_int: "calculate_hash ss = of_int (hash_int 17 ss)"
  using hash_loop_of_int [of 17 ss] by (simp add: calculate_hash_def)

lemma hashable_short:
  assumes "length ss \<le> 35" and "\<forall>s \<in> set ss. 0 \<le> s \<and> s \<le> 90"
  shows "hashable ss"
proof -
  have b: "0 < hash_int 17 ss" "hash_int 17 ss \<le> 62 * 3 ^ length ss - 45"
    using hash_int_bounds [OF assms(2), of 17] by simp_all
  have "(3::int) ^ length ss \<le> 3 ^ 35"
    using assms(1) by (intro power_increasing) auto
  with b have "hash_int 17 ss < 2 ^ 63" by simp
  then have "sint (of_int (hash_int 17 ss) :: 64 word) = hash_int 17 ss"
    using b(1) by (simp add: sint_sbintrunc' signed_take_bit_int_eq_self)
  with b(1) assms(1) show ?thesis
    by (simp add: hashable_def calculate_hash_int EXPR_SIZE_def)
qed

text \<open>Distinct step lists collide: raising a step by one and lowering its successor by three.\<close>

lemma calculate_hash_shift:
  "calculate_hash (p @ [a, b + 3] @ q) = calculate_hash (p @ [a + 1, b] @ q)"
proof -
  have "((h * 3 + of_int a) * 3 + of_int (b + 3) :: 64 word) = (h * 3 + of_int (a + 1)) * 3 + of_int b" for h
    by (simp add: distrib_right)
  then show ?thesis
    by (simp only: calculate_hash_def hash_loop_append append.simps hash_loop.simps)
qed

lemma tIndex0_bounds:
  assumes "0 < sint h"
  shows "0 \<le> tIndex0 h" "tIndex0 h < 256"
proof -
  have "tIndex0 h = sint h mod 256"
    using assms by (simp add: tIndex0_def EXPR_LIST_SIZE_def smod_int_alt_def)
  then show "0 \<le> tIndex0 h" "tIndex0 h < 256" by simp_all
qed

lemma tIndex0_negative: "tIndex0 h < 0 \<longleftrightarrow> sint h < 0 \<and> \<not> int EXPR_LIST_SIZE dvd sint h"
proof -
  have "0 \<le> \<bar>sint h\<bar> mod 256" by simp
  moreover have "256 dvd sint h \<longleftrightarrow> \<bar>sint h\<bar> mod 256 = 0" by (simp add: dvd_eq_mod_eq_0 [symmetric])
  ultimately show ?thesis
    by (auto simp: tIndex0_def EXPR_LIST_SIZE_def smod_int_alt_def sgn_if)
qed

lemma tIndex0_less: "tIndex0 h < int EXPR_LIST_SIZE"
proof -
  have "0 \<le> - sint h mod 256" "sint h mod 256 < 256" by simp_all
  then have "- (- sint h mod 256) < 256" by linarith
  with \<open>sint h mod 256 < 256\<close> show ?thesis by (simp add: tIndex0_def EXPR_LIST_SIZE_def smod_int_alt_def sgn_if)
qed

section \<open>The probing loop\<close>

lemma probe_loop_in_bounds:
  assumes "length tab = EXPR_LIST_SIZE" "0 \<le> i" "i < int EXPR_LIST_SIZE"
  shows "probe_loop k tab h l b i \<noteq> Inl OutOfBounds"
  using assms(2,3)
proof (induction k arbitrary: i)
  case (Suc k)
  have "arr_get tab i = Inr (tab ! nat i)" using assms(1) Suc.prems by (simp add: arr_get_def)
  moreover have "probe_loop k tab h l b (if i + 1 = int EXPR_LIST_SIZE then 0 else i + 1) \<noteq> Inl OutOfBounds"
    using Suc.prems by (intro Suc.IH) (auto simp: EXPR_LIST_SIZE_def)
  ultimately show ?case by (simp add: Let_def)
qed simp

definition slot :: "nat \<Rightarrow> nat \<Rightarrow> nat" where
  "slot b m = (b + m) mod EXPR_LIST_SIZE"

lemma slot_less [simp]: "slot b m < 256"
  by (simp add: slot_def EXPR_LIST_SIZE_def)

lemma slot_0 [simp]: "b < 256 \<Longrightarrow> slot b 0 = b"
  by (simp add: slot_def EXPR_LIST_SIZE_def)

lemma slot_Suc_nat: "slot b (Suc m) = (if Suc (slot b m) = 256 then 0 else Suc (slot b m))"
  by (simp add: slot_def EXPR_LIST_SIZE_def mod_Suc)

lemma slot_Suc:
  "(if int (slot b m) + 1 = int EXPR_LIST_SIZE then 0 else int (slot b m) + 1) = int (slot b (Suc m))"
  unfolding slot_Suc_nat by (cases "Suc (slot b m) = 256") (auto simp: EXPR_LIST_SIZE_def)

lemma slot_if: "b < 256 \<Longrightarrow> m \<le> 256 \<Longrightarrow> slot b m = (if b + m < 256 then b + m else b + m - 256)"
  by (auto simp: slot_def EXPR_LIST_SIZE_def le_mod_geq)

lemma slot_256 [simp]: "b < 256 \<Longrightarrow> slot b 256 = b"
  by (simp add: slot_if)

lemma slot_back: "b < 256 \<Longrightarrow> m < 256 \<Longrightarrow> slot b (Suc m) = b \<longleftrightarrow> Suc m = 256"
  by (simp add: slot_if) arith

lemma slot_surj: "b < 256 \<Longrightarrow> i < 256 \<Longrightarrow> \<exists>d < 256. slot b d = i"
  by (rule exI [of _ "if b \<le> i then i - b else i + 256 - b"]) (auto simp: slot_if)

lemma slot_inj: "b < 256 \<Longrightarrow> c < 256 \<Longrightarrow> d < 256 \<Longrightarrow> slot b c = slot b d \<longleftrightarrow> c = d"
  by (simp add: slot_if) arith

definition occupied :: "ExprSteps \<Rightarrow> bool" where
  "occupied e = (es_hash e \<noteq> 0)"

definition key_of :: "ExprSteps \<Rightarrow> 64 word \<times> nat" where
  "key_of e = (es_hash e, es_step_lens e)"

text \<open>
  \<open>passes\<close>: the loop goes past the slots at distances \<open>m\<close> to \<open>d\<close> from the start \<open>b\<close>, because they
  are occupied by other expressions.
\<close>

definition passes :: "ExprSteps list \<Rightarrow> 64 word \<times> nat \<Rightarrow> nat \<Rightarrow> nat \<Rightarrow> nat \<Rightarrow> bool" where
  "passes tab k b m d = (\<forall>j. m \<le> j \<and> j < d \<longrightarrow> occupied (tab ! slot b j) \<and> key_of (tab ! slot b j) \<noteq> k)"

lemma probe_step:
  assumes "length tab = 256" and "b < 256" and "m < 256"
    and "occupied (tab ! slot b m)" and "key_of (tab ! slot b m) \<noteq> (h, l)"
  shows "probe_loop (Suc k) tab h l (int b) (int (slot b m)) =
     (if Suc m = 256 then Inr (Stopped b)
      else probe_loop k tab h l (int b) (int (slot b (Suc m))))"
  using assms by (auto simp: arr_get_nat occupied_def key_of_def Let_def slot_Suc slot_back)

lemma probe_hit:
  assumes "length tab = 256" and "b < 256" and "m \<le> d" and "d < 256" and "passes tab (h, l) b m d"
    and "occupied (tab ! slot b d)" and "key_of (tab ! slot b d) = (h, l)"
  shows "probe_loop (256 - m) tab h l (int b) (int (slot b m)) = Inr (Found (slot b d))"
  using assms(3,5)
proof (induction "d - m" arbitrary: m)
  case 0
  then have "m = d" by simp
  moreover obtain k where "256 - d = Suc k" using assms(4) by (metis Suc_diff_Suc)
  ultimately show ?case
    using assms by (simp add: arr_get_nat occupied_def key_of_def)
next
  case (Suc x)
  then have m: "m < d" by simp
  then obtain k where k: "256 - m = Suc k" "k = 256 - Suc m" using assms(4) by (metis Suc_diff_Suc less_trans)
  have "occupied (tab ! slot b m)" "key_of (tab ! slot b m) \<noteq> (h, l)"
    using Suc.prems(2) m by (auto simp: passes_def)
  then have "probe_loop (256 - m) tab h l (int b) (int (slot b m)) =
     probe_loop k tab h l (int b) (int (slot b (Suc m)))"
    using probe_step [of tab b m h l k] assms(1,2,4) m k by simp
  also have "\<dots> = Inr (Found (slot b d))"
    unfolding k(2) using Suc.hyps(1) [of "Suc m"] Suc.hyps(2) Suc.prems m by (simp add: passes_def)
  finally show ?case .
qed

lemma probe_free:
  assumes "length tab = 256" and "b < 256" and "m \<le> d" and "d < 256" and "passes tab (h, l) b m d"
    and "\<not> occupied (tab ! slot b d)"
  shows "probe_loop (256 - m) tab h l (int b) (int (slot b m)) = Inr (Stopped (slot b d))"
  using assms(3,5)
proof (induction "d - m" arbitrary: m)
  case 0
  then have "m = d" by simp
  moreover obtain k where "256 - d = Suc k" using assms(4) by (metis Suc_diff_Suc)
  ultimately show ?case
    using assms by (simp add: arr_get_nat occupied_def key_of_def)
next
  case (Suc x)
  then have m: "m < d" by simp
  then obtain k where k: "256 - m = Suc k" "k = 256 - Suc m" using assms(4) by (metis Suc_diff_Suc less_trans)
  have "occupied (tab ! slot b m)" "key_of (tab ! slot b m) \<noteq> (h, l)"
    using Suc.prems(2) m by (auto simp: passes_def)
  then have "probe_loop (256 - m) tab h l (int b) (int (slot b m)) =
     probe_loop k tab h l (int b) (int (slot b (Suc m)))"
    using probe_step [of tab b m h l k] assms(1,2,4) m k by simp
  also have "\<dots> = Inr (Stopped (slot b d))"
    unfolding k(2) using Suc.hyps(1) [of "Suc m"] Suc.hyps(2) Suc.prems m by (simp add: passes_def)
  finally show ?case .
qed

lemma probe_full:
  assumes "length tab = 256" and "b < 256" and "m < 256" and "passes tab (h, l) b m 256"
  shows "probe_loop (256 - m) tab h l (int b) (int (slot b m)) = Inr (Stopped b)"
  using assms(3,4)
proof (induction "255 - m" arbitrary: m)
  case 0
  then have "m = 255" by simp
  with 0 show ?case
    using probe_step [of tab b 255 h l 0] assms(1,2) by (simp add: passes_def)
next
  case (Suc x)
  then have m: "m < 255" by simp
  then obtain k where k: "256 - m = Suc k" "k = 256 - Suc m" by (metis Suc_diff_Suc Suc.prems(1))
  have "occupied (tab ! slot b m)" "key_of (tab ! slot b m) \<noteq> (h, l)"
    using Suc.prems by (auto simp: passes_def)
  then have "probe_loop (256 - m) tab h l (int b) (int (slot b m)) =
     probe_loop k tab h l (int b) (int (slot b (Suc m)))"
    using probe_step [of tab b m h l k] assms(1,2) m k by simp
  also have "\<dots> = Inr (Stopped b)"
    unfolding k(2) using Suc.hyps(1) [of "Suc m"] Suc.hyps(2) Suc.prems m by (simp add: passes_def)
  finally show ?case .
qed

section \<open>The invariant and the abstract map\<close>

definition home :: "ExprSteps \<Rightarrow> nat" where
  "home e = nat (tIndex0 (es_hash e))"

text \<open>An entry was written by \<open>add_expression\<close> for some step list.\<close>

definition entry_ok :: "nat \<Rightarrow> ExprSteps \<Rightarrow> bool" where
  "entry_ok i e =
     (es_eIndex e = int i \<and> 0 < sint (es_hash e) \<and>
      es_hash e = calculate_hash (es_steps e) \<and> es_step_lens e = length (es_steps e))"

definition array_ok :: "ExprSteps list \<Rightarrow> bool" where
  "array_ok tab =
     (length tab = 256 \<and>
      (\<forall>i<256. occupied (tab ! i) \<longrightarrow> entry_ok i (tab ! i)) \<and>
      (\<forall>i<256. \<forall>j<256. occupied (tab ! i) \<longrightarrow> occupied (tab ! j) \<longrightarrow>
         key_of (tab ! i) = key_of (tab ! j) \<longrightarrow> i = j) \<and>
      (\<forall>i<256. \<forall>d<256. occupied (tab ! i) \<longrightarrow> slot (home (tab ! i)) d = i \<longrightarrow>
         (\<forall>m<d. occupied (tab ! slot (home (tab ! i)) m))))"

definition used :: "ExprSteps list \<Rightarrow> nat set" where
  "used tab = {i. i < 256 \<and> occupied (tab ! i)}"

text \<open>Every number from 1 to \<open>exprNum\<close> is the number of exactly one entry.\<close>

definition table_ok :: "expr_table \<Rightarrow> bool" where
  "table_ok t =
     (case exprTypes t of
        None \<Rightarrow> False
      | Some tab \<Rightarrow>
          array_ok tab \<and>
          bij_betw (\<lambda>i. es_expression_id (tab ! i)) (used tab) {1..exprNum t} \<and> 0 \<le> exprNum t)"

text \<open>The abstract value of the table: which expression number a (hash, length) pair has.\<close>

definition ids :: "expr_table \<Rightarrow> 64 word \<times> nat \<Rightarrow> int option" where
  "ids t k =
     (case exprTypes t of
        None \<Rightarrow> None
      | Some tab \<Rightarrow> map_option es_expression_id (List.find (\<lambda>e. occupied e \<and> key_of e = k) tab))"

definition expr_key :: "int list \<Rightarrow> 64 word \<times> nat" where
  "expr_key ss = (calculate_hash ss, length ss)"

text \<open>The expression number behind the pointer an operation returned.\<close>

definition id_at :: "expr_table \<Rightarrow> nat option \<Rightarrow> int option" where
  "id_at t r =
     (case (r, exprTypes t) of
        (Some i, Some tab) \<Rightarrow> if i < length tab then Some (es_expression_id (tab ! i)) else None
      | _ \<Rightarrow> None)"

lemma home_less: "entry_ok i e \<Longrightarrow> home e < 256"
proof -
  assume "entry_ok i e"
  then have "0 < sint (es_hash e)" unfolding entry_ok_def by blast
  from tIndex0_bounds [OF this] show ?thesis by (simp add: home_def)
qed

lemma array_ok_length: "array_ok tab \<Longrightarrow> length tab = 256"
  by (simp add: array_ok_def)

lemma array_ok_entry: "array_ok tab \<Longrightarrow> i < 256 \<Longrightarrow> occupied (tab ! i) \<Longrightarrow> entry_ok i (tab ! i)"
  by (simp add: array_ok_def)

lemma array_ok_unique:
  "array_ok tab \<Longrightarrow> i < 256 \<Longrightarrow> j < 256 \<Longrightarrow> occupied (tab ! i) \<Longrightarrow> occupied (tab ! j) \<Longrightarrow>
   key_of (tab ! i) = key_of (tab ! j) \<Longrightarrow> i = j"
  unfolding array_ok_def by blast

lemma array_ok_path:
  "array_ok tab \<Longrightarrow> i < 256 \<Longrightarrow> occupied (tab ! i) \<Longrightarrow> d < 256 \<Longrightarrow> slot (home (tab ! i)) d = i \<Longrightarrow>
   m < d \<Longrightarrow> occupied (tab ! slot (home (tab ! i)) m)"
  unfolding array_ok_def by blast

lemma find_unique:
  assumes "i < length xs" and "P (xs ! i)" and "\<And>j. j < length xs \<Longrightarrow> P (xs ! j) \<Longrightarrow> j = i"
  shows "List.find P xs = Some (xs ! i)"
proof -
  have "\<not> P (xs ! j)" if "j < i" for j
  proof
    assume "P (xs ! j)"
    then have "j = i" using assms(1) that by (intro assms(3)) simp_all
    with that show False by simp
  qed
  then show ?thesis
    unfolding find_Some_iff using assms(1,2) by blast
qed

lemma ids_at:
  assumes "exprTypes t = Some tab" and "array_ok tab" and "i < 256" and "occupied (tab ! i)"
    and "key_of (tab ! i) = k"
  shows "ids t k = Some (es_expression_id (tab ! i))"
proof -
  have "List.find (\<lambda>e. occupied e \<and> key_of e = k) tab = Some (tab ! i)"
  proof (rule find_unique)
    show "i < length tab" using assms(2,3) by (simp add: array_ok_length)
    show "occupied (tab ! i) \<and> key_of (tab ! i) = k" using assms(4,5) ..
    fix j assume "j < length tab" "occupied (tab ! j) \<and> key_of (tab ! j) = k"
    then show "j = i"
      using array_ok_unique [OF assms(2) _ assms(3) _ assms(4)] assms(5)
        array_ok_length [OF assms(2)] by simp
  qed
  with assms(1) show ?thesis by (simp add: ids_def)
qed

lemma ids_none:
  assumes "exprTypes t = Some tab" and "length tab = 256"
    and "\<And>i. i < 256 \<Longrightarrow> occupied (tab ! i) \<Longrightarrow> key_of (tab ! i) \<noteq> k"
  shows "ids t k = None"
proof -
  have "List.find (\<lambda>e. occupied e \<and> key_of e = k) tab = None"
    using assms(2,3) by (auto simp: find_None_iff in_set_conv_nth)
  with assms(1) show ?thesis by (simp add: ids_def)
qed

text \<open>The two outcomes of probing for a key that starts at slot \<open>b\<close>.\<close>

lemma probe_present:
  assumes "array_ok tab" and "i < 256" and "occupied (tab ! i)" and "key_of (tab ! i) = (h, l)"
    and "b = home (tab ! i)"
  shows "probe_loop EXPR_LIST_SIZE tab h l (int b) (int b) = Inr (Found i)"
proof -
  have b: "b < 256" using home_less [OF array_ok_entry [OF assms(1-3)]] assms(5) by simp
  obtain d where d: "d < 256" "slot b d = i" using slot_surj [OF b assms(2)] by blast
  have "passes tab (h, l) b 0 d"
    unfolding passes_def
  proof (intro allI impI)
    fix j assume j: "0 \<le> j \<and> j < d"
    have o: "occupied (tab ! slot b j)"
      using array_ok_path [OF assms(1-3) d(1)] d(2) j assms(5) by simp
    moreover have "key_of (tab ! slot b j) \<noteq> (h, l)"
    proof
      assume "key_of (tab ! slot b j) = (h, l)"
      with o have "slot b j = i"
        using array_ok_unique [OF assms(1) slot_less assms(2) o assms(3)] assms(4) by simp
      then show False using slot_inj [OF b, of j d] d j by simp
    qed
    ultimately show "occupied (tab ! slot b j) \<and> key_of (tab ! slot b j) \<noteq> (h, l)" ..
  qed
  then show ?thesis
    using probe_hit [of tab b 0 d h l] array_ok_length [OF assms(1)] assms(3,4) b d
    by (simp add: EXPR_LIST_SIZE_def)
qed

lemma probe_absent:
  assumes len: "length tab = 256" and b: "b < 256"
    and no: "\<And>i. i < 256 \<Longrightarrow> occupied (tab ! i) \<Longrightarrow> key_of (tab ! i) \<noteq> (h, l)"
  shows "(\<exists>d<256. probe_loop EXPR_LIST_SIZE tab h l (int b) (int b) = Inr (Stopped (slot b d)) \<and>
            \<not> occupied (tab ! slot b d) \<and> (\<forall>m<d. occupied (tab ! slot b m))) \<or>
         (\<forall>i<256. occupied (tab ! i)) \<and>
            probe_loop EXPR_LIST_SIZE tab h l (int b) (int b) = Inr (Stopped b)"
proof (cases "\<exists>d<256. \<not> occupied (tab ! slot b d)")
  case True
  define d where "d = (LEAST d. d < 256 \<and> \<not> occupied (tab ! slot b d))"
  have d: "d < 256" "\<not> occupied (tab ! slot b d)"
    using LeastI_ex [OF True] by (simp_all add: d_def)
  have before: "occupied (tab ! slot b m)" if "m < d" for m
    using not_less_Least [of m "\<lambda>d. d < 256 \<and> \<not> occupied (tab ! slot b d)"] that d(1)
    by (auto simp: d_def)
  then have "passes tab (h, l) b 0 d" using no by (auto simp: passes_def)
  with d before show ?thesis
    using probe_free [of tab b 0 d h l] len b by (auto simp: EXPR_LIST_SIZE_def)
next
  case False
  then have all: "occupied (tab ! i)" if "i < 256" for i
    using slot_surj [OF b that] by blast
  then have "passes tab (h, l) b 0 256" using no by (auto simp: passes_def)
  then show ?thesis
    using probe_full [of tab b 0 h l] len b all by (simp add: EXPR_LIST_SIZE_def)
qed

section \<open>Insertion into the array\<close>

lemma occupied_update: "s < length tab \<Longrightarrow> occupied e \<Longrightarrow> occupied (tab ! x) \<Longrightarrow> occupied (tab[s := e] ! x)"
  by (cases "x = s") simp_all

text \<open>
  Writing a new entry into the first free slot of its probe sequence keeps the invariant of the
  array.
\<close>

lemma array_ok_update:
  assumes ok: "array_ok tab" and b: "b < 256" and d: "d < 256" and s: "s = slot b d"
    and free: "\<not> occupied (tab ! s)" and before: "\<forall>m<d. occupied (tab ! slot b m)"
    and e: "entry_ok s e" "occupied e" "home e = b"
    and new: "\<And>i. i < 256 \<Longrightarrow> occupied (tab ! i) \<Longrightarrow> key_of (tab ! i) \<noteq> key_of e"
  shows "array_ok (tab[s := e])"
proof -
  note len = array_ok_length [OF ok]
  have sl: "s < 256" using s by simp
  have old: "tab[s := e] ! i = tab ! i" if "i \<noteq> s" for i using that by simp
  have new_s: "tab[s := e] ! s = e" using sl len by simp
  have keep: "occupied (tab[s := e] ! x)" if "occupied (tab ! x)" for x
    using occupied_update [of s tab e x] that e(2) sl len by simp
  have "entry_ok i (tab[s := e] ! i)" if "i < 256" "occupied (tab[s := e] ! i)" for i
    using that e(1) array_ok_entry [OF ok, of i] by (cases "i = s") (simp_all add: old new_s)
  moreover have "i = j"
    if "i < 256" "j < 256" "occupied (tab[s := e] ! i)" "occupied (tab[s := e] ! j)"
      "key_of (tab[s := e] ! i) = key_of (tab[s := e] ! j)" for i j
    using that new [of i] new [of j] array_ok_unique [OF ok, of i j]
    by (cases "i = s"; cases "j = s") (simp_all add: old new_s)
  moreover have "occupied (tab[s := e] ! slot (home (tab[s := e] ! i)) m)"
    if "i < 256" "d' < 256" "occupied (tab[s := e] ! i)" "slot (home (tab[s := e] ! i)) d' = i" "m < d'"
    for i d' m
  proof (cases "i = s")
    case True
    then have "slot b d' = s" using that(4) by (simp add: new_s e(3))
    then have "slot b d' = slot b d" using s by simp
    then have "d' = d" using slot_inj [OF b that(2) d] by blast
    then show ?thesis using True before that(5) by (intro keep) (simp add: new_s e(3))
  next
    case False
    then show ?thesis
      using array_ok_path [OF ok that(1) _ that(2) _ that(5)] that(3,4)
      by (intro keep) (simp add: old)
  qed
  ultimately show ?thesis
    unfolding array_ok_def length_list_update using len by blast
qed

lemma used_update:
  assumes "length tab = 256" and "s < 256" and "occupied e"
  shows "used (tab[s := e]) = used tab \<union> {s}"
proof -
  have "i \<in> used (tab[s := e]) \<longleftrightarrow> i \<in> used tab \<union> {s}" for i
    using assms by (cases "i = s") (simp_all add: used_def)
  then show ?thesis by blast
qed

lemma ids_update:
  assumes t: "exprTypes t = Some tab" "exprTypes t' = Some (tab[s := e])"
    and ok: "array_ok tab" "array_ok (tab[s := e])" and s: "s < 256" "\<not> occupied (tab ! s)"
    and e: "occupied e"
  shows "ids t' = (ids t)(key_of e \<mapsto> es_expression_id e)"
proof
  fix k
  note len = array_ok_length [OF ok(1)]
  have at: "tab[s := e] ! i = (if i = s then e else tab ! i)" for i using s(1) len by simp
  show "ids t' k = ((ids t)(key_of e \<mapsto> es_expression_id e)) k"
  proof (cases "k = key_of e")
    case True
    then show ?thesis using ids_at [OF t(2) ok(2) s(1), of k] e by (simp add: at)
  next
    case False
    show ?thesis
    proof (cases "\<exists>i<256. occupied (tab ! i) \<and> key_of (tab ! i) = k")
      case True
      then obtain i where i: "i < 256" "occupied (tab ! i)" "key_of (tab ! i) = k" by blast
      then have "i \<noteq> s" using s(2) by blast
      then show ?thesis
        using ids_at [OF t(1) ok(1) i] ids_at [OF t(2) ok(2) i(1), of k] i False by (simp add: at)
    next
      case no: False
      then have "ids t k = None" using len by (intro ids_none [OF t(1)]) auto
      moreover have "ids t' k = None"
        using no False len by (intro ids_none [OF t(2)]) (auto simp: at split: if_splits)
      ultimately show ?thesis using False by simp
    qed
  qed
qed

section \<open>The operations implement the abstract map\<close>

lemma table_okE:
  assumes "table_ok t"
  obtains tab where "exprTypes t = Some tab" and "array_ok tab"
    and "bij_betw (\<lambda>i. es_expression_id (tab ! i)) (used tab) {1..exprNum t}" and "0 \<le> exprNum t"
  using assms unfolding table_ok_def by (auto split: option.splits)

lemma used_card:
  assumes "bij_betw f (used tab) {1..n :: int}" and "0 \<le> n"
  shows "card (used tab) = nat n"
  using bij_betw_same_card [OF assms(1)] assms(2) by simp

lemma used_full: "(\<forall>i<256. occupied (tab ! i)) \<longleftrightarrow> card (used tab) = 256"
proof
  assume "\<forall>i<256. occupied (tab ! i)"
  then have "used tab = {..<256}" by (auto simp: used_def)
  then show "card (used tab) = 256" by simp
next
  assume c: "card (used tab) = 256"
  have "used tab \<subseteq> {..<256}" by (auto simp: used_def)
  then have "used tab = {..<256}" using c by (intro card_subset_eq) auto
  then show "\<forall>i<256. occupied (tab ! i)" by (auto simp: used_def)
qed

lemma hashable_home:
  assumes "hashable ss"
  obtains b where "b < 256" and "tIndex0 (calculate_hash ss) = int b"
    and "\<And>e. key_of e = expr_key ss \<Longrightarrow> home e = b"
proof -
  have p: "0 < sint (calculate_hash ss)" using assms by (simp add: hashable_def)
  show thesis
    using tIndex0_bounds [OF p] by (intro that [of "nat (tIndex0 (calculate_hash ss))"])
      (auto simp: home_def key_of_def expr_key_def)
qed

text \<open>
  The outcome of the probing loop for a hashable expression: the entry of its key, or the first
  free slot on its path, or a full table.
\<close>

lemma probe_cases:
  assumes tab: "exprTypes t = Some tab" "array_ok tab" and h: "hashable ss"
    and p: "p = probe_loop EXPR_LIST_SIZE tab (calculate_hash ss) (length ss)
                  (tIndex0 (calculate_hash ss)) (tIndex0 (calculate_hash ss))"
  obtains (hit) i where "i < 256" "occupied (tab ! i)" "key_of (tab ! i) = expr_key ss"
      "p = Inr (Found i)" "ids t (expr_key ss) = Some (es_expression_id (tab ! i))"
  | (free) b d where "b < 256" "d < 256" "p = Inr (Stopped (slot b d))"
      "tIndex0 (calculate_hash ss) = int b"
      "\<not> occupied (tab ! slot b d)" "\<forall>m<d. occupied (tab ! slot b m)"
      "\<And>i. i < 256 \<Longrightarrow> occupied (tab ! i) \<Longrightarrow> key_of (tab ! i) \<noteq> expr_key ss"
      "ids t (expr_key ss) = None"
  | (full) b where "b < 256" "p = Inr (Stopped b)" "\<forall>i<256. occupied (tab ! i)"
      "ids t (expr_key ss) = None"
proof -
  obtain b where b: "b < 256" "tIndex0 (calculate_hash ss) = int b"
    and home: "\<And>e. key_of e = expr_key ss \<Longrightarrow> home e = b"
    using hashable_home [OF h] by blast
  show thesis
  proof (cases "\<exists>i<256. occupied (tab ! i) \<and> key_of (tab ! i) = expr_key ss")
    case True
    then obtain i where i: "i < 256" "occupied (tab ! i)" "key_of (tab ! i) = expr_key ss" by blast
    have "p = Inr (Found i)"
      using probe_present [OF tab(2) i(1,2), of "calculate_hash ss" "length ss" b] i(3) home [OF i(3)] b p
      by (simp add: expr_key_def)
    with i show thesis using ids_at [OF tab i] by (intro hit)
  next
    case False
    then have no: "\<And>i. i < 256 \<Longrightarrow> occupied (tab ! i) \<Longrightarrow> key_of (tab ! i) \<noteq> expr_key ss" by blast
    have none: "ids t (expr_key ss) = None"
      using no by (intro ids_none [OF tab(1) array_ok_length [OF tab(2)]])
    from probe_absent [OF array_ok_length [OF tab(2)] b(1) no [unfolded expr_key_def]]
    show thesis
      using free [OF b(1) _ _ b(2) _ _ no none] full [OF b(1) _ _ none] p b(2) by auto
  qed
qed

lemma table_ok_empty:
  assumes "table_ok t" and "exprNum t = 0"
  shows "ids t k = None"
proof -
  from assms(1) obtain tab where tab: "exprTypes t = Some tab" "array_ok tab"
    "bij_betw (\<lambda>i. es_expression_id (tab ! i)) (used tab) {1..exprNum t}"
    by (rule table_okE)
  from tab(3) assms(2) have "used tab = {}" by (simp add: bij_betw_def)
  then show ?thesis
    using array_ok_length [OF tab(2)] by (intro ids_none [OF tab(1)]) (auto simp: used_def)
qed

lemma find_hit:
  assumes "table_ok t" and "hashable ss" and "ids t (expr_key ss) = Some n"
  shows "\<exists>i. find_expression t ss = Inr (Some i) \<and> id_at t (Some i) = Some n"
proof -
  from assms(1) obtain tab where tab: "exprTypes t = Some tab" "array_ok tab" by (rule table_okE)
  have "exprNum t \<noteq> 0" using table_ok_empty [OF assms(1), of "expr_key ss"] assms(3) by auto
  with tab(1) assms(3) array_ok_length [OF tab(2)] show ?thesis
    by (cases rule: probe_cases [OF tab assms(2) refl])
      (simp_all add: find_expression_def Let_def id_at_def)
qed

lemma find_miss:
  assumes "table_ok t" and "hashable ss" and "ids t (expr_key ss) = None"
  shows "find_expression t ss = Inr None"
proof -
  from assms(1) obtain tab where tab: "exprTypes t = Some tab" "array_ok tab" by (rule table_okE)
  with assms(3) show ?thesis
    by (cases rule: probe_cases [OF tab assms(2) refl])
      (simp_all add: find_expression_def Let_def)
qed

lemma add_hit:
  assumes "table_ok t" and "hashable ss" and "ids t (expr_key ss) = Some n"
  shows "\<exists>i. add_expression fopen_ok t ss = Inr (t, Some i) \<and> id_at t (Some i) = Some n"
  using find_hit [OF assms] by (auto simp: add_expression_def)

lemma exprNum_full:
  assumes "table_ok t" and "exprTypes t = Some tab"
  shows "(\<forall>i<256. occupied (tab ! i)) \<longleftrightarrow> exprNum t = 256"
    and "exprNum t \<le> 256"
proof -
  from assms have b: "bij_betw (\<lambda>i. es_expression_id (tab ! i)) (used tab) {1..exprNum t}"
    and n: "0 \<le> exprNum t"
    by (auto simp: table_ok_def)
  note c = used_card [OF b n]
  then show "(\<forall>i<256. occupied (tab ! i)) \<longleftrightarrow> exprNum t = 256"
    unfolding used_full using n by linarith
  have "used tab \<subseteq> {..<256}" by (auto simp: used_def)
  then have "card (used tab) \<le> 256" using card_mono [of "{..<256 :: nat}"] by simp
  with c n show "exprNum t \<le> 256" by linarith
qed

lemma add_full:
  assumes "table_ok t" and "hashable ss" and "ids t (expr_key ss) = None" and "exprNum t = 256"
  shows "add_expression fopen_ok t ss = Inr (t\<lparr>updateExprList := True\<rparr>, None)"
proof -
  from assms(1) obtain tab where tab: "exprTypes t = Some tab" "array_ok tab" by (rule table_okE)
  have full: "\<forall>i<256. occupied (tab ! i)" using exprNum_full [OF assms(1) tab(1)] assms(4) by blast
  with assms(3) tab(1) array_ok_length [OF tab(2)] show ?thesis
    by (cases rule: probe_cases [OF tab assms(2) refl])
      (simp_all add: add_expression_def find_miss [OF assms(1-3)] Let_def arr_get_nat occupied_def)
qed

text \<open>The entry \<open>add_expression\<close> writes into slot \<open>i\<close>.\<close>

definition new_entry :: "nat \<Rightarrow> int \<Rightarrow> int list \<Rightarrow> ExprSteps \<Rightarrow> ExprSteps" where
  "new_entry i n ss e =
     e\<lparr>es_eIndex := int i, es_expression_id := n, es_step_lens := length ss,
       es_hash := calculate_hash ss, es_steps := ss\<rparr>"

lemma new_entry_simps [simp]:
  assumes "hashable ss"
  shows "entry_ok i (new_entry i n ss e)" and "occupied (new_entry i n ss e)"
    and "key_of (new_entry i n ss e) = expr_key ss" and "es_expression_id (new_entry i n ss e) = n"
  using assms
  by (auto simp: new_entry_def entry_ok_def occupied_def key_of_def expr_key_def hashable_def)

lemma bij_betw_update:
  assumes bij: "bij_betw (\<lambda>i. es_expression_id (tab ! i)) (used tab) {1..n}" and n: "0 \<le> n"
    and len: "length tab = 256" and s: "s < 256" "\<not> occupied (tab ! s)"
    and e: "occupied e" "es_expression_id e = n + 1"
  shows "bij_betw (\<lambda>i. es_expression_id (tab[s := e] ! i)) (used (tab[s := e])) {1..n + 1}"
proof -
  have out: "s \<notin> used tab" using s(2) by (simp add: used_def)
  have same: "es_expression_id (tab ! i) = es_expression_id (tab[s := e] ! i)" if "i \<in> used tab" for i
  proof -
    have "i \<noteq> s" using out that by blast
    then show ?thesis by simp
  qed
  have at: "es_expression_id (tab[s := e] ! s) = n + 1" using len s(1) e(2) by simp
  have "bij_betw (\<lambda>i. es_expression_id (tab[s := e] ! i)) (used tab) {1..n}"
    using bij by (rule iffD1 [OF bij_betw_cong, rotated]) (rule same)
  then have "bij_betw (\<lambda>i. es_expression_id (tab[s := e] ! i)) (used tab \<union> {s}) ({1..n} \<union> {n + 1})"
    using notIn_Un_bij_betw [of s "used tab" "\<lambda>i. es_expression_id (tab[s := e] ! i)" "{1..n}"] out at
    by simp
  moreover have "{1..n} \<union> {n + 1} = {1..n + 1}" using n by auto
  ultimately show ?thesis using used_update [OF len s(1) e(1)] by simp
qed

lemma add_miss:
  assumes ok: "table_ok t" and h: "hashable ss" and none: "ids t (expr_key ss) = None"
    and room: "exprNum t < 256"
  shows "\<exists>i t'. add_expression True t ss = Inr (t', Some i) \<and> table_ok t' \<and>
           ids t' = (ids t)(expr_key ss \<mapsto> exprNum t + 1) \<and> exprNum t' = exprNum t + 1 \<and>
           id_at t' (Some i) = Some (exprNum t + 1) \<and> updateExprList t' \<and>
           eeops_file t' = eeops_file t @ [expr_line (exprNum t + 1) ss]"
proof -
  from ok obtain tab where tab: "exprTypes t = Some tab" "array_ok tab"
    and bij: "bij_betw (\<lambda>i. es_expression_id (tab ! i)) (used tab) {1..exprNum t}"
    and n0: "0 \<le> exprNum t"
    by (rule table_okE)
  note len = array_ok_length [OF tab(2)]
  have nf: "\<not> (\<forall>i<256. occupied (tab ! i))" using exprNum_full(1) [OF ok tab(1)] room by simp
  show ?thesis
  proof (cases rule: probe_cases [OF tab h refl, case_names hit free full])
    case hit
    then show ?thesis using none by simp
  next
    case full
    then show ?thesis using nf by blast
  next
    case (free b d)
    define s where "s = slot b d"
    define e where "e = new_entry s (exprNum t + 1) ss (tab ! s)"
    define t' where "t' = t\<lparr>updateExprList := True, exprTypes := Some (tab[s := e]),
      exprNum := exprNum t + 1, eeops_file := eeops_file t @ [expr_line (exprNum t + 1) ss]\<rparr>"
    have s: "s < 256" "\<not> occupied (tab ! s)" using free(5) by (simp_all add: s_def)
    have e: "entry_ok s e" "occupied e" "key_of e = expr_key ss" "es_expression_id e = exprNum t + 1"
      using h by (simp_all add: e_def)
    have "home e = b" using e(3) free(4) by (simp add: home_def key_of_def expr_key_def)
    then have ok': "array_ok (tab[s := e])"
      using array_ok_update [OF tab(2) free(1,2) s_def s(2) free(6) e(1,2)] free(7) e(3) by simp
    have step: "add_expression True t ss = Inr (t', Some s)"
      using free(3) s tab(1) len h n0
      by (simp add: add_expression_def find_miss [OF ok h none] Let_def arr_get_nat occupied_def
          hashable_def t'_def e_def new_entry_def flip: s_def)
    have types: "exprTypes t' = Some (tab[s := e])" by (simp add: t'_def)
    have "table_ok t'"
      using ok' bij_betw_update [OF bij n0 len s e(2,4)] n0 by (simp add: table_ok_def t'_def)
    moreover have "ids t' = (ids t)(expr_key ss \<mapsto> exprNum t + 1)"
      using ids_update [OF tab(1) types tab(2) ok' s e(2)] e by simp
    moreover have "id_at t' (Some s) = Some (exprNum t + 1)"
      using len s(1) e(4) by (simp add: id_at_def types)
    ultimately show ?thesis using step by (auto simp: t'_def)
  qed
qed

section \<open>The registry interface\<close>

text \<open>
  The abstract specification: a finite map from keys to numbers and the last number given. A
  known key keeps its number, a new key gets the next number while there is room.
\<close>

type_synonym 'k registry = "('k \<rightharpoonup> int) \<times> int"

definition reg_add :: "'k registry \<Rightarrow> 'k \<Rightarrow> 'k registry \<times> int option" where
  "reg_add r k =
     (case r of (m, n) \<Rightarrow>
        case m k of
          Some i \<Rightarrow> (r, Some i)
        | None \<Rightarrow> if n < 256 then ((m(k \<mapsto> n + 1), n + 1), Some (n + 1)) else (r, None))"

fun reg_add_all :: "'k registry \<Rightarrow> 'k list \<Rightarrow> 'k registry" where
  "reg_add_all r [] = r"
| "reg_add_all r (k # ks) = reg_add_all (fst (reg_add r k)) ks"

lemma reg_add_mono: "fst r k = Some i \<Longrightarrow> fst (fst (reg_add r k')) k = Some i"
  by (auto simp: reg_add_def split: prod.splits option.splits)

lemma reg_add_all_mono: "fst r k = Some i \<Longrightarrow> fst (reg_add_all r ks) k = Some i"
  by (induction ks arbitrary: r) (simp_all add: reg_add_mono)

text \<open>Distinct new keys are numbered consecutively.\<close>

lemma reg_add_all_other: "k \<notin> set ks \<Longrightarrow> fst (reg_add_all r ks) k = fst r k"
proof (induction ks arbitrary: r)
  case (Cons k' ks)
  have "fst (fst (reg_add r k')) k = fst r k"
    using Cons.prems by (auto simp: reg_add_def split: prod.splits option.splits)
  then show ?case using Cons by simp
qed simp

lemma reg_add_all_fresh:
  assumes "distinct ks" and "\<forall>k \<in> set ks. m k = None" and "n + int (length ks) \<le> 256"
  shows "snd (reg_add_all (m, n) ks) = n + int (length ks) \<and>
         (\<forall>i < length ks. fst (reg_add_all (m, n) ks) (ks ! i) = Some (n + 1 + int i))"
  using assms
proof (induction ks arbitrary: m n)
  case (Cons k ks)
  define m' where "m' = m(k \<mapsto> n + 1)"
  have step: "reg_add_all (m, n) (k # ks) = reg_add_all (m', n + 1) ks"
    using Cons.prems by (simp add: reg_add_def m'_def)
  have d: "distinct ks" and none: "\<forall>x \<in> set ks. m' x = None"
    and room: "n + 1 + int (length ks) \<le> 256"
    using Cons.prems by (auto simp: m'_def)
  have "fst (reg_add_all (m', n + 1) ks) k = Some (n + 1)"
    by (rule reg_add_all_mono) (simp add: m'_def)
  with Cons.IH [OF d none room] show ?case
    unfolding step by (auto simp: nth_Cons split: nat.splits)
qed simp

text \<open>
  What the loader of the expression file and the compile hook rely on: the operations succeed on
  admissible expressions and act on the registry as specified.
\<close>

locale expr_registry =
  fixes inv :: "'s \<Rightarrow> bool" and reg :: "'s \<Rightarrow> 'k registry" and adm :: "'e \<Rightarrow> bool"
    and key :: "'e \<Rightarrow> 'k" and find :: "'s \<Rightarrow> 'e \<Rightarrow> int option res"
    and add :: "'s \<Rightarrow> 'e \<Rightarrow> ('s \<times> int option) res"
  assumes find_spec: "inv s \<Longrightarrow> adm e \<Longrightarrow> find s e = Inr (fst (reg s) (key e))"
    and add_spec: "inv s \<Longrightarrow> adm e \<Longrightarrow>
      \<exists>s'. add s e = Inr (s', snd (reg_add (reg s) (key e))) \<and> inv s' \<and> reg s' = fst (reg_add (reg s) (key e))"
begin

primrec add_all :: "'s \<Rightarrow> 'e list \<Rightarrow> 's res" where
  "add_all s [] = Inr s"
| "add_all s (e # es) = bindE (add s e) (\<lambda>(s', _). add_all s' es)"

lemma add_all_spec:
  assumes "inv s" and "\<forall>e \<in> set es. adm e"
  shows "\<exists>s'. add_all s es = Inr s' \<and> inv s' \<and> reg s' = reg_add_all (reg s) (map key es)"
  using assms
proof (induction es arbitrary: s)
  case (Cons e es)
  then obtain s1 where "add s e = Inr (s1, snd (reg_add (reg s) (key e)))" "inv s1"
    "reg s1 = fst (reg_add (reg s) (key e))"
    using add_spec [of s e] by auto
  with Cons.IH [of s1] Cons.prems(2) show ?case by auto
qed simp

lemma find_after_add:
  assumes "inv s" and "adm e" and "add s e = Inr (s', Some n)"
  shows "find s' e = Inr (Some n)"
  using add_spec [OF assms(1,2)] assms find_spec [of s' e]
  by (auto simp: reg_add_def split: prod.splits option.splits if_splits)

lemma add_stable:
  assumes "inv s" and "adm e" and "adm e'" and "find s e = Inr (Some n)" and "add s e' = Inr (s', r)"
  shows "find s' e = Inr (Some n)"
proof -
  obtain s1 where "add s e' = Inr (s1, snd (reg_add (reg s) (key e')))" "inv s1"
    "reg s1 = fst (reg_add (reg s) (key e'))"
    using add_spec [OF assms(1,3)] by blast
  with assms show ?thesis
    using find_spec [OF assms(1,2)] find_spec [of s1 e] reg_add_mono [of "reg s" "key e"] by auto
qed

end

text \<open>The operations with the expression number in place of the pointer.\<close>

definition find_id :: "expr_table \<Rightarrow> int list \<Rightarrow> int option res" where
  "find_id t ss = bindE (find_expression t ss) (\<lambda>r. Inr (id_at t r))"

definition add_id :: "expr_table \<Rightarrow> int list \<Rightarrow> (expr_table \<times> int option) res" where
  "add_id t ss = bindE (add_expression True t ss) (\<lambda>(t', r). Inr (t', id_at t' r))"

definition reg_of :: "expr_table \<Rightarrow> (64 word \<times> nat) registry" where
  "reg_of t = (ids t, exprNum t)"

lemma find_id_spec:
  assumes "table_ok t" and "hashable ss"
  shows "find_id t ss = Inr (ids t (expr_key ss))"
  using find_hit [OF assms] find_miss [OF assms]
  by (cases "ids t (expr_key ss)") (auto simp: find_id_def id_at_def)

lemma table_ok_flag [simp]: "table_ok (t\<lparr>updateExprList := b\<rparr>) = table_ok t"
  by (simp add: table_ok_def split: option.split)

lemma ids_flag [simp]: "ids (t\<lparr>updateExprList := b\<rparr>) = ids t"
  by (simp add: ids_def fun_eq_iff)

lemma add_id_spec:
  assumes "table_ok t" and "hashable ss"
  shows "\<exists>t'. add_id t ss = Inr (t', snd (reg_add (reg_of t) (expr_key ss))) \<and> table_ok t' \<and>
           reg_of t' = fst (reg_add (reg_of t) (expr_key ss))"
proof (cases "ids t (expr_key ss)")
  case (Some n)
  from add_hit [OF assms Some, of True] Some assms(1) show ?thesis
    by (auto simp: add_id_def reg_of_def reg_add_def)
next
  case None
  show ?thesis
  proof (cases "exprNum t < 256")
    case True
    from add_miss [OF assms None True] None True show ?thesis
      by (auto simp: add_id_def reg_of_def reg_add_def)
  next
    case False
    obtain tab where "exprTypes t = Some tab" using assms(1) by (rule table_okE)
    then have "exprNum t = 256" using exprNum_full(2) [OF assms(1)] False by fastforce
    from add_full [OF assms None this, of True] None this assms(1) show ?thesis
      by (simp add: add_id_def reg_of_def reg_add_def id_at_def)
  qed
qed

interpretation ex: expr_registry table_ok reg_of hashable expr_key find_id add_id
  by unfold_locales (simp_all add: find_id_spec add_id_spec, simp add: reg_of_def)

section \<open>Properties\<close>

lemma table_ok_init:
  "table_ok \<lparr>exprTypes = Some initializeExprStepsList, exprNum = 0, updateExprList = b, eeops_file = f\<rparr>"
proof -
  have free: "\<not> occupied (initializeExprStepsList ! i)" if "i < 256" for i
    using that by (simp add: initializeExprStepsList_def occupied_def EXPR_LIST_SIZE_def)
  then have "used initializeExprStepsList = {}" by (auto simp: used_def)
  moreover have "array_ok initializeExprStepsList"
    using free by (simp add: array_ok_def) (simp add: initializeExprStepsList_def EXPR_LIST_SIZE_def)
  ultimately show ?thesis by (simp add: table_ok_def bij_betw_def)
qed

text \<open>
  C17. The lookup in the expression table refines a finite map: on every table that satisfies the
  invariant and for every expression whose hash is positive, \<open>find_expression\<close> terminates within
  one sweep, stays inside the array, and returns the entry whose number the abstract map gives
  to the expression's (hash, length) key, or NULL exactly when the map has none.
\<close>

theorem find_expression_refines:
  assumes "table_ok t" and "hashable ss"
  shows "\<exists>r. find_expression t ss = Inr r \<and> id_at t r = ids t (expr_key ss)"
  using find_hit [OF assms] find_miss [OF assms]
  by (cases "ids t (expr_key ss)") (auto simp: id_at_def)

theorem find_expression_refines_witness:
  "\<exists>r. find_expression \<lparr>exprTypes = Some initializeExprStepsList, exprNum = 0,
            updateExprList = False, eeops_file = []\<rparr> [2, 6, 0] = Inr r \<and>
        id_at \<lparr>exprTypes = Some initializeExprStepsList, exprNum = 0,
            updateExprList = False, eeops_file = []\<rparr> r =
        ids \<lparr>exprTypes = Some initializeExprStepsList, exprNum = 0,
            updateExprList = False, eeops_file = []\<rparr> (expr_key [2, 6, 0])"
  by (rule find_expression_refines [OF table_ok_init hashable_short]) simp_all

text \<open>
  C3. \<open>add_expression\<close> refines the registry specification: a known expression keeps its number
  and leaves the table alone, a new one gets the next number while fewer than 256 are taken, and
  a full table refuses; in all three cases the invariant of the hash table is kept.
\<close>

theorem add_expression_refines:
  assumes "table_ok t" and "hashable ss"
  shows "\<exists>t' r. add_expression True t ss = Inr (t', r) \<and> table_ok t' \<and>
           (reg_of t', id_at t' r) = reg_add (reg_of t) (expr_key ss)"
proof -
  from add_id_spec [OF assms] obtain t' where
    a: "add_id t ss = Inr (t', snd (reg_add (reg_of t) (expr_key ss)))" "table_ok t'"
    "reg_of t' = fst (reg_add (reg_of t) (expr_key ss))" by blast
  then obtain r where "add_expression True t ss = Inr (t', r)"
    "id_at t' r = snd (reg_add (reg_of t) (expr_key ss))"
    by (auto simp: add_id_def bindE_eq_Inr)
  with a show ?thesis by (metis prod.collapse)
qed

theorem add_expression_refines_witness:
  "\<exists>t' r. add_expression True \<lparr>exprTypes = Some initializeExprStepsList, exprNum = 0,
            updateExprList = False, eeops_file = []\<rparr> [2, 6, 0] = Inr (t', r) \<and> table_ok t' \<and>
          (reg_of t', id_at t' r) =
          reg_add (reg_of \<lparr>exprTypes = Some initializeExprStepsList, exprNum = 0,
            updateExprList = False, eeops_file = []\<rparr>) (expr_key [2, 6, 0])"
  by (rule add_expression_refines [OF table_ok_init hashable_short]) simp_all

text \<open>
  C29. Expressions of at most 35 steps never wrap the 64-bit hash: the hash is positive, so the
  first probed slot is a valid index of the array.
\<close>

theorem calculate_hash_no_wrap:
  assumes "length ss \<le> 35" and "\<forall>s \<in> set ss. 0 \<le> s \<and> s \<le> 90"
  shows "0 < sint (calculate_hash ss) \<and> 0 \<le> tIndex0 (calculate_hash ss) \<and>
         tIndex0 (calculate_hash ss) < int EXPR_LIST_SIZE"
  using hashable_short [OF assms] tIndex0_bounds by (simp add: hashable_def EXPR_LIST_SIZE_def)

theorem calculate_hash_no_wrap_witness:
  "0 < sint (calculate_hash [2, 6, 0]) \<and> 0 \<le> tIndex0 (calculate_hash [2, 6, 0]) \<and>
   tIndex0 (calculate_hash [2, 6, 0]) < int EXPR_LIST_SIZE"
  by (rule calculate_hash_no_wrap) simp_all

text \<open>
  C30. Exactly the expressions whose hash wraps to a negative number that is no multiple of 256 are
  looked up outside the array: once the table holds an entry, whatever its entries are,
  \<open>find_expression\<close> then reads \<open>exprTypes\<close> at a negative index, and otherwise its loop stays inside.
  The 40 codes of a fetch, 38 column reads and the final step are such an expression.
\<close>

theorem find_expression_out_of_bounds:
  assumes "exprTypes t = Some tab" and "length tab = EXPR_LIST_SIZE" and "exprNum t \<noteq> 0"
  shows "find_expression t ss = Inl OutOfBounds \<longleftrightarrow>
    sint (calculate_hash ss) < 0 \<and> \<not> int EXPR_LIST_SIZE dvd sint (calculate_hash ss)"
proof (cases "tIndex0 (calculate_hash ss) < 0")
  case True
  then have "find_expression t ss = Inl OutOfBounds"
    using assms by (simp add: find_expression_def Let_def EXPR_LIST_SIZE_def numeral_eq_Suc arr_get_def)
  then show ?thesis using True tIndex0_negative by simp
next
  case False
  then have "find_expression t ss \<noteq> Inl OutOfBounds"
    using assms(1,3) probe_loop_in_bounds [OF assms(2) _ tIndex0_less, of "calculate_hash ss"]
    by (auto simp: find_expression_def Let_def bindE_def split: sum.splits probe.splits)
  then show ?thesis using False tIndex0_negative by simp
qed

theorem find_expression_out_of_bounds_witness:
  "find_expression \<lparr>exprTypes = Some initializeExprStepsList, exprNum = 1,
      updateExprList = False, eeops_file = []\<rparr> ([3] @ replicate 38 6 @ [0]) = Inl OutOfBounds"
proof -
  have "sint (calculate_hash ([3] @ replicate 38 6 @ [0])) < 0"
    "\<not> int EXPR_LIST_SIZE dvd sint (calculate_hash ([3] @ replicate 38 6 @ [0]))" by code_simp+
  then show ?thesis
    by (subst find_expression_out_of_bounds [where tab = initializeExprStepsList]) (simp_all add: initializeExprStepsList_def)
qed

text \<open>
  C31. The table identifies expressions by hash and length only, and the hash has linear
  collisions: two different step lists that differ by one in a step and by three in the next
  one are the same expression for \<open>find_expression\<close> and share one number.
\<close>

theorem find_expression_collision:
  "find_expression t (p @ [a, b + 3] @ q) = find_expression t (p @ [a + 1, b] @ q)"
proof -
  have "length (p @ [a, b + 3] @ q) = length (p @ [a + 1, b] @ q)" by simp
  then show ?thesis by (simp only: find_expression_def calculate_hash_shift)
qed

end
