(* ===== verification/SqlText.thy ===== *)
theory SqlText
  imports Prelude
begin

text \<open>
  The text helpers of \<open>src/backend/utils/init/globals.c\<close> (\<open>trim_token\<close>, \<open>identify_query\<close>) and
  the statement classifier of \<open>src/backend/tcop/postgres.c\<close> (\<open>getSqlStatementType\<close>).

  C strings are HOL strings without the terminating NUL. The lemmas show that trimming removes
  exactly the outer white space, that the classifier looks at the first word behind an optional
  EXPLAIN [ANALYZE] prefix and ignores case, and that a query number is returned exactly for the
  first pattern that occurs in the text.
\<close>

section \<open>Definitions\<close>

definition trim_end :: "string \<Rightarrow> string" where
  "trim_end s = rev (dropWhile isspace (rev s))"

text \<open>
  The second loop stops at the first character, which is no white space once the first loop has
  run, so the whole tail is stripped.
\<close>

definition trim_token :: "string \<Rightarrow> string" where
  "trim_token str =
     (let s = dropWhile isspace str
      in if s = [] then s else hd s # trim_end (tl s))"

definition QUERY_TEXTS :: "(int \<times> string list) list" where
  "QUERY_TEXTS =
     [(1, [''select l_returnflag, l_linestatus, sum(l_quantity) as sum_qty'']),
      (2, [''select s_acctbal, s_name, n_name, p_partkey, p_mfgr, s_address, s_phone, s_comment'']),
      (3, [''select l_orderkey, sum(l_extendedprice * (1 - l_discount)) as revenue, o_orderdate'']),
      (4, [''select o_orderpriority, count(*) as order_count'']),
      (5, [''select n_name, sum(l_extendedprice * (1 - l_discount)) as revenue'']),
      (6, [''select sum(l_extendedprice * l_discount) as revenue'']),
      (7, [''select supp_nation, cust_nation, l_year, sum(volume) as revenue'']),
      (8, [''select o_year, sum(case when nation = '' @ [CHR 39] @ ''BRAZIL'' @ [CHR 39] @
           '' then volume else 0 end) / sum(volume) as mkt_share'']),
      (9, [''select nation, o_year, sum(amount) as sum_profit'']),
      (10, [''select c_custkey, c_name, sum(l_extendedprice * (1 - l_discount)) as revenue'']),
      (11, [''select ps_partkey, sum(ps_supplycost * ps_availqty) as value'']),
      (12, [''select l_shipmode, sum(case when o_orderpriority ='']),
      (13, [''select c_count, count(*) as custdist'']),
      (14, [''select 100.00 * sum(case when p_type like'']),
      (15, [''create view revenue0 (supplier_no, total_revenue)'',
            ''select l_suppkey, sum(l_extendedprice * (1 - l_discount))'']),
      (16, [''select p_brand, p_type, p_size, count(distinct ps_suppkey) as supplier_cnt'']),
      (17, [''select sum(l_extendedprice) / 7.0 as avg_yearly'']),
      (18, [''select c_name, c_custkey, o_orderkey, o_orderdate, o_totalprice'']),
      (19, [''select sum(l_extendedprice* (1 - l_discount)) as revenue'']),
      (20, [''select s_name, s_address from supplier'']),
      (21, [''select s_name, count(*) as numwait'']),
      (22, [''select cntrycode, count(*) as numcust''])]"

definition identify_query :: "string \<Rightarrow> int" where
  "identify_query sql_query =
     (case List.find (\<lambda>(n, ps). list_ex (strstr sql_query) ps) QUERY_TEXTS of
        Some (n, ps) \<Rightarrow> n
      | None \<Rightarrow> - 1)"

text \<open>The values of \<open>enum CmdType\<close> the code returns.\<close>

definition CMD_UNKNOWN :: int where "CMD_UNKNOWN = 0"
definition CMD_SELECT :: int where "CMD_SELECT = 1"
definition CMD_UPDATE :: int where "CMD_UPDATE = 2"
definition CMD_INSERT :: int where "CMD_INSERT = 3"
definition CMD_DELETE :: int where "CMD_DELETE = 4"
definition CMD_NOTHING :: int where "CMD_NOTHING = 6"

definition skip_explain :: "string \<Rightarrow> string" where
  "skip_explain sql =
     (if strncaseeq sql ''EXPLAIN'' 7 then
        (let s = dropWhile isspace (drop 7 sql)
         in if strncaseeq s ''ANALYZE'' 7 then dropWhile isspace (drop 7 s) else s)
      else sql)"

definition word_type :: "string \<Rightarrow> int" where
  "word_type firstWord =
     (if firstWord = ''SET'' then CMD_NOTHING
      else if firstWord = ''SELECT'' then CMD_SELECT
      else if firstWord = ''UPDATE'' then CMD_UPDATE
      else if firstWord = ''INSERT'' then CMD_INSERT
      else if firstWord = ''DELETE'' then CMD_DELETE
      else if firstWord = ''BEGIN'' \<or> firstWord = ''START'' then CMD_NOTHING
      else if firstWord = ''COMMIT'' \<or> firstWord = ''END'' then CMD_UNKNOWN
      else if firstWord = ''ROLLBACK'' \<or> firstWord = ''ABORT'' then - 1
      else CMD_NOTHING)"

text \<open>\<open>malloc_ok\<close> tells whether the copy of the first word can be allocated.\<close>

definition getSqlStatementType :: "bool \<Rightarrow> string \<Rightarrow> int" where
  "getSqlStatementType malloc_ok query_string_sql =
     (let sql = skip_explain (dropWhile isspace query_string_sql);
          firstWord = takeWhile isalpha sql
      in if \<not> malloc_ok then CMD_UNKNOWN else word_type (map toupper firstWord))"

section \<open>Trimming\<close>

lemma trim_end_snoc: "trim_end (s @ [c]) = (if isspace c then trim_end s else s @ [c])"
  by (simp add: trim_end_def)

lemma trim_end_split: "\<exists>w. s = trim_end s @ w \<and> (\<forall>c \<in> set w. isspace c)"
proof -
  have "s = rev (dropWhile isspace (rev s)) @ rev (takeWhile isspace (rev s))"
    by (metis rev_append rev_rev_ident takeWhile_dropWhile_id)
  then show ?thesis
    unfolding trim_end_def by (metis set_rev set_takeWhileD)
qed

lemma trim_token_split:
  obtains a b where "str = a @ trim_token str @ b" "\<forall>c \<in> set a. isspace c" "\<forall>c \<in> set b. isspace c"
proof -
  let ?s = "dropWhile isspace str"
  have a: "str = takeWhile isspace str @ ?s" "\<forall>c \<in> set (takeWhile isspace str). isspace c"
    by (auto dest: set_takeWhileD)
  show thesis
  proof (cases ?s)
    case Nil
    with a show thesis by (intro that [of "takeWhile isspace str" "[]"]) (simp_all add: trim_token_def)
  next
    case (Cons c r)
    obtain w where "r = trim_end r @ w" "\<forall>c \<in> set w. isspace c" using trim_end_split by blast
    with Cons a show thesis
      by (intro that [of "takeWhile isspace str" w]) (simp_all add: trim_token_def)
  qed
qed

lemma trim_token_hd: "trim_token str \<noteq> [] \<Longrightarrow> \<not> isspace (hd (trim_token str))"
  using hd_dropWhile [of isspace str] by (auto simp: trim_token_def Let_def)

lemma trim_token_last: "trim_token str \<noteq> [] \<Longrightarrow> \<not> isspace (last (trim_token str))"
proof -
  assume ne: "trim_token str \<noteq> []"
  let ?s = "dropWhile isspace str"
  from ne have s: "?s \<noteq> []" "trim_token str = hd ?s # trim_end (tl ?s)"
    by (auto simp: trim_token_def Let_def split: if_splits)
  show ?thesis
  proof (cases "trim_end (tl ?s) = []")
    case True
    with s hd_dropWhile [of isspace str] show ?thesis by simp
  next
    case False
    then have "dropWhile isspace (rev (tl ?s)) \<noteq> []" by (simp add: trim_end_def)
    then have "\<not> isspace (hd (dropWhile isspace (rev (tl ?s))))" by (rule hd_dropWhile)
    moreover have "last (trim_token str) = hd (dropWhile isspace (rev (tl ?s)))"
      using False s(2) by (simp add: trim_end_def last_rev del: dropWhile_eq_Nil_conv)
    ultimately show ?thesis by simp
  qed
qed

lemma trim_token_space: "c \<noteq> [] \<Longrightarrow> \<forall>x \<in> set c. \<not> isspace x \<Longrightarrow> \<forall>x \<in> set w. isspace x \<Longrightarrow>
  trim_token (c @ w) = c"
proof -
  assume c: "c \<noteq> []" "\<forall>x \<in> set c. \<not> isspace x" and w: "\<forall>x \<in> set w. isspace x"
  obtain x xs where x: "c = x # xs" using c(1) by (cases c) auto
  have "dropWhile isspace (rev w @ rev xs) = rev xs"
    using w c(2) x by (subst dropWhile_append2) (auto simp: dropWhile_eq_self_iff hd_rev)
  with x c(2) show ?thesis by (simp add: trim_token_def trim_end_def)
qed

section \<open>Words and prefixes\<close>

lemma isalpha_not_isspace: "isalpha c \<Longrightarrow> \<not> isspace c"
  by (auto simp: isalpha_def isupper_def islower_def isspace_def Let_def)

lemma tolower_alpha: "isalpha (tolower c) \<Longrightarrow> isalpha c"
  by (auto simp: tolower_def isalpha_def split: if_splits)

lemma tolower_EXPLAIN: "map tolower ''EXPLAIN'' = ''explain''" by code_simp
lemma tolower_ANALYZE: "map tolower ''ANALYZE'' = ''analyze''" by code_simp

lemma map_tolower_alpha: "list_all isalpha (map tolower s) \<Longrightarrow> list_all isalpha s"
  by (auto simp: list_all_iff intro: tolower_alpha)

lemma dropWhile_word:
  assumes "list_all isspace w" and "kw \<noteq> []" and "list_all isalpha kw"
  shows "dropWhile isspace (w @ kw @ x) = kw @ x"
proof -
  obtain c cs where "kw = c # cs" using assms(2) by (cases kw) auto
  then show ?thesis
    using assms isalpha_not_isspace [of c] by (subst dropWhile_append2) (auto simp: list_all_iff)
qed

definition mentions :: "string \<Rightarrow> string list \<Rightarrow> bool" where
  "mentions q ps = (\<exists>p u v. p \<in> set ps \<and> q = u @ p @ v)"

lemma mentions_iff: "mentions q ps \<longleftrightarrow> list_ex (strstr q) ps"
  by (auto simp: mentions_def list_ex_iff strstr_iff)

section \<open>Properties\<close>

text \<open>
  \<open>trim_token\<close> returns the text without its leading and trailing white space: the argument is
  the result with only white space before and after it, and the result neither starts nor ends
  with white space.
\<close>

theorem trim_token_correct:
  "(\<exists>a b. str = a @ trim_token str @ b \<and> list_all isspace a \<and> list_all isspace b) \<and>
   (trim_token str = [] \<or> (isspace (hd (trim_token str)) = False \<and> isspace (last (trim_token str)) = False))"
  using trim_token_split [of str] trim_token_hd [of str] trim_token_last [of str]
  by (metis list_all_iff)

text \<open>
  \<open>identify_query\<close> returns the number of the first query one of whose fixed texts occurs in
  the statement, and -1 exactly when none occurs.
\<close>

theorem identify_query_correct:
  "(\<exists>pre ps suf. QUERY_TEXTS = pre @ (identify_query q, ps) # suf \<and> mentions q ps \<and>
      (\<nexists>n ps'. (n, ps') \<in> set pre \<and> mentions q ps')) \<or>
   identify_query q = - 1 \<and> (\<nexists>n ps. (n, ps) \<in> set QUERY_TEXTS \<and> mentions q ps)"
proof (cases "List.find (\<lambda>(n, ps). list_ex (strstr q) ps) QUERY_TEXTS")
  case None
  then have "\<nexists>n ps. (n, ps) \<in> set QUERY_TEXTS \<and> mentions q ps"
    by (auto simp: find_None_iff mentions_iff)
  with None show ?thesis by (simp add: identify_query_def)
next
  case (Some x)
  obtain n ps where x: "x = (n, ps)" by fastforce
  from Some [unfolded x] obtain i where i: "i < length QUERY_TEXTS" "QUERY_TEXTS ! i = (n, ps)"
    "mentions q (snd (QUERY_TEXTS ! i))" "\<And>j. j < i \<Longrightarrow> \<not> mentions q (snd (QUERY_TEXTS ! j))"
    unfolding find_Some_iff mentions_iff split_beta by metis
  have "\<nexists>n ps'. (n, ps') \<in> set (take i QUERY_TEXTS) \<and> mentions q ps'"
    using i(1,4) by (fastforce simp: in_set_conv_nth)
  moreover have "QUERY_TEXTS = take i QUERY_TEXTS @ (identify_query q, ps) # drop (Suc i) QUERY_TEXTS"
    using id_take_nth_drop [OF i(1)] i(2) Some x by (simp add: identify_query_def)
  ultimately show ?thesis using i(2,3) by fastforce
qed

text \<open>
  C32. The statement classifier ignores white space, letter case and an EXPLAIN ANALYZE prefix:
  for any spelling of the prefix and any spacing, the type of the statement is the type of its
  first word.
\<close>

theorem getSqlStatementType_explain_analyze:
  assumes "map tolower e = ''explain''" and "map tolower a = ''analyze''"
    and "list_all isspace (w0 @ w1 @ w2)" and "kw \<noteq> []" and "list_all isalpha kw"
    and "rest = [] \<or> \<not> isalpha (hd rest)"
  shows "getSqlStatementType True (w0 @ e @ w1 @ a @ w2 @ kw @ rest) = word_type (map toupper kw)"
proof -
  have len: "length e = 7" "length a = 7"
    using assms(1,2) [THEN arg_cong, of length] by simp_all
  have e: "strncaseeq (e @ x) ''EXPLAIN'' 7" for x
    using assms(1) len tolower_EXPLAIN by (simp add: strncaseeq_def del: list.map)
  have a: "strncaseeq (a @ x) ''ANALYZE'' 7" for x
    using assms(2) len tolower_ANALYZE by (simp add: strncaseeq_def del: list.map)
  have ea: "list_all isalpha e" "list_all isalpha a"
    by (rule map_tolower_alpha, simp only: assms, code_simp)+
  have ne: "e \<noteq> []" "a \<noteq> []" using len by auto
  note drop = dropWhile_word [OF _ ne(1) ea(1)] dropWhile_word [OF _ ne(2) ea(2)]
    dropWhile_word [OF _ assms(4,5)]
  have "skip_explain (dropWhile isspace (w0 @ e @ w1 @ a @ w2 @ kw @ rest)) = kw @ rest"
    using assms(3) e a len by (simp add: skip_explain_def Let_def drop)
  moreover have "takeWhile isalpha (kw @ rest) = kw"
    using assms(5,6) by (cases rest) (auto simp: takeWhile_append2 takeWhile_append1 list_all_iff)
  ultimately show ?thesis by (simp add: getSqlStatementType_def Let_def)
qed

theorem getSqlStatementType_explain_analyze_witness:
  "getSqlStatementType True ('' '' @ ''Explain'' @ '' '' @ ''analyze'' @ '' '' @ ''select'' @ '' 1'') = CMD_SELECT"
proof -
  have "getSqlStatementType True ('' '' @ ''Explain'' @ '' '' @ ''analyze'' @ '' '' @ ''select'' @ '' 1'') =
      word_type (map toupper ''select'')"
    by (rule getSqlStatementType_explain_analyze) code_simp+
  also have "\<dots> = CMD_SELECT" by code_simp
  finally show ?thesis .
qed

end
