(* ===== verification/ExprFile.thy ===== *)
theory ExprFile
  imports ExprTable SqlText
begin

text \<open>
  The loader of the expression file, \<open>parse_expression_file\<close> of
  \<open>src/backend/access/transam/xlog.c\<close>, which fills the expression table when the server starts.

  The file is a string; \<open>fgets\<close> cuts it into chunks of at most 2047 characters. A chunk that
  starts with the prefix is an expression: its number is skipped, its operation names are looked
  up and the codes are given to \<open>add_expression\<close>. The fixed buffer \<open>steps[EXPR_SIZE]\<close> is checked,
  and \<open>atoi\<close> of a missing token is a null dereference.

  The main lemma is a round trip: a file of the lines that \<open>add_expression\<close> writes is read back
  as exactly the expressions it was written from, with the numbers they had.
\<close>

section \<open>Definitions\<close>

text \<open>\<open>fgets(line, n, file)\<close>: the chunk read and the rest of the file.\<close>

definition fgets :: "nat \<Rightarrow> string \<Rightarrow> (string \<times> string) option" where
  "fgets n s =
     (if s = [] \<or> n < 2 then None
      else
        (let body = takeWhile (\<lambda>c. c \<noteq> newline) s;
             l = (if length body < length s then body @ [newline] else body);
             k = min (n - 1) (length l)
         in Some (take k s, drop k s)))"

text \<open>The C string in a buffer ends at its first NUL.\<close>

definition cstring :: "string \<Rightarrow> string" where
  "cstring s = takeWhile (\<lambda>c. c \<noteq> CHR 0x00) s"

definition LINE_SIZE :: nat where
  "LINE_SIZE = 2048"

lemma fgets_shorter: "fgets n s = Some (l, rest) \<Longrightarrow> length rest < length s"
  using length_takeWhile_le [of "\<lambda>c. c \<noteq> newline" s]
  by (auto simp: fgets_def Let_def min_def split: if_splits)

function parse_steps :: "int list \<Rightarrow> string \<Rightarrow> int list res" where
  "parse_steps steps rest =
     (case strtok rest '' '' of
        None \<Rightarrow> Inr steps
      | Some (token, rest') \<Rightarrow>
          if hd token = newline then Inr steps
          else if length steps \<ge> EXPR_SIZE then Inl OutOfBounds
          else parse_steps (steps @ [getExprEvalOpValue (trim_token token)]) rest')"
  by pat_completeness auto

termination
  by (relation "measure (\<lambda>(steps, rest). length rest)") (auto dest: strtok_shorter)

declare parse_steps.simps [simp del]

text \<open>The body of the loop over the lines, for a line that is not skipped.\<close>

definition parse_line :: "bool \<Rightarrow> expr_table \<Rightarrow> string \<Rightarrow> expr_table res" where
  "parse_line fopen_ok t line =
     (if line = [] \<or> hd line = newline then Inr t
      else
        (case strtok line '' '' of
           None \<Rightarrow> Inr t
         | Some (token, rest) \<Rightarrow>
             if strneq token expr_prefix 12 then
               (case strtok rest '':'' of
                  None \<Rightarrow> Inl NullDeref
                | Some (number, rest') \<Rightarrow>
                    bindE (parse_steps [] rest') (\<lambda>steps.
                      bindE (add_expression fopen_ok t steps) (\<lambda>(t', _). Inr t')))
             else Inr t))"

function parse_lines :: "bool \<Rightarrow> expr_table \<Rightarrow> string \<Rightarrow> expr_table res" where
  "parse_lines fopen_ok t file =
     (case fgets LINE_SIZE file of
        None \<Rightarrow> Inr t
      | Some (line, rest) \<Rightarrow>
          bindE (parse_line fopen_ok t (cstring line)) (\<lambda>t'. parse_lines fopen_ok t' rest))"
  by pat_completeness auto

termination
  by (relation "measure (\<lambda>(b, t, file). length file)") (auto dest: fgets_shorter)

declare parse_lines.simps [simp del]

text \<open>
  \<open>file = None\<close> when \<open>fopen\<close> of the expression file fails; the table is allocated before that.
  \<open>fopen_ok\<close> is the outcome of \<open>fopen\<close> of the log \<open>add_expression\<close> writes.
\<close>

definition parse_expression_file :: "bool \<Rightarrow> string option \<Rightarrow> expr_table \<Rightarrow> expr_table res" where
  "parse_expression_file fopen_ok file t =
     (let t0 = t\<lparr>exprTypes := Some initializeExprStepsList\<rparr>
      in case file of
           None \<Rightarrow> Inr t0
         | Some s \<Rightarrow> parse_lines fopen_ok t0 s)"

section \<open>Operation names as tokens\<close>

definition op_char :: "char \<Rightarrow> bool" where
  "op_char c = (isupper c \<or> isdigit c \<or> c = CHR ''_'')"

lemma op_names_chars: "list_all (\<lambda>s. s \<noteq> [] \<and> list_all op_char s) op_names"
  by code_simp

lemma newline_eq: "newline = CHR 0x0A"
  by code_simp

lemma op_char_no: "op_char c \<Longrightarrow> \<not> isspace c \<and> c \<noteq> CHR '' '' \<and> c \<noteq> newline \<and> c \<noteq> CHR 0x00"
  by (auto simp: op_char_def isupper_def isdigit_def isspace_def newline_eq Let_def)

lemma name_ok: "getExprEvalOpNameById i \<noteq> [] \<and> list_all op_char (getExprEvalOpNameById i)"
proof -
  have u: "''UNKNOWN_EEOP'' \<noteq> [] \<and> list_all op_char ''UNKNOWN_EEOP''" by code_simp
  have n: "op_names ! nat i \<noteq> [] \<and> list_all op_char (op_names ! nat i)" if "0 \<le> i" "i \<le> 90"
    using op_names_chars that by (simp add: list_all_length)
  show ?thesis
  proof (cases "i < 0 \<or> i > 90")
    case True
    then show ?thesis using u unfolding getExprEvalOpNameById_def Let_def by simp
  next
    case False
    then show ?thesis using n by (simp add: getExprEvalOpNameById_def)
  qed
qed

lemma name_chars: "getExprEvalOpNameById i \<noteq> []" "\<forall>c \<in> set (getExprEvalOpNameById i). op_char c"
  using name_ok [of i] by (auto simp: list_all_iff)

text \<open>The text behind the colon of a line.\<close>

definition steps_text :: "int list \<Rightarrow> string" where
  "steps_text ss = concat (map (\<lambda>s. '' '' @ getExprEvalOpNameById s) ss) @ [newline]"

lemma newline_not: "newline \<noteq> CHR '' ''" "newline \<noteq> CHR '':''" "isspace newline" "newline \<noteq> CHR 0x00"
  by (simp_all add: newline_eq isspace_def)

lemma strtok_name:
  "strtok (CHR '' '' # getExprEvalOpNameById s @ CHR '' '' # rest) '' '' = Some (getExprEvalOpNameById s, rest)"
  using strtok_token [of "getExprEvalOpNameById s" "'' ''" "CHR '' ''" rest] name_chars [of s]
  by (auto simp: strtok_delim dest: op_char_no)

lemma strtok_name_last:
  "strtok (CHR '' '' # getExprEvalOpNameById s @ [newline]) '' '' = Some (getExprEvalOpNameById s @ [newline], [])"
  using strtok_last [of "getExprEvalOpNameById s @ [newline]" "'' ''"] name_chars [of s]
  by (auto simp: strtok_delim newline_not dest: op_char_no)

lemma trim_name: "trim_token (getExprEvalOpNameById s) = getExprEvalOpNameById s"
  "trim_token (getExprEvalOpNameById s @ [newline]) = getExprEvalOpNameById s"
  using trim_token_space [of "getExprEvalOpNameById s" "[]"]
    trim_token_space [of "getExprEvalOpNameById s" "[newline]"] name_chars [of s] newline_not
  by (auto dest: op_char_no)

lemma hd_name: "hd (getExprEvalOpNameById s @ xs) \<noteq> newline"
  using name_chars [of s] by (metis hd_append2 hd_in_set op_char_no)

lemma strtok_newline: "strtok [newline] '' '' = Some ([newline], [])"
  by (rule strtok_last) (simp_all add: newline_not)

lemma parse_steps_text:
  assumes "\<forall>s \<in> set ss. 0 \<le> s \<and> s \<le> 90" and "length steps + length ss \<le> EXPR_SIZE"
  shows "parse_steps steps (steps_text ss) = Inr (steps @ ss)"
  using assms
proof (induction ss arbitrary: steps)
  case Nil
  then show ?case
    by (subst parse_steps.simps) (simp add: steps_text_def strtok_newline)
next
  case (Cons s ss)
  have v: "getExprEvalOpValue (getExprEvalOpNameById s) = s"
    using Cons.prems(1) by (simp add: getExprEvalOpValue_NameById)
  show ?case
  proof (cases ss)
    case Nil
    have "parse_steps (steps @ [s]) [] = Inr (steps @ [s])"
      by (subst parse_steps.simps) (simp add: strtok_def)
    with Nil Cons.prems(2) show ?thesis
      by (subst parse_steps.simps)
        (simp add: steps_text_def strtok_name_last hd_name trim_name v)
  next
    case (Cons s' ss')
    have "steps_text (s # ss) = CHR '' '' # getExprEvalOpNameById s @ CHR '' '' # tl (steps_text ss)"
      using Cons by (simp add: steps_text_def)
    moreover have "parse_steps (steps @ [s]) (tl (steps_text ss)) = parse_steps (steps @ [s]) (steps_text ss)"
      using Cons by (subst (1 2) parse_steps.simps) (simp add: steps_text_def strtok_delim)
    ultimately show ?thesis
      using Cons.prems Cons.IH [of "steps @ [s]"] hd_name [of s "[]"]
      by (subst parse_steps.simps) (simp add: strtok_name trim_name v)
  qed
qed

section \<open>Lines\<close>

lemma expr_line_text: "expr_line n ss = expr_prefix @ CHR '' '' # show_int n @ CHR '':'' # steps_text ss"
  by (simp add: expr_line_def steps_text_def)

definition line_char :: "char \<Rightarrow> bool" where
  "line_char c = (c \<noteq> newline \<and> c \<noteq> CHR 0x00)"

lemma prefix_chars: "list_all (\<lambda>c. line_char c \<and> c \<noteq> CHR '' '') expr_prefix" "expr_prefix \<noteq> []"
  by code_simp+

lemma isdigit_chars: "isdigit c \<Longrightarrow> line_char c \<and> c \<noteq> CHR '':''"
  by (auto simp: isdigit_def line_char_def newline_eq Let_def)

lemma show_int_chars:
  assumes "0 \<le> n"
  shows "show_int n \<noteq> []" and "c \<in> set (show_int n) \<Longrightarrow> line_char c \<and> c \<noteq> CHR '':''"
  using assms show_nat_nonempty [of "nat n"] show_nat_digits [of "nat n"] isdigit_chars
  by (auto simp: show_int_def)

lemma names_chars: "c \<in> set (concat (map (\<lambda>s. '' '' @ getExprEvalOpNameById s) ss)) \<Longrightarrow> line_char c"
proof -
  assume "c \<in> set (concat (map (\<lambda>s. '' '' @ getExprEvalOpNameById s) ss))"
  then obtain s where "c = CHR '' '' \<or> c \<in> set (getExprEvalOpNameById s)"
    by (auto split: if_splits)
  moreover have "line_char (CHR '' '')" by code_simp
  moreover have "line_char c" if "c \<in> set (getExprEvalOpNameById s)"
    using op_char_no [of c] name_chars(2) [of s] that by (simp add: line_char_def)
  ultimately show ?thesis by blast
qed

text \<open>A line ends with its only newline and has no NUL.\<close>

lemma expr_line_split:
  assumes "0 \<le> n"
  obtains b where "expr_line n ss = b @ [newline]" "\<forall>c \<in> set b. line_char c"
proof
  let ?b = "expr_prefix @ CHR '' '' # show_int n @ CHR '':'' # concat (map (\<lambda>s. '' '' @ getExprEvalOpNameById s) ss)"
  show "expr_line n ss = ?b @ [newline]" by (simp add: expr_line_def)
  have "line_char (CHR '' '') \<and> line_char (CHR '':'')" by code_simp
  moreover have "\<forall>c \<in> set expr_prefix. line_char c" using prefix_chars(1) by (simp add: list_all_iff)
  moreover have "\<forall>c \<in> set (show_int n). line_char c" using show_int_chars(2) [OF assms] by blast
  ultimately show "\<forall>c \<in> set ?b. line_char c"
    using names_chars [of _ ss] unfolding set_append list.set by blast
qed

lemma fgets_line:
  assumes "\<forall>c \<in> set b. line_char c" and "Suc (length b) < n"
  shows "fgets n (b @ [newline] @ rest) = Some (b @ [newline], rest)"
proof -
  have "takeWhile (\<lambda>c. c \<noteq> newline) (b @ newline # rest) = b"
    using assms(1) by (intro takeWhile_append_stop) (auto simp: line_char_def)
  moreover have "min (n - Suc 0) (Suc (length b)) = Suc (length b)" using assms(2) by simp
  ultimately show ?thesis using assms(2) by (simp add: fgets_def Let_def)
qed

lemma cstring_line:
  assumes "\<forall>c \<in> set b. line_char c"
  shows "cstring (b @ [newline]) = b @ [newline]"
  unfolding cstring_def using assms newline_not(4) by (auto simp: takeWhile_eq_all_conv line_char_def)

lemma parse_line_written:
  assumes "0 \<le> n" and "\<forall>s \<in> set ss. 0 \<le> s \<and> s \<le> 90" and "length ss \<le> EXPR_SIZE"
  shows "parse_line fopen_ok t (expr_line n ss) = bindE (add_expression fopen_ok t ss) (\<lambda>(t', _). Inr t')"
proof -
  have 1: "strtok (expr_line n ss) '' '' = Some (expr_prefix, show_int n @ CHR '':'' # steps_text ss)"
    unfolding expr_line_text using prefix_chars by (intro strtok_token) (auto simp: list_all_iff)
  have 2: "strtok (show_int n @ CHR '':'' # steps_text ss) '':'' = Some (show_int n, steps_text ss)"
    using show_int_chars [OF assms(1)] by (intro strtok_token) auto
  have 3: "parse_steps [] (steps_text ss) = Inr ss"
    using parse_steps_text [of ss "[]"] assms by simp
  have 4: "expr_line n ss \<noteq> []" "hd (expr_line n ss) \<noteq> newline"
    unfolding expr_line_text using prefix_chars by (auto simp: list_all_iff line_char_def neq_Nil_conv)
  show ?thesis
    by (simp add: parse_line_def 1 2 3 4 strneq_def)
qed

section \<open>Files\<close>

text \<open>
  Expressions short enough for the hash, the step buffer and the line buffer: every operation
  name has at most 38 characters.
\<close>

definition short_expr :: "int list \<Rightarrow> bool" where
  "short_expr ss = (length ss \<le> 35 \<and> list_all (\<lambda>s. 0 \<le> s \<and> s \<le> 90) ss)"

lemma short_exprD:
  assumes "short_expr ss"
  shows "\<forall>s \<in> set ss. 0 \<le> s \<and> s \<le> 90" "length ss \<le> EXPR_SIZE" "hashable ss"
  using assms hashable_short [of ss] by (auto simp: short_expr_def list_all_iff EXPR_SIZE_def)

lemma name_length: "0 \<le> i \<Longrightarrow> i \<le> 90 \<Longrightarrow> length (getExprEvalOpNameById i) \<le> 38"
proof -
  have "list_all (\<lambda>s. length s \<le> 38) op_names" by code_simp
  then show "0 \<le> i \<Longrightarrow> i \<le> 90 \<Longrightarrow> ?thesis"
    by (simp add: getExprEvalOpNameById_def list_all_length)
qed

lemma names_length:
  "\<forall>s \<in> set ss. 0 \<le> s \<and> s \<le> 90 \<Longrightarrow>
   length (concat (map (\<lambda>s. '' '' @ getExprEvalOpNameById s) ss)) \<le> 39 * length ss"
  by (induction ss) (auto dest: name_length)

lemma show_int_length: "0 \<le> n \<Longrightarrow> n < 1000 \<Longrightarrow> length (show_int n) \<le> 3"
  by (simp add: show_int_def show_nat.simps [of "nat n"] show_nat.simps [of "nat n div 10"]
      show_nat.simps [of "nat n div 10 div 10"])

lemma expr_line_length:
  assumes "short_expr ss" and "0 \<le> n" and "n < 1000"
  shows "length (expr_line n ss) < LINE_SIZE"
proof -
  have "length expr_prefix = 15" by code_simp
  moreover have "length ss \<le> 35" using assms(1) by (simp add: short_expr_def)
  ultimately show ?thesis
    using names_length [OF short_exprD(1) [OF assms(1)]] show_int_length [OF assms(2,3)]
    unfolding expr_line_def LINE_SIZE_def length_append by simp
qed

text \<open>The expressions of a file one after the other.\<close>

primrec add_expressions :: "bool \<Rightarrow> expr_table \<Rightarrow> int list list \<Rightarrow> expr_table res" where
  "add_expressions fopen_ok t [] = Inr t"
| "add_expressions fopen_ok t (ss # sss) =
     bindE (add_expression fopen_ok t ss) (\<lambda>(t', _). add_expressions fopen_ok t' sss)"

lemma bind_add_id: "bindE (add_id t ss) (\<lambda>(t', _). f t') = bindE (add_expression True t ss) (\<lambda>(t', _). f t')"
  by (cases "add_expression True t ss") (auto simp: add_id_def)

lemma add_expressions_registry: "add_expressions True t ess = ex.add_all t ess"
  by (induction ess arbitrary: t) (simp_all add: bind_add_id)

lemma parse_lines_written:
  assumes "\<forall>(n, ss) \<in> set ls. short_expr ss \<and> 0 \<le> n \<and> n < 1000"
  shows "parse_lines fopen_ok t (concat (map (\<lambda>(n, ss). expr_line n ss) ls)) =
         add_expressions fopen_ok t (map snd ls)"
  using assms
proof (induction ls arbitrary: t)
  case Nil
  then show ?case by (subst parse_lines.simps) (simp add: fgets_def)
next
  case (Cons l ls)
  obtain n ss where l: "l = (n, ss)" by (cases l) auto
  then have ss: "short_expr ss" and n: "0 \<le> n" "n < 1000" using Cons.prems by auto
  obtain b where b: "expr_line n ss = b @ [newline]" "\<forall>c \<in> set b. line_char c"
    using expr_line_split [OF n(1)] by blast
  have "Suc (length b) < LINE_SIZE" using expr_line_length [OF ss n] b(1) by simp
  then have f: "fgets LINE_SIZE (expr_line n ss @ x) = Some (expr_line n ss, x)" for x
    using fgets_line [OF b(2)] b(1) by simp
  have c: "cstring (expr_line n ss) = expr_line n ss" using cstring_line [OF b(2)] b(1) by simp
  have "parse_line fopen_ok t (expr_line n ss) = bindE (add_expression fopen_ok t ss) (\<lambda>(t', _). Inr t')"
    using short_exprD [OF ss] n(1) by (intro parse_line_written) auto
  then show ?case
    using Cons.IH Cons.prems
    by (subst parse_lines.simps, cases "add_expression fopen_ok t ss") (auto simp: l f c)
qed

text \<open>The registry of a fresh table, and the file the numbered expressions are written to.\<close>

definition empty_table :: expr_table where
  "empty_table = \<lparr>exprTypes = Some initializeExprStepsList, exprNum = 0, updateExprList = False, eeops_file = []\<rparr>"

definition numbered :: "int list list \<Rightarrow> (int \<times> int list) list" where
  "numbered ess = map (\<lambda>i. (int i + 1, ess ! i)) [0..<length ess]"

lemma numbered_snoc: "numbered (ess @ [ss]) = numbered ess @ [(int (length ess) + 1, ss)]"
  by (simp add: numbered_def nth_append)

lemma map_snd_numbered: "map snd (numbered ess) = ess"
  by (simp add: numbered_def map_nth comp_def)

lemma reg_of_empty: "reg_of empty_table = (Map.empty, 0)"
  using table_ok_init [of False "[]", folded empty_table_def] table_ok_empty
  by (auto simp: reg_of_def empty_table_def fun_eq_iff)

text \<open>The log of the table lists the expressions it holds, in the order of their numbers.\<close>

definition log_ok :: "expr_table \<Rightarrow> int list list \<Rightarrow> bool" where
  "log_ok t ess =
     (eeops_file t = map (\<lambda>(n, ss). expr_line n ss) (numbered ess) \<and> distinct (map expr_key ess) \<and>
      list_all short_expr ess \<and> exprNum t = int (length ess) \<and>
      reg_of t = reg_add_all (Map.empty, 0) (map expr_key ess))"

lemma reg_add_all_snoc: "reg_add_all r (ks @ [k]) = fst (reg_add (reg_add_all r ks) k)"
  by (induction ks arbitrary: r) simp_all

lemma exprNum_le: "table_ok t \<Longrightarrow> exprNum t \<le> 256"
  by (metis table_okE exprNum_full(2))

lemma log_key:
  assumes "table_ok t" and "log_ok t ess" and "ids t k = None"
  shows "k \<notin> set (map expr_key ess)"
proof
  assume "k \<in> set (map expr_key ess)"
  then obtain i where i: "i < length (map expr_key ess)" "k = map expr_key ess ! i"
    by (metis in_set_conv_nth)
  have "fst (reg_of t) k = Some (0 + 1 + int i)"
    using reg_add_all_fresh [of "map expr_key ess" Map.empty 0] assms(2) i exprNum_le [OF assms(1)]
    by (simp add: log_ok_def)
  with assms(3) show False by (simp add: reg_of_def)
qed

lemma add_expression_log:
  assumes t: "table_ok t" and log: "log_ok t ess" and ss: "short_expr ss"
  shows "\<exists>t' r ess'. add_expression True t ss = Inr (t', r) \<and> table_ok t' \<and> log_ok t' ess'"
proof (cases "ids t (expr_key ss)")
  case (Some n)
  then show ?thesis using add_hit [OF t short_exprD(3) [OF ss] Some, of True] t log by blast
next
  case None
  note h = short_exprD(3) [OF ss]
  show ?thesis
  proof (cases "exprNum t < 256")
    case True
    from add_miss [OF t h None True] obtain i t' where
      a: "add_expression True t ss = Inr (t', Some i)" "table_ok t'"
      "ids t' = (ids t)(expr_key ss \<mapsto> exprNum t + 1)" "exprNum t' = exprNum t + 1"
      "eeops_file t' = eeops_file t @ [expr_line (exprNum t + 1) ss]" by blast
    have "reg_of t' = fst (reg_add (reg_of t) (expr_key ss))"
      using a None True by (simp add: reg_of_def reg_add_def)
    then have "log_ok t' (ess @ [ss])"
      using log a log_key [OF t log None] ss
      by (simp add: log_ok_def numbered_snoc reg_add_all_snoc)
    with a show ?thesis by blast
  next
    case False
    then have "exprNum t = 256" using exprNum_le [OF t] by simp
    from add_full [OF t h None this, of True] t log show ?thesis
      by (auto simp: log_ok_def reg_of_def)
  qed
qed

lemma add_expressions_log:
  assumes "table_ok t" and "log_ok t ess0" and "\<forall>ss \<in> set ess. short_expr ss"
    and "add_expressions True t ess = Inr t'"
  shows "table_ok t' \<and> (\<exists>ess'. log_ok t' ess')"
  using assms
proof (induction ess arbitrary: t ess0)
  case (Cons ss ess)
  from add_expression_log [OF Cons.prems(1,2), of ss] Cons.prems(3) obtain t1 r ess1 where
    a: "add_expression True t ss = Inr (t1, r)" "table_ok t1" "log_ok t1 ess1" by auto
  then show ?case using Cons.IH [OF a(2,3)] Cons.prems(3,4) by simp
qed auto

lemma table_ok_empty_table: "table_ok empty_table"
  unfolding empty_table_def by (rule table_ok_init)

lemma log_ok_empty: "log_ok empty_table []"
  by (simp add: log_ok_def reg_of_empty) (simp add: empty_table_def numbered_def)

lemma parse_log:
  assumes "table_ok t" and "log_ok t ess"
  shows "\<exists>t'. parse_expression_file True (Some (concat (eeops_file t))) empty_table = Inr t' \<and>
           table_ok t' \<and> reg_of t' = reg_of t"
proof -
  have "\<forall>(n, ss) \<in> set (numbered ess). short_expr ss \<and> 0 \<le> n \<and> n < 1000"
    using assms(2) exprNum_le [OF assms(1)] by (auto simp: log_ok_def numbered_def list_all_length)
  from parse_lines_written [OF this, of True empty_table]
  have "parse_expression_file True (Some (concat (eeops_file t))) empty_table = ex.add_all empty_table ess"
    using assms(2)
    by (simp add: parse_expression_file_def log_ok_def map_snd_numbered add_expressions_registry)
      (simp add: empty_table_def)
  moreover have "\<forall>e \<in> set ess. hashable e"
    using assms(2) short_exprD(3) by (auto simp: log_ok_def list_all_iff)
  ultimately show ?thesis
    using ex.add_all_spec [OF table_ok_empty_table, of ess] assms(2) by (auto simp: log_ok_def reg_of_empty)
qed

section \<open>Properties\<close>

text \<open>
  C18. Restarting from the log keeps every expression number: when any sequence of expressions of
  at most 35 steps is registered from the empty table, the lines \<open>add_expression\<close> wrote are
  parsed back by \<open>parse_expression_file\<close> into a table that satisfies the invariant and assigns
  exactly the same numbers to the same expressions.
\<close>

theorem parse_expression_file_restart:
  assumes "\<forall>ss \<in> set ess. short_expr ss" and "add_expressions True empty_table ess = Inr t"
  shows "\<exists>t'. parse_expression_file True (Some (concat (eeops_file t))) empty_table = Inr t' \<and>
           table_ok t' \<and> reg_of t' = reg_of t"
  using add_expressions_log [OF table_ok_empty_table log_ok_empty assms] parse_log by blast

lemma add_expressions_some:
  assumes "\<forall>ss \<in> set ess. short_expr ss"
  shows "\<exists>t. add_expressions True empty_table ess = Inr t"
  using ex.add_all_spec [OF table_ok_empty_table, of ess] assms short_exprD(3)
  by (auto simp: add_expressions_registry)

theorem parse_expression_file_restart_witness:
  "\<exists>t t'. add_expressions True empty_table [[3, 6, 0], [2, 5, 16, 0], [3, 6, 0]] = Inr t \<and>
     parse_expression_file True (Some (concat (eeops_file t))) empty_table = Inr t' \<and>
     table_ok t' \<and> reg_of t' = reg_of t"
proof -
  have s: "\<forall>ss \<in> set [[3, 6, 0], [2, 5, 16, 0], [3, 6, 0]]. short_expr ss"
    by (simp add: short_expr_def)
  obtain t where "add_expressions True empty_table [[3, 6, 0], [2, 5, 16, 0], [3, 6, 0]] = Inr t"
    using add_expressions_some [OF s] by blast
  with parse_expression_file_restart [OF s this] show ?thesis by blast
qed

end
