(* ===== verification/OpInfo.thy ===== *)
theory OpInfo
  imports Prelude Complex_Main
begin

text \<open>
  The operators of the current statement: \<open>initializeOperatorInfo\<close> and \<open>findOperatorInfo\<close> of
  \<open>src/backend/utils/init/globals.c\<close>, \<open>addPlanTree\<close> and its call in \<open>pg_plan_query\<close> of
  \<open>src/backend/tcop/postgres.c\<close>, and the recording of the run-time numbers in \<open>ExplainNode\<close> of
  \<open>src/backend/commands/explain.c\<close>.

  Finite doubles are rationals; the code only copies, compares and once adds them. A pointer
  into \<open>currentSQLOpts\<close> is an index, and the memory \<open>malloc\<close> returned is a list of slots that
  are \<open>None\<close> until they are written, so that reading an uninitialised slot is a fault.

  The lemmas show that a plan tree that fits is stored in preorder and can be read back from the
  array, that every operator of the tree is then found, and that nothing checks the size of the
  array or removes duplicates.
\<close>

type_synonym double = rat

definition OPT_LIST_SIZE :: nat where
  "OPT_LIST_SIZE = 64"

definition T_Scan :: int where
  "T_Scan = 18"

definition T_CustomScan :: int where
  "T_CustomScan = 34"

text \<open>\<open>struct OperatorInfo\<close>; the member \<open>next\<close> is NULL throughout and left out.\<close>

record OperatorInfo =
  oi_type :: int
  oi_startup_cost :: double
  oi_total_cost :: double
  oi_optId :: int
  oi_actual_output_rows :: double
  oi_actual_input_rows :: double
  oi_filtered_rows :: double
  oi_loops :: double
  oi_actual_startup_time :: double
  oi_actual_total_time :: double
  oi_left :: "nat option"
  oi_right :: "nat option"

record op_table =
  allOptInfoNum :: nat
  currentSQLOpts :: "OperatorInfo option list"

text \<open>The members of \<open>Plan\<close> the code reads, and the plan tree; \<open>NoPlan\<close> is the null pointer.\<close>

record plan_info =
  pl_type :: int
  pl_startup_cost :: double
  pl_total_cost :: double
  pl_plan_node_id :: int
  pl_input_rows :: double

datatype Plan = NoPlan | Plan plan_info (lefttree: Plan) (righttree: Plan)

section \<open>Operations\<close>

text \<open>The allocation at the start of a statement.\<close>

definition new_op_table :: op_table where
  "new_op_table = \<lparr>allOptInfoNum = 0, currentSQLOpts = replicate OPT_LIST_SIZE None\<rparr>"

definition initializeOperatorInfo :: "int \<Rightarrow> double \<Rightarrow> double \<Rightarrow> OperatorInfo" where
  "initializeOperatorInfo type startup_cost total_cost =
     \<lparr>oi_type = type, oi_startup_cost = startup_cost, oi_total_cost = total_cost, oi_optId = 0,
      oi_actual_output_rows = 0, oi_actual_input_rows = 0, oi_filtered_rows = 0, oi_loops = 0,
      oi_actual_startup_time = 0, oi_actual_total_time = 0, oi_left = None, oi_right = None\<rparr>"

definition same_operator :: "int \<Rightarrow> int \<Rightarrow> double \<Rightarrow> double \<Rightarrow> OperatorInfo \<Rightarrow> bool" where
  "same_operator optId type startup_cost total_cost o1 =
     (oi_optId o1 = optId \<and> oi_type o1 = type \<and> oi_startup_cost o1 = startup_cost \<and>
      oi_total_cost o1 = total_cost)"

text \<open>
  The search loop over the slots from \<open>i\<close> up to \<open>n\<close>: the index of the first slot that holds
  the operator, or \<open>n\<close>.
\<close>

function op_search :: "OperatorInfo option list \<Rightarrow> (OperatorInfo \<Rightarrow> bool) \<Rightarrow> nat \<Rightarrow> nat \<Rightarrow> (bool \<times> nat) res" where
  "op_search ops P n i =
     (if i < n then bindE (read_slot ops i) (\<lambda>e. if P e then Inr (True, i) else op_search ops P n (Suc i))
      else Inr (False, i))"
  by pat_completeness auto

termination
  by (relation "measure (\<lambda>(ops, P, n, i). n - i)") auto

declare op_search.simps [simp del]

definition findOperatorInfo :: "op_table \<Rightarrow> int \<Rightarrow> int \<Rightarrow> double \<Rightarrow> double \<Rightarrow> nat option res" where
  "findOperatorInfo t optId type startup_cost total_cost =
     bindE (op_search (currentSQLOpts t) (same_operator optId type startup_cost total_cost) (allOptInfoNum t) 0)
       (\<lambda>(found, i). Inr (if found then Some i else None))"

definition same_plan :: "plan_info \<Rightarrow> OperatorInfo \<Rightarrow> bool" where
  "same_plan p = same_operator (pl_plan_node_id p) (pl_type p) (pl_startup_cost p) (pl_total_cost p)"

text \<open>The slot written for a plan node that is not in the array yet.\<close>

definition plan_operator :: "plan_info \<Rightarrow> OperatorInfo" where
  "plan_operator p =
     (initializeOperatorInfo (pl_type p) (pl_startup_cost p) (pl_total_cost p))
       \<lparr>oi_optId := pl_plan_node_id p,
        oi_actual_input_rows := (if T_Scan \<le> pl_type p \<and> pl_type p \<le> T_CustomScan then pl_input_rows p else 0)\<rparr>"

definition set_child ::
  "((nat option \<Rightarrow> nat option) \<Rightarrow> OperatorInfo \<Rightarrow> OperatorInfo) \<Rightarrow> nat \<Rightarrow> op_table \<times> nat option \<Rightarrow> op_table res" where
  "set_child upd i r =
     (case r of (t, child) \<Rightarrow>
        bindE (read_slot (currentSQLOpts t) i) (\<lambda>e.
          bindE (write_slot (currentSQLOpts t) i (upd (\<lambda>_. child) e)) (\<lambda>ops.
            Inr (t\<lparr>currentSQLOpts := ops\<rparr>))))"

text \<open>As in the code, the search for a duplicate starts at \<open>allOptInfoNum\<close>.\<close>

fun addPlanTree :: "Plan \<Rightarrow> op_table \<Rightarrow> (op_table \<times> nat option) res" where
  "addPlanTree NoPlan t = Inr (t, None)"
| "addPlanTree (Plan p l r) t =
     bindE (op_search (currentSQLOpts t) (same_plan p) (allOptInfoNum t) (allOptInfoNum t))
       (\<lambda>(exist_opt, opt_index).
          bindE (if exist_opt then Inr t
                 else bindE (write_slot (currentSQLOpts t) opt_index (plan_operator p)) (\<lambda>ops.
                        Inr (t\<lparr>currentSQLOpts := ops, allOptInfoNum := allOptInfoNum t + 1\<rparr>))) (\<lambda>t1.
          bindE (addPlanTree l t1) (\<lambda>rl.
          bindE (set_child oi_left_update opt_index rl) (\<lambda>t2.
          bindE (addPlanTree r t2) (\<lambda>rr.
          bindE (set_child oi_right_update opt_index rr) (\<lambda>t3.
            Inr (t3, Some opt_index)))))))"

text \<open>The end of \<open>pg_plan_query\<close>: the plan tree and then the subplans are added.\<close>

fun add_subplans :: "Plan list \<Rightarrow> op_table \<Rightarrow> op_table res" where
  "add_subplans [] t = Inr t"
| "add_subplans (p # ps) t = bindE (addPlanTree p t) (\<lambda>(t', _). add_subplans ps t')"

definition pg_plan_query_record :: "bool \<Rightarrow> Plan \<Rightarrow> Plan list \<Rightarrow> op_table \<Rightarrow> op_table res" where
  "pg_plan_query_record containExpr planTree subplans t =
     (if containExpr \<and> planTree \<noteq> NoPlan
      then bindE (addPlanTree planTree t) (\<lambda>(t', _). add_subplans subplans t')
      else Inr t)"

text \<open>The counters of \<open>struct Instrumentation\<close> that \<open>ExplainNode\<close> copies.\<close>

record Instrumentation =
  in_ntuples :: double
  in_ntuples2 :: double
  in_startup :: double
  in_total :: double
  in_nfiltered1 :: double
  in_nfiltered2 :: double
  in_nloops :: double

definition ExplainNode_record :: "bool \<Rightarrow> plan_info \<Rightarrow> Instrumentation option \<Rightarrow> op_table \<Rightarrow> op_table res" where
  "ExplainNode_record containExpr p instrument t =
     (case (containExpr, instrument) of
        (True, Some ins) \<Rightarrow>
          bindE (findOperatorInfo t (pl_plan_node_id p) (pl_type p) (pl_startup_cost p) (pl_total_cost p))
            (\<lambda>opt. case opt of
               None \<Rightarrow> Inr t
             | Some i \<Rightarrow>
                 bindE (read_slot (currentSQLOpts t) i) (\<lambda>e.
                 bindE (write_slot (currentSQLOpts t) i
                   (e\<lparr>oi_actual_output_rows := in_ntuples ins + in_ntuples2 ins,
                      oi_actual_startup_time := in_startup ins,
                      oi_actual_total_time := in_total ins,
                      oi_filtered_rows := in_nfiltered1 ins + in_nfiltered2 ins,
                      oi_loops := in_nloops ins\<rparr>)) (\<lambda>ops.
                   Inr (t\<lparr>currentSQLOpts := ops\<rparr>))))
      | _ \<Rightarrow> Inr t)"

section \<open>The search loop\<close>

text \<open>A search that starts at its bound inspects nothing: no operator counts as a duplicate.\<close>

lemma op_search_end [simp]: "op_search ops P n n = Inr (False, n)"
  by (subst op_search.simps) simp

lemma op_search_spec:
  assumes "filled ops n" and "i \<le> n"
  shows "\<exists>found k. op_search ops P n i = Inr (found, k) \<and> i \<le> k \<and> k \<le> n \<and>
           (found \<longleftrightarrow> k < n) \<and> (found \<longrightarrow> P (the (ops ! k))) \<and> (\<forall>j. i \<le> j \<longrightarrow> j < k \<longrightarrow> \<not> P (the (ops ! j)))"
  using assms
proof (induction "n - i" arbitrary: i)
  case 0
  then show ?case by (subst op_search.simps) auto
next
  case (Suc m)
  then have i: "i < n" by simp
  then obtain e where e: "ops ! i = Some e" "i < length ops"
    using Suc.prems(1) by (fastforce simp: filled_def)
  show ?case
  proof (cases "P e")
    case True
    with i e show ?thesis by (subst op_search.simps) auto
  next
    case False
    have "m = n - Suc i" using Suc.hyps(2) by simp
    from Suc.hyps(1) [OF this Suc.prems(1)] i obtain found k where
      k: "op_search ops P n (Suc i) = Inr (found, k)" "Suc i \<le> k" "k \<le> n" "found \<longleftrightarrow> k < n"
      "found \<longrightarrow> P (the (ops ! k))" "\<forall>j. Suc i \<le> j \<longrightarrow> j < k \<longrightarrow> \<not> P (the (ops ! j))" by auto
    have "\<not> P (the (ops ! j))" if "i \<le> j" "j < k" for j
      using k(6) that False e(1) by (cases "j = i") auto
    moreover have "op_search ops P n i = Inr (found, k)"
      using i e False k(1) by (subst op_search.simps) simp
    ultimately show ?thesis using k(2-5) by (intro exI [of _ found] exI [of _ k]) simp
  qed
qed

section \<open>The layout of a plan tree in the array\<close>

primrec plan_size :: "Plan \<Rightarrow> nat" where
  "plan_size NoPlan = 0"
| "plan_size (Plan p l r) = Suc (plan_size l + plan_size r)"

primrec plan_nodes :: "Plan \<Rightarrow> plan_info list" where
  "plan_nodes NoPlan = []"
| "plan_nodes (Plan p l r) = p # plan_nodes l @ plan_nodes r"

text \<open>The index of the root of a tree stored from slot \<open>n\<close> on.\<close>

definition root_at :: "Plan \<Rightarrow> nat \<Rightarrow> nat option" where
  "root_at t n = (if t = NoPlan then None else Some n)"

primrec preorder :: "Plan \<Rightarrow> nat \<Rightarrow> OperatorInfo list" where
  "preorder NoPlan n = []"
| "preorder (Plan p l r) n =
     (plan_operator p)\<lparr>oi_left := root_at l (Suc n), oi_right := root_at r (Suc n + plan_size l)\<rparr>
       # preorder l (Suc n) @ preorder r (Suc n + plan_size l)"

lemma length_preorder [simp]: "length (preorder t n) = plan_size t"
  by (induction t arbitrary: n) simp_all

lemma root_at_NoPlan [simp]: "root_at NoPlan n = None"
  by (simp add: root_at_def)

lemma set_child_at:
  assumes "length A = n"
  shows "set_child upd n (\<lparr>allOptInfoNum = k, currentSQLOpts = A @ Some e # B\<rparr>, c) =
         Inr \<lparr>allOptInfoNum = k, currentSQLOpts = A @ Some (upd (\<lambda>_. c) e) # B\<rparr>"
  using assms by (simp add: set_child_def read_slot_Some nth_append list_update_append)

text \<open>
  Adding a tree writes its preorder behind the operators that are there already, and leaves the
  rest of the array alone.
\<close>

lemma addPlanTree_layout:
  assumes "plan_size t \<le> length B"
  shows "addPlanTree t \<lparr>allOptInfoNum = length A, currentSQLOpts = A @ B\<rparr> =
    Inr (\<lparr>allOptInfoNum = length A + plan_size t,
          currentSQLOpts = A @ map Some (preorder t (length A)) @ drop (plan_size t) B\<rparr>,
         root_at t (length A))"
  using assms
proof (induction t arbitrary: A B)
  case (Plan p l r)
  obtain b B' where B: "B = b # B'" using Plan.prems by (cases B) auto
  have ll: "plan_size l \<le> length B'" and lr: "plan_size r \<le> length (drop (plan_size l) B')"
    using Plan.prems B by auto
  let ?e = "plan_operator p"
  let ?e' = "?e\<lparr>oi_left := root_at l (Suc (length A))\<rparr>"
  note L = Plan.IH(1) [OF ll, of "A @ [Some ?e]"]
  note R = Plan.IH(2) [OF lr, of "A @ Some ?e' # map Some (preorder l (Suc (length A)))"]
  show ?case
    using L R
    by (simp add: B list_update_append set_child_at root_at_def add.commute add.left_commute)
qed simp

lemma addPlanTree_full:
  assumes "length B < plan_size t"
  shows "addPlanTree t \<lparr>allOptInfoNum = length A, currentSQLOpts = A @ B\<rparr> = Inl OutOfBounds"
  using assms
proof (induction t arbitrary: A B)
  case (Plan p l r)
  show ?case
  proof (cases B)
    case Nil
    then show ?thesis by simp
  next
    case (Cons b B')
    let ?e = "plan_operator p"
    let ?e' = "?e\<lparr>oi_left := root_at l (Suc (length A))\<rparr>"
    show ?thesis
    proof (cases "plan_size l \<le> length B'")
      case True
      have "length (drop (plan_size l) B') < plan_size r" using Plan.prems Cons True by simp
      note R = Plan.IH(2) [OF this, of "A @ Some ?e' # map Some (preorder l (Suc (length A)))"]
      show ?thesis
        using addPlanTree_layout [OF True, of "A @ [Some ?e]"] R
        by (simp add: Cons list_update_append set_child_at)
    next
      case False
      then show ?thesis
        using Plan.IH(1) [of B' "A @ [Some ?e]"] by (simp add: Cons list_update_append)
    qed
  qed
qed simp

text \<open>Reading a tree back from the array.\<close>

primrec represents :: "Plan \<Rightarrow> OperatorInfo option list \<Rightarrow> nat option \<Rightarrow> bool" where
  "represents NoPlan ops ptr = (ptr = None)"
| "represents (Plan p l r) ops ptr =
     (case ptr of
        None \<Rightarrow> False
      | Some i \<Rightarrow>
          i < length ops \<and>
          (case ops ! i of
             None \<Rightarrow> False
           | Some e \<Rightarrow> same_plan p e \<and> oi_actual_input_rows e = oi_actual_input_rows (plan_operator p) \<and>
               represents l ops (oi_left e) \<and> represents r ops (oi_right e)))"

lemma same_plan_operator [simp]: "same_plan p (plan_operator p)"
  by (simp add: same_plan_def same_operator_def plan_operator_def initializeOperatorInfo_def)

lemma same_plan_update [simp]:
  "same_plan p (e\<lparr>oi_left := x\<rparr>) = same_plan p e" "same_plan p (e\<lparr>oi_right := y\<rparr>) = same_plan p e"
  by (simp_all add: same_plan_def same_operator_def)

lemma preorder_represents: "represents t (A @ map Some (preorder t (length A)) @ C) (root_at t (length A))"
proof (induction t arbitrary: A C)
  case (Plan p l r)
  let ?e = "(plan_operator p)\<lparr>oi_left := root_at l (Suc (length A)),
    oi_right := root_at r (Suc (length A) + plan_size l)\<rparr>"
  have "represents l ((A @ [Some ?e]) @ map Some (preorder l (length (A @ [Some ?e]))) @
      (map Some (preorder r (Suc (length A) + plan_size l)) @ C)) (root_at l (length (A @ [Some ?e])))"
    by (rule Plan.IH(1))
  moreover have "represents r ((A @ Some ?e # map Some (preorder l (Suc (length A)))) @
      map Some (preorder r (length (A @ Some ?e # map Some (preorder l (Suc (length A)))))) @ C)
      (root_at r (length (A @ Some ?e # map Some (preorder l (Suc (length A))))))"
    by (rule Plan.IH(2))
  ultimately show ?case
    by (simp add: root_at_def [of "Plan p l r"] nth_append)
qed simp

lemma preorder_nodes: "q \<in> set (plan_nodes t) \<Longrightarrow> \<exists>e \<in> set (preorder t n). same_plan q e"
proof (induction t arbitrary: n)
  case (Plan p l r)
  then show ?case by fastforce
qed simp

lemma table_split:
  assumes "allOptInfoNum t = n" and "n \<le> length (currentSQLOpts t)"
  obtains A B where "t = \<lparr>allOptInfoNum = length A, currentSQLOpts = A @ B\<rparr>" "length A = n"
    "length B = length (currentSQLOpts t) - n" "A = take n (currentSQLOpts t)"
  by (rule that [of "take n (currentSQLOpts t)" "drop n (currentSQLOpts t)"]) (use assms in simp_all)

lemma filled_append:
  assumes "filled A (length A)"
  shows "filled (A @ map Some xs @ B) (length A + length xs)"
proof -
  have "(A @ map Some xs @ B) ! i \<noteq> None" if "i < length A + length xs" for i
  proof (cases "i < length A")
    case True
    then show ?thesis using assms by (simp add: filled_def nth_append)
  next
    case False
    then have "i - length A < length xs" using that by linarith
    then show ?thesis using False by (simp add: nth_append)
  qed
  then show ?thesis by (simp add: filled_def)
qed

lemma find_present:
  assumes "filled (currentSQLOpts t) (allOptInfoNum t)" and "j < allOptInfoNum t"
    and "same_plan q (the (currentSQLOpts t ! j))"
  shows "\<exists>i. findOperatorInfo t (pl_plan_node_id q) (pl_type q) (pl_startup_cost q) (pl_total_cost q) = Inr (Some i) \<and>
           i < allOptInfoNum t \<and> same_plan q (the (currentSQLOpts t ! i))"
proof -
  from op_search_spec [OF assms(1), of 0 "same_plan q"] obtain found k where
    k: "op_search (currentSQLOpts t) (same_plan q) (allOptInfoNum t) 0 = Inr (found, k)"
    "k \<le> allOptInfoNum t" "found \<longleftrightarrow> k < allOptInfoNum t"
    "found \<longrightarrow> same_plan q (the (currentSQLOpts t ! k))"
    "\<forall>j < k. \<not> same_plan q (the (currentSQLOpts t ! j))" by auto
  have "k \<le> j" using k(5) assms(3) not_le by blast
  then have "found" using k(3) assms(2) by simp
  with k show ?thesis by (simp add: findOperatorInfo_def same_plan_def)
qed

definition sample_node :: plan_info where
  "sample_node = \<lparr>pl_type = 19, pl_startup_cost = 0, pl_total_cost = 4, pl_plan_node_id = 1, pl_input_rows = 100\<rparr>"

definition sample_ins :: Instrumentation where
  "sample_ins = \<lparr>in_ntuples = 5, in_ntuples2 = 2, in_startup = 1, in_total = 2, in_nfiltered1 = 3,
     in_nfiltered2 = 0, in_nloops = 1\<rparr>"

section \<open>Properties\<close>

text \<open>
  C14. A plan tree that fits into the operator array is stored completely: \<open>addPlanTree\<close> succeeds,
  counts one operator per plan node, leaves the operators recorded before untouched, and the
  tree that hangs at the returned pointer, read through the \<open>left\<close> and \<open>right\<close> pointers, is the
  plan tree.
\<close>

theorem addPlanTree_stores_tree:
  assumes "allOptInfoNum t = n" and "n + plan_size p \<le> length (currentSQLOpts t)"
  shows "\<exists>t'. addPlanTree p t = Inr (t', root_at p n) \<and> allOptInfoNum t' = n + plan_size p \<and>
           take n (currentSQLOpts t') = take n (currentSQLOpts t) \<and>
           represents p (currentSQLOpts t') (root_at p n)"
proof -
  obtain A B where t: "t = \<lparr>allOptInfoNum = length A, currentSQLOpts = A @ B\<rparr>" "length A = n"
    "length B = length (currentSQLOpts t) - n" "A = take n (currentSQLOpts t)"
    by (rule table_split [OF assms(1) add_leD1 [OF assms(2)]])
  let ?t = "\<lparr>allOptInfoNum = length A + plan_size p,
    currentSQLOpts = A @ map Some (preorder p (length A)) @ drop (plan_size p) B\<rparr>"
  have "plan_size p \<le> length B" using t(3) assms(2) by linarith
  from addPlanTree_layout [OF this, of A]
  have "addPlanTree p t = Inr (?t, root_at p (length A))" by (simp only: t(1) [symmetric])
  moreover have "take (length A) (currentSQLOpts t) = A" by (subst t(1)) simp
  ultimately show ?thesis
    using preorder_represents [of p A "drop (plan_size p) B"]
    unfolding t(2) [symmetric] by (intro exI [of _ ?t]) simp
qed

definition sample_plan :: Plan where
  "sample_plan =
     Plan \<lparr>pl_type = 38, pl_startup_cost = 1, pl_total_cost = 9, pl_plan_node_id = 0, pl_input_rows = 0\<rparr>
       (Plan \<lparr>pl_type = 19, pl_startup_cost = 0, pl_total_cost = 4, pl_plan_node_id = 1, pl_input_rows = 100\<rparr> NoPlan NoPlan)
       (Plan \<lparr>pl_type = 19, pl_startup_cost = 0, pl_total_cost = 3, pl_plan_node_id = 2, pl_input_rows = 50\<rparr> NoPlan NoPlan)"

theorem addPlanTree_stores_tree_witness:
  "\<exists>t'. addPlanTree sample_plan new_op_table = Inr (t', root_at sample_plan 0) \<and>
     allOptInfoNum t' = 0 + plan_size sample_plan \<and>
     take 0 (currentSQLOpts t') = take 0 (currentSQLOpts new_op_table) \<and>
     represents sample_plan (currentSQLOpts t') (root_at sample_plan 0)"
  by (rule addPlanTree_stores_tree) (simp_all add: new_op_table_def sample_plan_def OPT_LIST_SIZE_def)

text \<open>
  C40. Nothing guards the end of the operator array: a plan tree with more nodes than there are
  free slots makes \<open>addPlanTree\<close> write behind the \<open>OPT_LIST_SIZE\<close> slots.
\<close>

theorem addPlanTree_overflow:
  assumes "allOptInfoNum t = n" and "n \<le> length (currentSQLOpts t)"
    and "length (currentSQLOpts t) < n + plan_size p"
  shows "addPlanTree p t = Inl OutOfBounds"
proof -
  obtain A B where t: "t = \<lparr>allOptInfoNum = length A, currentSQLOpts = A @ B\<rparr>" "length A = n"
    "length B = length (currentSQLOpts t) - n" "A = take n (currentSQLOpts t)"
    by (rule table_split [OF assms(1,2)])
  then have "length B < plan_size p" using assms(2,3) by linarith
  from addPlanTree_full [OF this, of A] show ?thesis by (simp only: t(1) [symmetric])
qed

theorem addPlanTree_overflow_witness:
  "addPlanTree sample_plan \<lparr>allOptInfoNum = 62, currentSQLOpts = replicate 64 None\<rparr> = Inl OutOfBounds"
  by (rule addPlanTree_overflow [OF refl]) (simp_all add: sample_plan_def)

text \<open>
  After a statement's plan tree and subplans are recorded, every plan node of the tree is
  found: \<open>findOperatorInfo\<close> returns an operator with the node's id, type and costs, without
  reading an uninitialised slot.
\<close>

theorem findOperatorInfo_after_addPlanTree:
  assumes "filled (currentSQLOpts t) (allOptInfoNum t)"
    and "allOptInfoNum t + plan_size p \<le> length (currentSQLOpts t)" and "q \<in> set (plan_nodes p)"
  shows "\<exists>t' ptr i. addPlanTree p t = Inr (t', ptr) \<and> filled (currentSQLOpts t') (allOptInfoNum t') \<and>
           findOperatorInfo t' (pl_plan_node_id q) (pl_type q) (pl_startup_cost q) (pl_total_cost q) = Inr (Some i) \<and>
           same_plan q (the (currentSQLOpts t' ! i))"
proof -
  obtain A B where t: "t = \<lparr>allOptInfoNum = length A, currentSQLOpts = A @ B\<rparr>"
    "length A = allOptInfoNum t" "length B = length (currentSQLOpts t) - allOptInfoNum t"
    "A = take (allOptInfoNum t) (currentSQLOpts t)"
    by (rule table_split [OF refl add_leD1 [OF assms(2)]])
  let ?xs = "preorder p (length A)"
  let ?t = "\<lparr>allOptInfoNum = length A + plan_size p, currentSQLOpts = A @ map Some ?xs @ drop (plan_size p) B\<rparr>"
  have "plan_size p \<le> length B" using t(3) assms(2) by linarith
  from addPlanTree_layout [OF this, of A]
  have step: "addPlanTree p t = Inr (?t, root_at p (length A))" by (simp only: t(1) [symmetric])
  have "filled A (length A)"
    unfolding t(4) using assms(1) by (simp add: filled_def)
  then have f: "filled (currentSQLOpts ?t) (allOptInfoNum ?t)"
    using filled_append [of A ?xs "drop (plan_size p) B"] by simp
  obtain k where k: "k < plan_size p" "same_plan q (?xs ! k)"
    using preorder_nodes [OF assms(3), of "length A"] by (auto simp: in_set_conv_nth)
  have "same_plan q (the (currentSQLOpts ?t ! (length A + k)))" using k by (simp add: nth_append)
  from find_present [OF f _ this] k(1) obtain i where
    "findOperatorInfo ?t (pl_plan_node_id q) (pl_type q) (pl_startup_cost q) (pl_total_cost q) = Inr (Some i)"
    "same_plan q (the (currentSQLOpts ?t ! i))" by auto
  with step f show ?thesis by blast
qed

theorem findOperatorInfo_after_addPlanTree_witness:
  "\<exists>q t' ptr i. q = \<lparr>pl_type = 19, pl_startup_cost = 0, pl_total_cost = 3, pl_plan_node_id = 2, pl_input_rows = 50\<rparr> \<and>
     addPlanTree sample_plan new_op_table = Inr (t', ptr) \<and> filled (currentSQLOpts t') (allOptInfoNum t') \<and>
     findOperatorInfo t' (pl_plan_node_id q) (pl_type q) (pl_startup_cost q) (pl_total_cost q) = Inr (Some i) \<and>
     same_plan q (the (currentSQLOpts t' ! i))"
  using findOperatorInfo_after_addPlanTree [of new_op_table sample_plan
      "\<lparr>pl_type = 19, pl_startup_cost = 0, pl_total_cost = 3, pl_plan_node_id = 2, pl_input_rows = 50\<rparr>"]
  by (simp add: new_op_table_def sample_plan_def filled_def OPT_LIST_SIZE_def)

text \<open>
  C39. The run-time numbers of a plan node reach exactly one operator: for a recorded node,
  \<open>ExplainNode\<close> stores the row counts and times in an operator with the node's identity and
  changes no other slot and no other member.
\<close>

theorem ExplainNode_records:
  assumes "filled (currentSQLOpts t) (allOptInfoNum t)" and "j < allOptInfoNum t"
    and "same_plan q (the (currentSQLOpts t ! j))"
  shows "\<exists>i e. i < allOptInfoNum t \<and> currentSQLOpts t ! i = Some e \<and> same_plan q e \<and>
           ExplainNode_record True q (Some ins) t =
             Inr (t\<lparr>currentSQLOpts := (currentSQLOpts t)[i := Some
               (e\<lparr>oi_actual_output_rows := in_ntuples ins + in_ntuples2 ins,
                  oi_actual_startup_time := in_startup ins, oi_actual_total_time := in_total ins,
                  oi_filtered_rows := in_nfiltered1 ins + in_nfiltered2 ins, oi_loops := in_nloops ins\<rparr>)]\<rparr>)"
proof -
  from find_present [OF assms] obtain i where
    i: "findOperatorInfo t (pl_plan_node_id q) (pl_type q) (pl_startup_cost q) (pl_total_cost q) = Inr (Some i)"
    "i < allOptInfoNum t" "same_plan q (the (currentSQLOpts t ! i))" by blast
  obtain e where e: "currentSQLOpts t ! i = Some e" "i < length (currentSQLOpts t)"
    using assms(1) i(2) by (fastforce simp: filled_def)
  with i show ?thesis by (intro exI [of _ i] exI [of _ e]) (simp add: ExplainNode_record_def)
qed

theorem ExplainNode_records_witness:
  "\<exists>i e. i < 1 \<and> [Some (plan_operator sample_node)] ! i = Some e \<and> same_plan sample_node e \<and>
     ExplainNode_record True sample_node (Some sample_ins)
       \<lparr>allOptInfoNum = 1, currentSQLOpts = [Some (plan_operator sample_node)]\<rparr> =
     Inr \<lparr>allOptInfoNum = 1, currentSQLOpts = [Some (plan_operator sample_node)][i := Some
               (e\<lparr>oi_actual_output_rows := 7, oi_actual_startup_time := 1, oi_actual_total_time := 2,
                  oi_filtered_rows := 3, oi_loops := 1\<rparr>)]\<rparr>"
  using ExplainNode_records [of "\<lparr>allOptInfoNum = 1, currentSQLOpts = [Some (plan_operator sample_node)]\<rparr>" 0
      sample_node sample_ins]
  by (simp add: filled_def sample_ins_def)

end
