(* ===== verification/JitLevels.thy ===== *)
theory JitLevels
  imports SqlText ExprFile OpInfo
begin

text \<open>
  The choice of the JIT level of every expression of a repeated statement: the part of
  \<open>exec_simple_query\<close> (\<open>src/backend/tcop/postgres.c\<close>) that runs before the statement, the part of
  \<open>ExplainOnePlan\<close> (\<open>src/backend/commands/explain.c\<close>) that compares the execution times, and the
  levels file that replaces the search when \<open>testME\<close> is set.

  A run of a repeated statement is \<open>next_levels\<close> followed by \<open>explain_update\<close> with the measured
  time. The arrays are \<open>malloc\<close>ed and only \<open>currentExprJITLevels\<close> is cleared, so the others are
  lists of slots that start out as \<open>None\<close>.

  The lemmas show an invariant of the search, that it never reads an unset level when
  \<open>enableQuartet\<close> is on, that the global best is the fastest run so far, and that the search
  ends; and how the local best levels come out.
\<close>

section \<open>State\<close>

definition EXPR_MAX_NUM :: nat where
  "EXPR_MAX_NUM = 64"

record hex_config =
  testME :: bool
  enableQuartet :: bool
  enableExprCount :: bool
  Reserved1 :: int

record level_state =
  currentStatement :: "string option"
  min_total_time :: double
  min_expr_time :: double
  Reserved2 :: nat
  Reserved3 :: int
  enableOPT3 :: bool
  useTheBest :: bool
  countExpr :: bool
  currentExprNum :: nat
  currentExprJITLevels :: "int option list"
  bestJITLevels :: "int option list"
  bestCurrentJITLevels :: "int option list"
  currentStatementExecNum :: int
  currentLevelsCount :: int

section \<open>Operations\<close>

text \<open>The branch for a statement that differs from the previous one.\<close>

definition new_statement :: "hex_config \<Rightarrow> string \<Rightarrow> level_state \<Rightarrow> level_state" where
  "new_statement cfg query_string s =
     s\<lparr>currentStatement := Some query_string, min_total_time := 0, min_expr_time := 0,
       Reserved2 := 0, Reserved3 := 0, enableOPT3 := False, useTheBest := False,
       countExpr := (if enableExprCount cfg then True else countExpr s),
       currentExprNum := 0, currentExprJITLevels := replicate EXPR_MAX_NUM (Some 0),
       bestJITLevels := replicate EXPR_MAX_NUM None,
       bestCurrentJITLevels := replicate EXPR_MAX_NUM None,
       currentStatementExecNum := 0, currentLevelsCount := 0\<rparr>"

text \<open>Assignments to all levels of the statement's expressions.\<close>

definition set_all_levels :: "int \<Rightarrow> level_state \<Rightarrow> level_state res" where
  "set_all_levels v s =
     bindE (fill_slots (currentExprNum s) v (currentExprJITLevels s)) (\<lambda>l. Inr (s\<lparr>currentExprJITLevels := l\<rparr>))"

definition set_level :: "nat \<Rightarrow> int \<Rightarrow> level_state \<Rightarrow> level_state res" where
  "set_level i v s =
     bindE (write_slot (currentExprJITLevels s) i v) (\<lambda>l. Inr (s\<lparr>currentExprJITLevels := l\<rparr>))"

definition load_levels :: "int option list \<Rightarrow> level_state \<Rightarrow> level_state res" where
  "load_levels src s =
     bindE (copy_slots (currentExprNum s) src (currentExprJITLevels s)) (\<lambda>l. Inr (s\<lparr>currentExprJITLevels := l\<rparr>))"

text \<open>One step of the search with level 3.\<close>

definition opt3_step :: "level_state \<Rightarrow> level_state res" where
  "opt3_step s =
     bindE (if Reserved2 s = 0
            then bindE (read_slot (currentExprJITLevels s) (Reserved2 s)) (\<lambda>l. if l \<noteq> 3 then set_all_levels 0 s else Inr s)
            else Inr s) (\<lambda>s1.
     bindE (read_slot (currentExprJITLevels s1) (Reserved2 s1)) (\<lambda>l.
       if l = 3 then
         bindE (set_level (Reserved2 s1) 0 s1) (\<lambda>s2.
           let s3 = s2\<lparr>min_expr_time := 0, Reserved2 := Reserved2 s2 + 1\<rparr>
           in if Reserved2 s3 \<ge> currentExprNum s3 then Inr (s3\<lparr>useTheBest := True\<rparr>)
              else bindE (set_level (Reserved2 s3) 3 s3) (\<lambda>s4. Inr (s4\<lparr>useTheBest := False\<rparr>)))
       else set_level (Reserved2 s1) 3 s1))"

text \<open>One step of the search with the levels 0, 1 and 2.\<close>

definition plain_step :: "level_state \<Rightarrow> level_state res" where
  "plain_step s =
     bindE (read_slot (currentExprJITLevels s) (Reserved2 s)) (\<lambda>l.
     bindE (set_level (Reserved2 s) (l + 1) s) (\<lambda>s1.
       if l + 1 = 3 then
         bindE (set_level (Reserved2 s1) 0 s1) (\<lambda>s2.
           let s3 = s2\<lparr>min_expr_time := 0, Reserved2 := Reserved2 s2 + 1\<rparr>
           in if Reserved2 s3 \<ge> currentExprNum s3
              then Inr (s3\<lparr>Reserved2 := 0, useTheBest := True, enableOPT3 := True\<rparr>)
              else bindE (read_slot (currentExprJITLevels s3) (Reserved2 s3)) (\<lambda>l'.
                     set_level (Reserved2 s3) (l' + 1) (s3\<lparr>useTheBest := False\<rparr>)))
       else Inr s1))"

text \<open>The three branches that load a best combination.\<close>

definition apply_best :: "level_state \<Rightarrow> level_state res" where
  "apply_best s =
     (if Reserved2 s \<ge> currentExprNum s \<and> useTheBest s \<and> enableOPT3 s then
        bindE (load_levels (bestCurrentJITLevels s) s) (\<lambda>s'. Inr (s'\<lparr>enableOPT3 := False\<rparr>))
      else if Reserved2 s \<ge> currentExprNum s \<and> useTheBest s \<and> \<not> enableOPT3 s then
        load_levels (bestJITLevels s) s
      else if useTheBest s then load_levels (bestCurrentJITLevels s) s
      else Inr s)"

definition choose_levels :: "hex_config \<Rightarrow> level_state \<Rightarrow> level_state res" where
  "choose_levels cfg s =
     (if enableQuartet cfg \<and> Reserved3 s < 3 then
        (let s1 = s\<lparr>Reserved3 := Reserved3 s + 1\<rparr> in set_all_levels (Reserved3 s1 smod 3) s1)
      else if Reserved2 s \<ge> currentExprNum s then Inr (s\<lparr>useTheBest := True\<rparr>)
      else if enableOPT3 s then opt3_step s
      else plain_step s)"

text \<open>The branch for a repeated statement.\<close>

definition next_levels :: "hex_config \<Rightarrow> level_state \<Rightarrow> level_state res" where
  "next_levels cfg s0 =
     (let s = s0\<lparr>countExpr := False, currentStatementExecNum := currentStatementExecNum s0 + 1\<rparr>
      in if currentStatementExecNum s = 1 then
           bindE (set_all_levels 0 s) (\<lambda>s'. Inr (s'\<lparr>currentLevelsCount := currentLevelsCount s' + 1\<rparr>))
         else if currentLevelsCount s \<ge> Reserved1 cfg then
           bindE (choose_levels cfg s) (\<lambda>s1.
           bindE (apply_best s1) (\<lambda>s2. Inr (s2\<lparr>currentLevelsCount := 0\<rparr>)))
         else Inr (s\<lparr>currentLevelsCount := currentLevelsCount s + 1\<rparr>))"

text \<open>
  The time of a run, as \<open>ExplainOnePlan\<close> records it: first the global best, then the local best
  of the expression whose level is being varied.
\<close>

definition explain_local :: "double \<Rightarrow> level_state \<Rightarrow> level_state res" where
  "explain_local totaltime s1 =
     (if useTheBest s1 then Inr (s1\<lparr>useTheBest := False\<rparr>)
      else if Reserved3 s1 \<ge> 3 \<and> (min_expr_time s1 = 0 \<or> min_expr_time s1 > totaltime) then
         bindE (if Reserved2 s1 < currentExprNum s1
                then bindE (read_slot (currentExprJITLevels s1) (Reserved2 s1)) (\<lambda>l.
                     bindE (write_slot (bestCurrentJITLevels s1) (Reserved2 s1) l) (\<lambda>b.
                       Inr (s1\<lparr>bestCurrentJITLevels := b\<rparr>)))
                else Inr s1) (\<lambda>s2.
           bindE (if enableOPT3 s2
                  then for_loop (currentExprNum s2) (\<lambda>i b.
                         if i = Reserved2 s2 then Inr b
                         else bindE (read_slot b i) (\<lambda>v. if v \<noteq> 0 \<and> v \<noteq> 3 then write_slot b i 0 else Inr b))
                       (bestCurrentJITLevels s2)
                  else Inr (bestCurrentJITLevels s2)) (\<lambda>b.
             Inr (s2\<lparr>min_expr_time := totaltime, bestCurrentJITLevels := b\<rparr>)))
       else Inr s1)"

definition explain_update :: "double \<Rightarrow> level_state \<Rightarrow> level_state res" where
  "explain_update totaltime s =
     bindE (if min_total_time s = 0 \<or> min_total_time s > totaltime
            then bindE (copy_slots (currentExprNum s) (currentExprJITLevels s) (bestJITLevels s)) (\<lambda>b.
                   Inr (s\<lparr>min_total_time := totaltime, bestJITLevels := b\<rparr>))
            else Inr s) (explain_local totaltime)"

text \<open>One repetition of the statement under \<open>EXPLAIN ANALYZE\<close> that takes \<open>totaltime\<close>.\<close>

definition repeat_run :: "hex_config \<Rightarrow> double \<Rightarrow> level_state \<Rightarrow> level_state res" where
  "repeat_run cfg totaltime s = bindE (next_levels cfg s) (explain_update totaltime)"

section \<open>Arrays of levels\<close>

text \<open>The first \<open>n\<close> slots are set and satisfy \<open>P\<close>.\<close>

definition levels_ok :: "nat \<Rightarrow> (nat \<Rightarrow> int \<Rightarrow> bool) \<Rightarrow> int option list \<Rightarrow> bool" where
  "levels_ok n P xs = (length xs = EXPR_MAX_NUM \<and> (\<forall>i<n. \<exists>l. xs ! i = Some l \<and> P i l))"

lemma levels_okD: "levels_ok n P xs \<Longrightarrow> i < n \<Longrightarrow> \<exists>l. xs ! i = Some l \<and> P i l"
  by (simp add: levels_ok_def)

lemma levels_ok_length: "levels_ok n P xs \<Longrightarrow> length xs = EXPR_MAX_NUM"
  by (simp add: levels_ok_def)

lemma levels_ok_mono: "levels_ok n P xs \<Longrightarrow> (\<And>i l. i < n \<Longrightarrow> P i l \<Longrightarrow> Q i l) \<Longrightarrow> levels_ok n Q xs"
  unfolding levels_ok_def by blast

lemma levels_ok_filled: "levels_ok n P xs \<Longrightarrow> n \<le> EXPR_MAX_NUM \<Longrightarrow> filled xs n"
  by (auto simp: levels_ok_def filled_def)

lemma levels_ok_fill:
  "n \<le> EXPR_MAX_NUM \<Longrightarrow> length xs = EXPR_MAX_NUM \<Longrightarrow> (\<And>i. i < n \<Longrightarrow> P i v) \<Longrightarrow>
   levels_ok n P (replicate n (Some v) @ drop n xs)"
  by (auto simp: levels_ok_def nth_append)

lemma levels_ok_copy:
  "levels_ok n P src \<Longrightarrow> n \<le> EXPR_MAX_NUM \<Longrightarrow> length dst = EXPR_MAX_NUM \<Longrightarrow>
   levels_ok n P (take n src @ drop n dst)"
  by (auto simp: levels_ok_def nth_append min_def)

lemma levels_ok_update:
  "levels_ok n P xs \<Longrightarrow> P j v \<Longrightarrow> levels_ok n P (xs[j := Some v])"
  by (cases "j < length xs") (auto simp: levels_ok_def nth_list_update list_update_beyond not_less)

lemma levels_ok_update_new:
  "levels_ok n P xs \<Longrightarrow> j < n \<Longrightarrow> n \<le> EXPR_MAX_NUM \<Longrightarrow> (\<And>i l. i < n \<Longrightarrow> i \<noteq> j \<Longrightarrow> P i l \<Longrightarrow> Q i l) \<Longrightarrow> Q j v \<Longrightarrow>
   levels_ok n Q (xs[j := Some v])"
  by (auto simp: levels_ok_def nth_list_update)

text \<open>The operations on the arrays, when the first \<open>n\<close> slots are set.\<close>

lemma set_all_levels_ok:
  "currentExprNum s \<le> EXPR_MAX_NUM \<Longrightarrow> length (currentExprJITLevels s) = EXPR_MAX_NUM \<Longrightarrow>
   set_all_levels v s = Inr (s\<lparr>currentExprJITLevels :=
     replicate (currentExprNum s) (Some v) @ drop (currentExprNum s) (currentExprJITLevels s)\<rparr>)"
  by (simp add: set_all_levels_def fill_slots_ok)

lemma set_level_ok:
  "i < length (currentExprJITLevels s) \<Longrightarrow>
   set_level i v s = Inr (s\<lparr>currentExprJITLevels := (currentExprJITLevels s)[i := Some v]\<rparr>)"
  by (simp add: set_level_def)

lemma load_levels_ok:
  "filled src (currentExprNum s) \<Longrightarrow> currentExprNum s \<le> length (currentExprJITLevels s) \<Longrightarrow>
   load_levels src s = Inr (s\<lparr>currentExprJITLevels :=
     take (currentExprNum s) src @ drop (currentExprNum s) (currentExprJITLevels s)\<rparr>)"
  by (simp add: load_levels_def copy_slots_ok)

section \<open>The invariant of the search\<close>

definition in_range :: "nat \<Rightarrow> int \<Rightarrow> bool" where
  "in_range i l = (0 \<le> l \<and> l \<le> 3)"

text \<open>
  The local best levels that are settled: those of the expressions before \<open>r\<close>, and of \<open>r\<close> once
  a time was recorded for it.
\<close>

definition settled :: "level_state \<Rightarrow> nat \<Rightarrow> bool" where
  "settled s i = (i < Reserved2 s \<or> i = Reserved2 s \<and> min_expr_time s \<noteq> 0)"

definition base_inv :: "nat \<Rightarrow> level_state \<Rightarrow> bool" where
  "base_inv n s =
     (currentExprNum s = n \<and> n \<le> EXPR_MAX_NUM \<and> levels_ok n in_range (currentExprJITLevels s) \<and>
      length (bestJITLevels s) = EXPR_MAX_NUM \<and> length (bestCurrentJITLevels s) = EXPR_MAX_NUM \<and>
      0 \<le> Reserved3 s \<and> Reserved3 s \<le> 3 \<and> 0 \<le> min_expr_time s \<and> 0 \<le> currentStatementExecNum s \<and>
      (currentStatementExecNum s = 0 \<longrightarrow> Reserved3 s = 0))"

text \<open>All levels are 0 but the one of expression \<open>r\<close>, which is 1, 2, or (for the first) 0.\<close>

definition plain_phase :: "nat \<Rightarrow> level_state \<Rightarrow> bool" where
  "plain_phase n s =
     (\<not> useTheBest s \<and>
      levels_ok n (\<lambda>i l. if i = Reserved2 s then (l \<in> {1, 2} \<or> i = 0 \<and> l = 0) else l = 0) (currentExprJITLevels s) \<and>
      (\<forall>i<n. settled s i \<longrightarrow>
         (\<exists>l. bestCurrentJITLevels s ! i = Some l \<and> (l \<in> {1, 2} \<or> i = 0 \<and> l = 0))))"

text \<open>
  Before level 3 is tried for the first expression the levels are arbitrary; then all are 0 but
  the one of expression \<open>r\<close>, which is 3.
\<close>

definition opt3_phase :: "nat \<Rightarrow> level_state \<Rightarrow> bool" where
  "opt3_phase n s =
     (Reserved2 s < n \<and> levels_ok n in_range (bestCurrentJITLevels s) \<and>
      (useTheBest s \<longrightarrow> currentExprJITLevels s ! Reserved2 s \<noteq> Some 3) \<and>
      (Reserved2 s = 0 \<and> currentExprJITLevels s ! 0 \<noteq> Some 3 \<or>
       levels_ok n (\<lambda>i l. l = (if i = Reserved2 s then 3 else 0)) (currentExprJITLevels s)) \<and>
      (\<forall>i<n. 1 \<le> i \<and> settled s i \<longrightarrow> bestCurrentJITLevels s ! i = Some 3))"

definition search_inv :: "nat \<Rightarrow> level_state \<Rightarrow> bool" where
  "search_inv n s =
     (base_inv n s \<and>
      (if Reserved3 s < 3 then Reserved2 s = 0 \<and> \<not> enableOPT3 s \<and> \<not> useTheBest s \<and> min_expr_time s = 0
       else if enableOPT3 s then opt3_phase n s
       else if Reserved2 s < n then plain_phase n s
       else True))"

text \<open>What holds between two runs, when the time of the last one has been recorded.\<close>

definition rest_inv :: "nat \<Rightarrow> level_state \<Rightarrow> bool" where
  "rest_inv n s =
     (search_inv n s \<and> \<not> useTheBest s \<and> 0 < min_total_time s \<and> levels_ok n in_range (bestJITLevels s) \<and>
      (Reserved3 s = 3 \<and> Reserved2 s < n \<and> (enableOPT3 s \<longrightarrow> currentExprJITLevels s ! Reserved2 s = Some 3)
         \<longrightarrow> min_expr_time s \<noteq> 0))"

section \<open>Recording a time keeps the invariant\<close>

definition clear_other :: "nat \<Rightarrow> nat \<Rightarrow> int \<Rightarrow> int" where
  "clear_other r i v = (if i \<noteq> r \<and> v \<noteq> 0 \<and> v \<noteq> 3 then 0 else v)"

lemma clear_loop:
  assumes "levels_ok n P b" and "n \<le> EXPR_MAX_NUM" and "k \<le> n"
  shows "\<exists>b'. for_loop k (\<lambda>i b. if i = r then Inr b
             else bindE (read_slot b i) (\<lambda>v. if v \<noteq> 0 \<and> v \<noteq> 3 then write_slot b i 0 else Inr b)) b = Inr b' \<and>
           length b' = EXPR_MAX_NUM \<and>
           (\<forall>i<n. b' ! i = (if i < k then map_option (clear_other r i) (b ! i) else b ! i))"
  using assms(3)
proof (induction k)
  case 0
  then show ?case using assms(1) by (simp add: levels_ok_def)
next
  case (Suc k)
  then obtain b' where b': "for_loop k (\<lambda>i b. if i = r then Inr b
             else bindE (read_slot b i) (\<lambda>v. if v \<noteq> 0 \<and> v \<noteq> 3 then write_slot b i 0 else Inr b)) b = Inr b'"
    "length b' = EXPR_MAX_NUM"
    "\<forall>i<n. b' ! i = (if i < k then map_option (clear_other r i) (b ! i) else b ! i)" by auto
  obtain v where v: "b ! k = Some v" using levels_okD [OF assms(1), of k] Suc.prems by auto
  then have "read_slot b' k = Inr v" using b' Suc.prems assms(2) by simp
  with b' v Suc.prems assms(2) show ?case
    by (auto simp: clear_other_def nth_list_update less_Suc_eq)
qed

lemma explain_total:
  assumes "base_inv n s" and "0 < t" and "0 \<le> min_total_time s"
    and "0 < min_total_time s \<Longrightarrow> levels_ok n in_range (bestJITLevels s)"
  obtains m b where "(if min_total_time s = 0 \<or> min_total_time s > t
            then bindE (copy_slots (currentExprNum s) (currentExprJITLevels s) (bestJITLevels s)) (\<lambda>b.
                   Inr (s\<lparr>min_total_time := t, bestJITLevels := b\<rparr>))
            else Inr s) = Inr (s\<lparr>min_total_time := m, bestJITLevels := b\<rparr>)"
    "0 < m" "levels_ok n in_range b"
proof -
  have s: "currentExprNum s = n" "n \<le> EXPR_MAX_NUM" "levels_ok n in_range (currentExprJITLevels s)"
    "length (bestJITLevels s) = EXPR_MAX_NUM"
    using assms(1) by (auto simp: base_inv_def)
  show thesis
  proof (cases "min_total_time s = 0 \<or> min_total_time s > t")
    case True
    then show thesis
      using s copy_slots_ok [OF levels_ok_filled [OF s(3,2)], of "bestJITLevels s"] assms(2)
        levels_ok_copy [OF s(3,2,4)]
      by (intro that [where m = t and b = "take n (currentExprJITLevels s) @ drop n (bestJITLevels s)"]) simp_all
  next
    case False
    then show thesis using assms(3,4) by (intro that [where m = "min_total_time s" and b = "bestJITLevels s"]) auto
  qed
qed

definition local_ok :: "nat \<Rightarrow> level_state \<Rightarrow> level_state \<Rightarrow> bool" where
  "local_ok n s s' =
     (search_inv n s' \<and> \<not> useTheBest s' \<and> min_total_time s' = min_total_time s \<and> bestJITLevels s' = bestJITLevels s \<and>
      currentExprJITLevels s' = currentExprJITLevels s \<and> Reserved2 s' = Reserved2 s \<and> Reserved3 s' = Reserved3 s \<and>
      enableOPT3 s' = enableOPT3 s \<and> currentLevelsCount s' = currentLevelsCount s \<and>
      currentStatementExecNum s' = currentStatementExecNum s \<and>
      (Reserved3 s' = 3 \<and> Reserved2 s' < n \<and> (enableOPT3 s' \<longrightarrow> currentExprJITLevels s' ! Reserved2 s' = Some 3)
         \<longrightarrow> min_expr_time s' \<noteq> 0))"

lemma base_invD:
  assumes "base_inv n s"
  shows "currentExprNum s = n" "n \<le> EXPR_MAX_NUM" "levels_ok n in_range (currentExprJITLevels s)"
    "length (bestJITLevels s) = EXPR_MAX_NUM" "length (bestCurrentJITLevels s) = EXPR_MAX_NUM"
    "length (currentExprJITLevels s) = EXPR_MAX_NUM"
  using assms levels_ok_length by (auto simp: base_inv_def)

lemma explain_local_plain:
  assumes inv: "search_inv n s" and t: "0 < t" and B: "Reserved3 s = 3" "\<not> enableOPT3 s" "Reserved2 s < n"
  shows "\<exists>s'. explain_local t s = Inr s' \<and> local_ok n s s'"
proof -
  have base: "base_inv n s" and pl: "plain_phase n s"
    using inv B by (auto simp: search_inv_def)
  note b = base_invD [OF base]
  have "\<not> useTheBest s" using pl by (simp add: plain_phase_def)
  obtain l where l: "currentExprJITLevels s ! Reserved2 s = Some l"
    "l \<in> {1, 2} \<or> Reserved2 s = 0 \<and> l = 0"
    using pl B(3) by (auto simp: plain_phase_def dest: levels_okD)
  show ?thesis
  proof (cases "min_expr_time s = 0 \<or> min_expr_time s > t")
    case True
    define s' where "s' = s\<lparr>min_expr_time := t,
      bestCurrentJITLevels := (bestCurrentJITLevels s)[Reserved2 s := Some l]\<rparr>"
    have "explain_local t s = Inr s'"
      using True B b l \<open>\<not> useTheBest s\<close> by (simp add: explain_local_def s'_def)
    moreover have "plain_phase n s'"
      using pl l B(3) b(2,5) by (auto simp: plain_phase_def s'_def settled_def nth_list_update)
    moreover have "base_inv n s'" using base t by (simp add: base_inv_def s'_def)
    ultimately show ?thesis
      using B t \<open>\<not> useTheBest s\<close> by (simp add: local_ok_def search_inv_def s'_def)
  next
    case False
    then show ?thesis
      using B inv \<open>\<not> useTheBest s\<close> by (simp add: explain_local_def local_ok_def)
  qed
qed

lemma explain_local_opt3:
  assumes inv: "search_inv n s" and t: "0 < t" and C: "Reserved3 s = 3" "enableOPT3 s"
  shows "\<exists>s'. explain_local t s = Inr s' \<and> local_ok n s s'"
proof -
  have base: "base_inv n s" and op: "opt3_phase n s"
    using inv C by (auto simp: search_inv_def)
  note b = base_invD [OF base]
  have r: "Reserved2 s < n" and bc: "levels_ok n in_range (bestCurrentJITLevels s)"
    using op by (auto simp: opt3_phase_def)
  obtain l where l: "currentExprJITLevels s ! Reserved2 s = Some l" "in_range (Reserved2 s) l"
    using levels_okD [OF b(3) r] by blast
  show ?thesis
  proof (cases "\<not> useTheBest s \<and> (min_expr_time s = 0 \<or> min_expr_time s > t)")
    case True
    have bc': "levels_ok n in_range ((bestCurrentJITLevels s)[Reserved2 s := Some l])"
      using bc l(2) by (rule levels_ok_update)
    obtain b' where b': "for_loop n (\<lambda>i b. if i = Reserved2 s then Inr b
             else bindE (read_slot b i) (\<lambda>v. if v \<noteq> 0 \<and> v \<noteq> 3 then write_slot b i 0 else Inr b))
           ((bestCurrentJITLevels s)[Reserved2 s := Some l]) = Inr b'" "length b' = EXPR_MAX_NUM"
      "\<forall>i<n. b' ! i = map_option (clear_other (Reserved2 s) i) ((bestCurrentJITLevels s)[Reserved2 s := Some l] ! i)"
      using clear_loop [OF bc' b(2) order_refl, of "Reserved2 s"] by auto
    define s' where "s' = s\<lparr>min_expr_time := t, bestCurrentJITLevels := b'\<rparr>"
    have "explain_local t s = Inr s'"
      using True C b r l b'(1) by (simp add: explain_local_def s'_def)
    moreover have "opt3_phase n s'"
    proof -
      have "levels_ok n in_range b'"
        unfolding levels_ok_def
      proof (intro conjI allI impI)
        show "length b' = EXPR_MAX_NUM" by (rule b'(2))
        fix i assume i: "i < n"
        obtain v where "(bestCurrentJITLevels s)[Reserved2 s := Some l] ! i = Some v" "in_range i v"
          using levels_okD [OF bc' i] by blast
        then show "\<exists>v. b' ! i = Some v \<and> in_range i v"
          using b'(3) i by (simp add: clear_other_def in_range_def)
      qed
      moreover have "b' ! i = Some 3" if "i < n" "1 \<le> i" "i \<le> Reserved2 s" for i
      proof (cases "i = Reserved2 s")
        case True
        have "levels_ok n (\<lambda>i l. l = (if i = Reserved2 s then 3 else 0)) (currentExprJITLevels s)"
          using op that True by (auto simp: opt3_phase_def)
        from levels_okD [OF this r] have "l = 3" using l(1) by simp
        then show ?thesis using b'(3) True r b(2,5) by (simp add: clear_other_def)
      next
        case False
        then have "bestCurrentJITLevels s ! i = Some 3"
          using op that by (simp add: opt3_phase_def settled_def)
        then show ?thesis using b'(3) False that(1) by (simp add: clear_other_def)
      qed
      ultimately show ?thesis using op by (auto simp: opt3_phase_def s'_def settled_def)
    qed
    moreover have "base_inv n s'" using base t b'(2) by (simp add: base_inv_def s'_def)
    ultimately show ?thesis
      using C t True by (simp add: local_ok_def search_inv_def s'_def)
  next
    case False
    show ?thesis
    proof (cases "useTheBest s")
      case True
      have "search_inv n (s\<lparr>useTheBest := False\<rparr>)"
        using base op C
        by (simp add: search_inv_def base_inv_def) (auto simp: opt3_phase_def settled_def)
      then show ?thesis
        using True op C(2) by (simp add: explain_local_def local_ok_def opt3_phase_def)
    next
      case nb: False
      then have "min_expr_time s \<noteq> 0" using False by simp
      then show ?thesis using False nb inv by (simp add: explain_local_def local_ok_def)
    qed
  qed
qed

lemma explain_local_other:
  assumes inv: "search_inv n s" and t: "0 < t"
    and D: "Reserved3 s < 3 \<or> \<not> enableOPT3 s \<and> n \<le> Reserved2 s"
  shows "\<exists>s'. explain_local t s = Inr s' \<and> local_ok n s s'"
proof -
  have base: "base_inv n s" using inv by (simp add: search_inv_def)
  note b = base_invD [OF base]
  show ?thesis
  proof (cases "Reserved3 s < 3")
    case True
    then show ?thesis using inv by (simp add: explain_local_def local_ok_def search_inv_def)
  next
    case False
    then have d: "\<not> enableOPT3 s" "n \<le> Reserved2 s" "Reserved3 s = 3"
      using D base by (auto simp: base_inv_def)
    have "search_inv n (s\<lparr>useTheBest := False\<rparr>)" "search_inv n (s\<lparr>min_expr_time := t\<rparr>)"
      using base d t by (simp_all add: search_inv_def base_inv_def)
    then show ?thesis using inv d b(1) by (simp add: explain_local_def local_ok_def)
  qed
qed

lemma explain_local_ok:
  assumes "search_inv n s" and "0 < t"
  shows "\<exists>s'. explain_local t s = Inr s' \<and> local_ok n s s'"
proof -
  have "Reserved3 s \<le> 3" using assms(1) by (simp add: search_inv_def base_inv_def)
  then consider "Reserved3 s = 3" "enableOPT3 s" | "Reserved3 s = 3" "\<not> enableOPT3 s" "Reserved2 s < n"
    | "Reserved3 s < 3 \<or> \<not> enableOPT3 s \<and> n \<le> Reserved2 s" by linarith
  then show ?thesis
    using explain_local_opt3 [OF assms] explain_local_plain [OF assms] explain_local_other [OF assms]
    by cases auto
qed

lemma search_inv_best [simp]:
  "length b = EXPR_MAX_NUM \<Longrightarrow> length (bestJITLevels s) = EXPR_MAX_NUM \<Longrightarrow>
   search_inv n (s\<lparr>min_total_time := m, bestJITLevels := b\<rparr>) = search_inv n s"
  by (simp add: search_inv_def base_inv_def opt3_phase_def plain_phase_def settled_def)

lemma explain_update_ok:
  assumes inv: "search_inv n s" and t: "0 < t" and m: "0 \<le> min_total_time s"
    and best: "0 < min_total_time s \<Longrightarrow> levels_ok n in_range (bestJITLevels s)"
  shows "\<exists>s'. explain_update t s = Inr s' \<and> rest_inv n s'"
proof -
  have base: "base_inv n s" using inv by (simp add: search_inv_def)
  from explain_total [OF base t m best] obtain m' b where
    1: "(if min_total_time s = 0 \<or> min_total_time s > t
            then bindE (copy_slots (currentExprNum s) (currentExprJITLevels s) (bestJITLevels s)) (\<lambda>b.
                   Inr (s\<lparr>min_total_time := t, bestJITLevels := b\<rparr>))
            else Inr s) = Inr (s\<lparr>min_total_time := m', bestJITLevels := b\<rparr>)"
    "0 < m'" "levels_ok n in_range b" by blast
  let ?s = "s\<lparr>min_total_time := m', bestJITLevels := b\<rparr>"
  have "search_inv n ?s"
    using inv base_invD(4) [OF base] levels_ok_length [OF 1(3)] by simp
  from explain_local_ok [OF this t] obtain s' where
    "explain_local t ?s = Inr s'" "local_ok n ?s s'" by blast
  with 1 show ?thesis by (auto simp: explain_update_def rest_inv_def local_ok_def)
qed

section \<open>Choosing the next levels keeps the invariant\<close>

definition choice :: "hex_config \<Rightarrow> level_state \<Rightarrow> level_state res" where
  "choice cfg s = bindE (choose_levels cfg s) apply_best"

text \<open>The search is over: from now on every choice loads the global best levels.\<close>

definition search_done :: "nat \<Rightarrow> level_state \<Rightarrow> bool" where
  "search_done n s = (Reserved3 s = 3 \<and> \<not> enableOPT3 s \<and> n \<le> Reserved2 s)"

text \<open>The number of combinations that are still to come.\<close>

definition search_pos :: "nat \<Rightarrow> level_state \<Rightarrow> nat" where
  "search_pos n s =
     (if Reserved3 s < 3 then nat (3 - Reserved3 s) + 4 * n + 1
      else if enableOPT3 s then (if currentExprJITLevels s ! Reserved2 s = Some 3 then n - Reserved2 s else n + 1)
      else if Reserved2 s < n then 3 * (n - Reserved2 s) - nat (the (currentExprJITLevels s ! Reserved2 s)) + n + 1
      else 0)"

text \<open>
  What has been run when the search is in a state: all expressions at level \<open>l\<close>, or only expression \<open>i\<close>
  at level \<open>l\<close> and the others at level 0. A step adds at most the combination it chooses.
\<close>

definition one_level :: "nat \<Rightarrow> nat \<Rightarrow> int \<Rightarrow> int option list" where
  "one_level n i l = (replicate n (Some 0))[i := Some l]"

definition tried_all :: "level_state \<Rightarrow> int \<Rightarrow> bool" where
  "tried_all s l \<longleftrightarrow> 0 < currentStatementExecNum s \<and> l \<le> Reserved3 s"

definition tried_one :: "nat \<Rightarrow> level_state \<Rightarrow> nat \<Rightarrow> int \<Rightarrow> bool" where
  "tried_one n s i l \<longleftrightarrow>
     Reserved3 s = 3 \<and>
     (if l = 3 then
        if enableOPT3 s then i < Reserved2 s \<or> i = Reserved2 s \<and> currentExprJITLevels s ! i = Some 3 else n \<le> Reserved2 s
      else enableOPT3 s \<or> i < Reserved2 s \<or> i = Reserved2 s \<and> l \<le> the (currentExprJITLevels s ! i))"

definition tries :: "nat \<Rightarrow> level_state \<Rightarrow> level_state \<Rightarrow> bool" where
  "tries n s s' \<longleftrightarrow>
     (\<forall>l \<in> {0, 1, 2}. tried_all s' l \<longrightarrow> tried_all s l \<or> take n (currentExprJITLevels s') = replicate n (Some l)) \<and>
     (\<forall>i < n. \<forall>l \<in> {1, 2, 3}. tried_one n s' i l \<longrightarrow> tried_one n s i l \<or> take n (currentExprJITLevels s') = one_level n i l)"

text \<open>The combinations \<open>H\<close> are all that was run between two states.\<close>

definition tried_in :: "nat \<Rightarrow> level_state \<Rightarrow> level_state \<Rightarrow> int option list set \<Rightarrow> bool" where
  "tried_in n s s' H \<longleftrightarrow>
     (\<forall>l \<in> {0, 1, 2}. tried_all s' l \<longrightarrow> tried_all s l \<or> replicate n (Some l) \<in> H) \<and>
     (\<forall>i < n. \<forall>l \<in> {1, 2, 3}. tried_one n s' i l \<longrightarrow> tried_one n s i l \<or> one_level n i l \<in> H)"

lemma tried_inD:
  assumes "tried_in n s s' H"
  shows "l \<in> {0, 1, 2} \<Longrightarrow> tried_all s' l \<Longrightarrow> \<not> tried_all s l \<Longrightarrow> replicate n (Some l) \<in> H"
    "i < n \<Longrightarrow> l \<in> {1, 2, 3} \<Longrightarrow> tried_one n s' i l \<Longrightarrow> \<not> tried_one n s i l \<Longrightarrow> one_level n i l \<in> H"
  using assms unfolding tried_in_def by blast+

lemma tries_tried_in: "tries n s s' \<Longrightarrow> tried_in n s s' {take n (currentExprJITLevels s')}"
  unfolding tries_def tried_in_def singleton_iff by (simp only: eq_commute [of "take n (currentExprJITLevels s')"])

lemma tried_in_trans: "tried_in n s s1 H \<Longrightarrow> tried_in n s1 s2 H' \<Longrightarrow> tried_in n s s2 (H \<union> H')"
  unfolding tried_in_def by blast

lemma take_one_level:
  assumes "levels_ok n (\<lambda>i l. l = (if i = r then v else 0)) xs" "n \<le> EXPR_MAX_NUM"
  shows "take n xs = one_level n r v"
  using assms by (intro nth_equalityI) (auto simp: levels_ok_def one_level_def nth_list_update)

definition choice_ok :: "nat \<Rightarrow> level_state \<Rightarrow> level_state \<Rightarrow> bool" where
  "choice_ok n s s' =
     (search_inv n s' \<and> min_total_time s' = min_total_time s \<and> bestJITLevels s' = bestJITLevels s \<and>
      currentStatementExecNum s' = currentStatementExecNum s \<and> tries n s s' \<and>
      (if search_done n s then search_done n s' else search_pos n s' < search_pos n s) \<and>
      (\<not> enableOPT3 s \<and> enableOPT3 s' \<longrightarrow>
         (\<forall>i. 1 \<le> i \<and> i < n \<longrightarrow> currentExprJITLevels s' ! i \<in> {Some 1, Some 2})) \<and>
      (enableOPT3 s \<and> \<not> enableOPT3 s' \<longrightarrow> (\<forall>i. 1 \<le> i \<and> i < n \<longrightarrow> currentExprJITLevels s' ! i = Some 3)))"

text \<open>The levels and the settled local best levels while the levels 1 and 2 are tried.\<close>

lemma plain_phaseD:
  assumes "plain_phase n s" and "r = Reserved2 s" and "r < n"
  obtains l where "currentExprJITLevels s ! r = Some l" "l \<in> {1, 2} \<or> r = 0 \<and> l = 0"
    "levels_ok n (\<lambda>i l. i \<noteq> r \<longrightarrow> l = 0) (currentExprJITLevels s)"
proof -
  have "levels_ok n (\<lambda>i l. if i = Reserved2 s then (l \<in> {1, 2} \<or> i = 0 \<and> l = 0) else l = 0) (currentExprJITLevels s)"
    using assms(1) by (simp add: plain_phase_def)
  from levels_okD [OF this assms(3)] levels_ok_mono [OF this, of "\<lambda>i l. i \<noteq> r \<longrightarrow> l = 0"] that assms(2)
  show thesis by auto
qed

lemma quartet_next:
  assumes inv: "search_inv n s" and A: "enableQuartet cfg" "Reserved3 s < 3" and e: "0 < currentStatementExecNum s"
  shows "\<exists>s'. choice cfg s = Inr s' \<and> choice_ok n s s'"
proof -
  have base: "base_inv n s" and a: "Reserved2 s = 0" "\<not> enableOPT3 s" "\<not> useTheBest s" "min_expr_time s = 0"
    using inv A(2) by (auto simp: search_inv_def)
  note b = base_invD [OF base]
  let ?v = "(Reserved3 s + 1) smod 3"
  let ?L = "replicate n (Some ?v) @ drop n (currentExprJITLevels s)"
  define s' where "s' = s\<lparr>Reserved3 := Reserved3 s + 1, currentExprJITLevels := ?L\<rparr>"
  have r3: "0 \<le> Reserved3 s" using base by (simp add: base_inv_def)
  have v: "?v = (Reserved3 s + 1) mod 3" using r3 by (simp add: smod_int_alt_def)
  have "choice cfg s = Inr s'"
    using A b a set_all_levels_ok [of "s\<lparr>Reserved3 := Reserved3 s + 1\<rparr>" ?v]
    by (simp add: choice_def choose_levels_def apply_best_def s'_def)
  moreover have "levels_ok n in_range ?L"
    using b by (intro levels_ok_fill) (auto simp: v in_range_def)
  then have "base_inv n s'" using base A(2) r3 e by (auto simp: base_inv_def s'_def)
  moreover have "plain_phase n s'" if "Reserved3 s + 1 = 3"
  proof -
    have "?v = 0" using that v by simp
    then have "levels_ok n (\<lambda>i l. if i = 0 then (l \<in> {1, 2} \<or> i = 0 \<and> l = 0) else l = 0) ?L"
      using b by (intro levels_ok_fill) auto
    then show ?thesis using a by (simp add: plain_phase_def s'_def settled_def)
  qed
  moreover have "Reserved3 s' = Reserved3 s + 1" "Reserved2 s' = 0" "\<not> enableOPT3 s'" "\<not> useTheBest s'"
    "min_expr_time s' = 0" "min_total_time s' = min_total_time s" "bestJITLevels s' = bestJITLevels s"
    "currentStatementExecNum s' = currentStatementExecNum s"
    using a by (simp_all add: s'_def)
  moreover have "Reserved3 s \<in> {0, 1, 2}" using A(2) r3 by auto
  then have "tries n s s'"
    using a b(1) v by (cases "n = 0") (auto simp: tries_def tried_all_def tried_one_def s'_def nth_append)
  ultimately show ?thesis
    using A(2) a by (cases "Reserved3 s + 1 = 3") (auto simp: choice_ok_def search_inv_def search_done_def search_pos_def)
qed

lemma done_next:
  assumes inv: "search_inv n s" and D: "Reserved3 s = 3" "\<not> enableOPT3 s" "n \<le> Reserved2 s"
    and best: "levels_ok n in_range (bestJITLevels s)"
  shows "\<exists>s'. choice cfg s = Inr s' \<and> choice_ok n s s' \<and>
           take n (currentExprJITLevels s') = take n (bestJITLevels s)"
proof -
  have base: "base_inv n s" using inv by (simp add: search_inv_def)
  note b = base_invD [OF base]
  let ?L = "take n (bestJITLevels s) @ drop n (currentExprJITLevels s)"
  define s' where "s' = s\<lparr>useTheBest := True, currentExprJITLevels := ?L\<rparr>"
  have "choice cfg s = Inr s'"
    using D b levels_ok_filled [OF best b(2)]
    by (simp add: choice_def choose_levels_def apply_best_def load_levels_ok s'_def)
  moreover have "base_inv n s'"
    using base levels_ok_copy [OF best b(2) b(6)] by (simp add: base_inv_def s'_def)
  moreover have "tries n s s'" using D by (auto simp: tries_def tried_all_def tried_one_def s'_def)
  ultimately have "choice cfg s = Inr s'" "choice_ok n s s'" using D by (simp_all add: choice_ok_def search_inv_def search_done_def s'_def)
  moreover have "take n (currentExprJITLevels s') = take n (bestJITLevels s)"
    using b by (simp add: s'_def)
  ultimately show ?thesis by blast
qed

lemma plain_next:
  assumes inv: "search_inv n s" and B: "Reserved3 s = 3" "\<not> enableOPT3 s" "Reserved2 s < n" "min_expr_time s \<noteq> 0"
  shows "\<exists>s'. choice cfg s = Inr s' \<and> choice_ok n s s'"
proof -
  have base: "base_inv n s" and pl: "plain_phase n s" using inv B by (auto simp: search_inv_def)
  note b = base_invD [OF base]
  define r where "r = Reserved2 s"
  obtain l where l: "currentExprJITLevels s ! r = Some l" "l \<in> {1, 2} \<or> r = 0 \<and> l = 0"
    "levels_ok n (\<lambda>i l. i \<noteq> r \<longrightarrow> l = 0) (currentExprJITLevels s)"
    using plain_phaseD [OF pl r_def] B(3) r_def by blast
  have r: "r < n" "r < length (currentExprJITLevels s)" "r < EXPR_MAX_NUM" using B(3) b by (simp_all add: r_def)
  have ub: "\<not> useTheBest s" using pl by (simp add: plain_phase_def)
  have best: "\<exists>l. bestCurrentJITLevels s ! i = Some l \<and> (l \<in> {1, 2} \<or> i = 0 \<and> l = 0)" if "i \<le> r" for i
  proof -
    have "settled s i" "i < n" using that r(1) B(4) by (auto simp: settled_def r_def)
    with pl show ?thesis unfolding plain_phase_def by blast
  qed
  consider "l \<noteq> 2" | "l = 2" "Suc r < n" | "l = 2" "Suc r = n" using r by linarith
  then show ?thesis
  proof cases
    case 1
    define s' where "s' = s\<lparr>currentExprJITLevels := (currentExprJITLevels s)[r := Some (l + 1)]\<rparr>"
    have "choice cfg s = Inr s'"
      using B b l(1) r 1 ub
      by (simp add: choice_def choose_levels_def plain_step_def set_level_ok apply_best_def s'_def flip: r_def)
    moreover have "levels_ok n (\<lambda>i l. if i = r then (l \<in> {1, 2} \<or> i = 0 \<and> l = 0) else l = 0) (currentExprJITLevels s')"
      unfolding s'_def using l 1 r b(2) by (auto intro!: levels_ok_update_new [OF l(3)])
    then have "plain_phase n s'"
      using pl by (simp add: plain_phase_def s'_def settled_def flip: r_def)
    moreover have "base_inv n s'"
      using base levels_ok_update [OF b(3), of r "l + 1"] l(2) 1 by (auto simp: base_inv_def s'_def in_range_def)
    moreover have "search_pos n s' < search_pos n s"
      using B r l(1,2) 1 by (auto simp: search_pos_def s'_def simp flip: r_def)
    moreover have "tries n s s'"
    proof -
      have "take n (currentExprJITLevels s') = one_level n r (l + 1)"
        unfolding s'_def using r b(2) by (intro take_one_level) (auto intro!: levels_ok_update_new [OF l(3)])
      moreover have "l = 0 \<or> l = 1" using l(2) 1 by auto
      ultimately show ?thesis using B l(1) r by (auto simp: tries_def tried_all_def tried_one_def s'_def simp flip: r_def)
    qed
    ultimately show ?thesis using B r by (simp add: choice_ok_def search_inv_def search_done_def s'_def)
  next
    case 2
    let ?L = "(currentExprJITLevels s)[r := Some 0, Suc r := Some 1]"
    define s' where "s' = s\<lparr>currentExprJITLevels := ?L, min_expr_time := 0, Reserved2 := Suc r, useTheBest := False\<rparr>"
    have next0: "(currentExprJITLevels s) ! Suc r = Some 0" using levels_okD [OF l(3) 2(2)] by auto
    have "choice cfg s = Inr s'"
      using B b l(1) r 2 ub next0
      by (simp add: choice_def choose_levels_def plain_step_def set_level_ok apply_best_def s'_def Let_def flip: r_def)
    moreover have z: "levels_ok n (\<lambda>i l. l = 0) ((currentExprJITLevels s)[r := Some 0])"
      using r b(2) by (auto intro!: levels_ok_update_new [OF l(3)])
    have "levels_ok n (\<lambda>i l. if i = Suc r then (l \<in> {1, 2} \<or> i = 0 \<and> l = 0) else l = 0) ?L"
      using 2 b(2) by (intro levels_ok_update_new [OF z]) auto
    then have "plain_phase n s'"
      using best by (simp add: plain_phase_def s'_def settled_def)
    moreover have "base_inv n s'"
      using base levels_ok_update [OF levels_ok_update [OF b(3), of r 0], of "Suc r" 1]
      by (simp add: base_inv_def s'_def in_range_def)
    moreover have "search_pos n s' < search_pos n s"
      using B 2 l(1) r b by (simp add: search_pos_def s'_def flip: r_def)
    moreover have "take n ?L = one_level n (Suc r) 1"
      using 2 b(2) by (intro take_one_level) (auto intro!: levels_ok_update_new [OF z])
    then have "tries n s s'" using B 2 l(1) r b by (auto simp: tries_def tried_all_def tried_one_def s'_def less_Suc_eq simp flip: r_def)
    ultimately show ?thesis using B 2 by (simp add: choice_ok_def search_inv_def search_done_def s'_def)
  next
    case 3
    have bc: "levels_ok n (\<lambda>i l. l \<in> {0, 1, 2}) (bestCurrentJITLevels s)"
      unfolding levels_ok_def
    proof (intro conjI allI impI)
      fix i assume "i < n"
      then have "i \<le> r" using 3 by simp
      from best [OF this] show "\<exists>l. bestCurrentJITLevels s ! i = Some l \<and> l \<in> {0, 1, 2}" by auto
    qed (rule b(5))
    let ?L = "take n (bestCurrentJITLevels s) @ drop n ((currentExprJITLevels s)[r := Some 0])"
    define s' where "s' = s\<lparr>currentExprJITLevels := ?L, min_expr_time := 0, Reserved2 := 0, useTheBest := True, enableOPT3 := True\<rparr>"
    have "choice cfg s = Inr s'"
      using B b l(1) r 3 ub levels_ok_filled [OF bc b(2)]
      by (simp add: choice_def choose_levels_def plain_step_def set_level_ok apply_best_def load_levels_ok s'_def Let_def flip: r_def)
    moreover have L: "levels_ok n (\<lambda>i l. l \<in> {0, 1, 2}) ?L" using bc b by (intro levels_ok_copy) auto
    then have "levels_ok n in_range ?L" by (rule levels_ok_mono) (auto simp: in_range_def)
    then have "base_inv n s'" using base by (simp add: base_inv_def s'_def)
    moreover have "levels_ok n in_range (bestCurrentJITLevels s)"
      using bc by (rule levels_ok_mono) (auto simp: in_range_def)
    moreover have L0: "?L ! 0 \<noteq> Some 3" using levels_okD [OF L, of 0] r by auto
    moreover have "search_pos n s' < search_pos n s"
      using B 3 l(1) L0 by (simp add: search_pos_def s'_def flip: r_def)
    moreover have "?L ! i \<in> {Some 1, Some 2}" if "1 \<le> i" "i < n" for i
      using best [of i] that 3 b(2,5) by (auto simp: nth_append)
    moreover have "tries n s s'"
      using B 3 l(1) L0 by (auto simp: tries_def tried_all_def tried_one_def s'_def less_Suc_eq simp flip: r_def)
    ultimately show ?thesis
      using B r by (simp add: choice_ok_def search_inv_def search_done_def opt3_phase_def s'_def settled_def)
  qed
qed

lemma opt3_step_active:
  assumes "currentExprJITLevels s ! Reserved2 s = Some 3" and "Reserved2 s < length (currentExprJITLevels s)"
  shows "opt3_step s =
    (let s3 = s\<lparr>currentExprJITLevels := (currentExprJITLevels s)[Reserved2 s := Some 0],
                min_expr_time := 0, Reserved2 := Reserved2 s + 1\<rparr>
     in if Reserved2 s3 \<ge> currentExprNum s3 then Inr (s3\<lparr>useTheBest := True\<rparr>)
        else bindE (set_level (Reserved2 s3) 3 s3) (\<lambda>s4. Inr (s4\<lparr>useTheBest := False\<rparr>)))"
proof -
  have rd: "read_slot (currentExprJITLevels s) (Reserved2 s) = Inr 3" using assms by simp
  have "(if Reserved2 s = 0
         then bindE (read_slot (currentExprJITLevels s) (Reserved2 s)) (\<lambda>l. if l \<noteq> 3 then set_all_levels 0 s else Inr s)
         else Inr s) = Inr s" using rd by (cases "Reserved2 s = 0") simp_all
  then show ?thesis
    unfolding opt3_step_def using rd assms(2) by (simp add: set_level_ok Let_def del: bindE_eq_Inr)
qed

lemma opt3_next:
  assumes inv: "search_inv n s" and C: "Reserved3 s = 3" "enableOPT3 s" and ub: "\<not> useTheBest s"
    and m: "currentExprJITLevels s ! Reserved2 s = Some 3 \<longrightarrow> min_expr_time s \<noteq> 0"
  shows "\<exists>s'. choice cfg s = Inr s' \<and> choice_ok n s s'"
proof -
  have base: "base_inv n s" and op: "opt3_phase n s" using inv C by (auto simp: search_inv_def)
  note b = base_invD [OF base]
  define r where "r = Reserved2 s"
  have r: "r < n" and bc: "levels_ok n in_range (bestCurrentJITLevels s)"
    using op by (auto simp: opt3_phase_def r_def)
  have b3: "bestCurrentJITLevels s ! i = Some 3" if "1 \<le> i" "i < n" "settled s i" for i
    using op that by (simp add: opt3_phase_def)
  obtain l where l: "currentExprJITLevels s ! r = Some l" using levels_okD [OF b(3) r] by blast
  consider (entry) "r = 0" "l \<noteq> 3"
    | (active) "levels_ok n (\<lambda>i l. l = (if i = r then 3 else 0)) (currentExprJITLevels s)" "l = 3"
    using op l levels_okD [OF _ r] by (fastforce simp: opt3_phase_def simp flip: r_def)
  then show ?thesis
  proof cases
    case entry
    let ?L = "(replicate n (Some 0) @ drop n (currentExprJITLevels s))[0 := Some 3]"
    define s' where "s' = s\<lparr>currentExprJITLevels := ?L\<rparr>"
    have "choice cfg s = Inr s'"
      using C b r l entry ub set_all_levels_ok [of s 0]
      by (simp add: choice_def choose_levels_def opt3_step_def set_level_ok apply_best_def s'_def nth_append flip: r_def)
    moreover have z: "levels_ok n (\<lambda>i l. l = 0) (replicate n (Some 0) @ drop n (currentExprJITLevels s))"
      using b by (intro levels_ok_fill) auto
    have L: "levels_ok n (\<lambda>i l. l = (if i = 0 then 3 else 0)) ?L"
      using r b(2) entry by (intro levels_ok_update_new [OF z]) auto
    then have "opt3_phase n s'"
      using op entry ub by (simp add: opt3_phase_def s'_def settled_def flip: r_def)
    moreover have "base_inv n s'"
      using base levels_ok_mono [OF L, of in_range] by (auto simp: base_inv_def s'_def in_range_def split: if_splits)
    moreover have "search_pos n s' < search_pos n s"
      using C r l entry b by (simp add: search_pos_def s'_def flip: r_def)
    moreover have "tries n s s'"
      using C entry l take_one_level [OF L b(2)] by (auto simp: tries_def tried_all_def tried_one_def s'_def simp flip: r_def)
    ultimately show ?thesis using C by (simp add: choice_ok_def search_inv_def search_done_def s'_def)
  next
    case active
    then have me: "min_expr_time s \<noteq> 0" using m l by (simp add: r_def)
    have z: "levels_ok n (\<lambda>i l. l = 0) ((currentExprJITLevels s)[r := Some 0])"
      using r b(2) by (auto intro!: levels_ok_update_new [OF active(1)])
    show ?thesis
    proof (cases "Suc r < n")
      case True
      let ?L = "(currentExprJITLevels s)[r := Some 0, Suc r := Some 3]"
      define s' where "s' = s\<lparr>currentExprJITLevels := ?L, min_expr_time := 0, Reserved2 := Suc r, useTheBest := False\<rparr>"
      have "choice cfg s = Inr s'"
        using C b r l active(2) ub True opt3_step_active [of s]
        by (simp add: choice_def choose_levels_def set_level_ok apply_best_def s'_def Let_def del: bindE_eq_Inr flip: r_def)
      moreover have L: "levels_ok n (\<lambda>i l. l = (if i = Suc r then 3 else 0)) ?L"
        using True b(2) by (intro levels_ok_update_new [OF z]) auto
      have "bestCurrentJITLevels s ! i = Some 3" if "1 \<le> i" "i < Suc r" for i
      proof -
        have "settled s i" using that me by (auto simp: settled_def simp flip: r_def)
        then show ?thesis using b3 that r by simp
      qed
      with L have "opt3_phase n s'"
        using True bc by (simp add: opt3_phase_def s'_def settled_def)
      moreover have "base_inv n s'"
        using base levels_ok_mono [OF L, of in_range] by (auto simp: base_inv_def s'_def in_range_def split: if_splits)
      moreover have "search_pos n s' < search_pos n s"
        using C r l active(2) b True by (simp add: search_pos_def s'_def flip: r_def)
      moreover have "tries n s s'"
        using C l active(2) take_one_level [OF L b(2)] by (auto simp: tries_def tried_all_def tried_one_def s'_def less_Suc_eq simp flip: r_def)
      ultimately show ?thesis using C by (simp add: choice_ok_def search_inv_def search_done_def s'_def)
    next
      case False
      let ?L = "take n (bestCurrentJITLevels s) @ drop n ((currentExprJITLevels s)[r := Some 0])"
      define s' where "s' = s\<lparr>currentExprJITLevels := ?L, min_expr_time := 0, Reserved2 := Suc r, useTheBest := True, enableOPT3 := False\<rparr>"
      have "choice cfg s = Inr s'"
        using C b r l active(2) ub False levels_ok_filled [OF bc b(2)] opt3_step_active [of s]
        by (simp add: choice_def choose_levels_def apply_best_def load_levels_ok s'_def Let_def del: bindE_eq_Inr flip: r_def)
      moreover have "levels_ok n in_range ?L" using bc b by (intro levels_ok_copy) auto
      then have "base_inv n s'" using base by (simp add: base_inv_def s'_def)
      moreover have "search_pos n s' < search_pos n s"
        using C r l active(2) False by (simp add: search_pos_def s'_def flip: r_def)
      moreover have "i < r \<or> i = r" if "i < n" for i using that False by auto
      then have "tries n s s'"
        using C r l active(2) by (auto simp: tries_def tried_all_def tried_one_def s'_def simp flip: r_def)
      moreover have "?L ! i = Some 3" if "1 \<le> i" "i < n" for i
      proof -
        have "settled s i" using that me False by (auto simp: settled_def simp flip: r_def)
        then show ?thesis using b3 that b(2,5) by (simp add: nth_append)
      qed
      ultimately show ?thesis using C False by (simp add: choice_ok_def search_inv_def search_done_def s'_def)
    qed
  qed
qed

lemma choice_next:
  assumes rest: "rest_inv n s" and q: "enableQuartet cfg" and e: "0 < currentStatementExecNum s"
  shows "\<exists>s'. choice cfg s = Inr s' \<and> choice_ok n s s'"
proof -
  have inv: "search_inv n s" and ub: "\<not> useTheBest s" and best: "levels_ok n in_range (bestJITLevels s)"
    and m: "Reserved3 s = 3 \<Longrightarrow> Reserved2 s < n \<Longrightarrow>
      (enableOPT3 s \<longrightarrow> currentExprJITLevels s ! Reserved2 s = Some 3) \<Longrightarrow> min_expr_time s \<noteq> 0"
    using rest by (auto simp: rest_inv_def)
  have "Reserved3 s \<le> 3" using inv by (simp add: search_inv_def base_inv_def)
  then consider "Reserved3 s < 3" | "Reserved3 s = 3" "enableOPT3 s"
    | "Reserved3 s = 3" "\<not> enableOPT3 s" "Reserved2 s < n" | "Reserved3 s = 3" "\<not> enableOPT3 s" "n \<le> Reserved2 s"
    by linarith
  then show ?thesis
  proof cases
    case 1
    then show ?thesis using quartet_next [OF inv q _ e] by simp
  next
    case 2
    then have "Reserved2 s < n" using inv by (simp add: search_inv_def opt3_phase_def)
    with 2 show ?thesis using opt3_next [OF inv 2 ub] m by simp
  next
    case 3
    then show ?thesis using plain_next [OF inv 3] m by simp
  next
    case 4
    then show ?thesis using done_next [OF inv 4 best] by blast
  qed
qed

text \<open>The counters do not matter for the invariants.\<close>

lemma phase_counters [simp]:
  "plain_phase n (s\<lparr>countExpr := c\<rparr>) = plain_phase n s"
  "plain_phase n (s\<lparr>currentStatementExecNum := e\<rparr>) = plain_phase n s"
  "plain_phase n (s\<lparr>currentLevelsCount := k\<rparr>) = plain_phase n s"
  "opt3_phase n (s\<lparr>countExpr := c\<rparr>) = opt3_phase n s"
  "opt3_phase n (s\<lparr>currentStatementExecNum := e\<rparr>) = opt3_phase n s"
  "opt3_phase n (s\<lparr>currentLevelsCount := k\<rparr>) = opt3_phase n s"
  "search_inv n (s\<lparr>currentLevelsCount := k\<rparr>) = search_inv n s"
  by (simp_all add: search_inv_def base_inv_def plain_phase_def opt3_phase_def settled_def)

lemma pos_counters [simp]:
  "search_pos n (s\<lparr>countExpr := c\<rparr>) = search_pos n s"
  "search_pos n (s\<lparr>currentStatementExecNum := e\<rparr>) = search_pos n s"
  "search_pos n (s\<lparr>currentLevelsCount := k\<rparr>) = search_pos n s"
  "search_done n (s\<lparr>countExpr := c\<rparr>) = search_done n s"
  "search_done n (s\<lparr>currentStatementExecNum := e\<rparr>) = search_done n s"
  "search_done n (s\<lparr>currentLevelsCount := k\<rparr>) = search_done n s"
  by (simp_all add: search_pos_def search_done_def)

lemma tried_counters [simp]:
  "tried_one n (s\<lparr>countExpr := c\<rparr>) = tried_one n s"
  "tried_one n (s\<lparr>currentStatementExecNum := e\<rparr>) = tried_one n s"
  "tried_one n (s\<lparr>currentLevelsCount := k\<rparr>) = tried_one n s"
  by (simp_all add: tried_one_def fun_eq_iff)

lemma search_inv_counters:
  assumes "search_inv n s" and "0 \<le> e" and "e = 0 \<Longrightarrow> Reserved3 s = 0"
  shows "search_inv n (s\<lparr>countExpr := c, currentStatementExecNum := e, currentLevelsCount := k\<rparr>)"
  using assms by (simp add: search_inv_def base_inv_def)

lemma rest_inv_counters:
  assumes "rest_inv n s" and "0 < e"
  shows "rest_inv n (s\<lparr>countExpr := c, currentStatementExecNum := e\<rparr>)"
  using assms search_inv_counters [where n = n and s = s and e = e and c = c and k = "currentLevelsCount s"] by (simp add: rest_inv_def)

text \<open>The rank of a state: how many runs are left before the search is over, at most.\<close>

definition search_rank :: "hex_config \<Rightarrow> nat \<Rightarrow> level_state \<Rightarrow> nat" where
  "search_rank cfg n s =
     (nat (Reserved1 cfg) + 1) * search_pos n s + nat (Reserved1 cfg - currentLevelsCount s) +
     (if currentStatementExecNum s = 0 then 1 else 0)"

definition next_ok :: "hex_config \<Rightarrow> nat \<Rightarrow> level_state \<Rightarrow> level_state \<Rightarrow> bool" where
  "next_ok cfg n s s' =
     (search_inv n s' \<and> min_total_time s' = min_total_time s \<and> bestJITLevels s' = bestJITLevels s \<and> tries n s s' \<and>
      (if search_done n s then search_done n s' else search_rank cfg n s' < search_rank cfg n s) \<and>
      (\<not> enableOPT3 s \<and> enableOPT3 s' \<longrightarrow>
         (\<forall>i. 1 \<le> i \<and> i < n \<longrightarrow> currentExprJITLevels s' ! i \<in> {Some 1, Some 2})) \<and>
      (enableOPT3 s \<and> \<not> enableOPT3 s' \<longrightarrow> (\<forall>i. 1 \<le> i \<and> i < n \<longrightarrow> currentExprJITLevels s' ! i = Some 3)))"

lemma rank_less: "p' < p \<Longrightarrow> c' \<le> R \<Longrightarrow> (R + 1) * p' + c' < (R + 1) * p + (c :: nat)"
proof -
  assume a: "p' < p" "c' \<le> R"
  have "(R + 1) * p' + c' < (R + 1) * Suc p'" using a(2) by simp
  also have "\<dots> \<le> (R + 1) * p" using a(1) by (intro mult_le_mono2) simp
  finally show ?thesis by simp
qed

lemma next_levels_first:
  assumes rest: "rest_inv n s" and "currentStatementExecNum s = 0" and k: "0 \<le> currentLevelsCount s"
  shows "\<exists>s'. next_levels cfg s = Inr s' \<and> next_ok cfg n s s'"
proof -
  have inv: "search_inv n s" using rest by (simp add: rest_inv_def)
  then have base: "base_inv n s" and A: "Reserved3 s < 3" "Reserved2 s = 0" "\<not> enableOPT3 s" "\<not> useTheBest s" "min_expr_time s = 0"
    using assms(2) by (auto simp: search_inv_def base_inv_def)
  note b = base_invD [OF base]
  let ?L = "replicate n (Some 0) @ drop n (currentExprJITLevels s)"
  define s' where "s' = s\<lparr>countExpr := False, currentStatementExecNum := 1, currentExprJITLevels := ?L,
    currentLevelsCount := currentLevelsCount s + 1\<rparr>"
  have "next_levels cfg s = Inr s'"
    using assms(2) b by (simp add: next_levels_def Let_def set_all_levels_ok s'_def)
  moreover have "levels_ok n in_range ?L" using b by (intro levels_ok_fill) (auto simp: in_range_def)
  then have "search_inv n s'" using base A by (simp add: search_inv_def base_inv_def s'_def)
  moreover have "Reserved3 s = 0" using base assms(2) by (simp add: base_inv_def)
  then have "tries n s s'" using b(1,2) by (auto simp: tries_def tried_all_def tried_one_def s'_def)
  ultimately show ?thesis
    using A assms(2) by (simp add: next_ok_def search_done_def search_rank_def search_pos_def s'_def)
qed

lemma next_levels_ok:
  assumes rest: "rest_inv n s" and q: "enableQuartet cfg" and R: "0 \<le> Reserved1 cfg" and k: "0 \<le> currentLevelsCount s"
  shows "\<exists>s'. next_levels cfg s = Inr s' \<and> next_ok cfg n s s' \<and> 0 \<le> currentLevelsCount s'"
proof (cases "currentStatementExecNum s = 0")
  case True
  from next_levels_first [OF rest this k, of cfg] obtain s' where s': "next_levels cfg s = Inr s'" "next_ok cfg n s s'"
    by blast
  moreover have "currentLevelsCount s' = currentLevelsCount s + 1"
    using s'(1) True by (auto simp: next_levels_def Let_def set_all_levels_def)
  ultimately show ?thesis using k by auto
next
  case False
  have inv: "search_inv n s" using rest by (simp add: rest_inv_def)
  then have e: "0 < currentStatementExecNum s" using False by (simp add: search_inv_def base_inv_def)
  define s1 where "s1 = s\<lparr>countExpr := False, currentStatementExecNum := currentStatementExecNum s + 1\<rparr>"
  have rest1: "rest_inv n s1" using rest_inv_counters [OF rest] e by (simp add: s1_def)
  have same: "search_done n s1 = search_done n s" "search_pos n s1 = search_pos n s" "enableOPT3 s1 = enableOPT3 s"
    "min_total_time s1 = min_total_time s" "bestJITLevels s1 = bestJITLevels s"
    by (simp_all add: s1_def)
  show ?thesis
  proof (cases "Reserved1 cfg \<le> currentLevelsCount s")
    case True
    obtain s2 where s2: "choice cfg s1 = Inr s2" "choice_ok n s1 s2"
      using choice_next [OF rest1 q] e by (auto simp: s1_def)
    define s' where "s' = s2\<lparr>currentLevelsCount := 0\<rparr>"
    have c: "currentLevelsCount s1 = currentLevelsCount s" "currentStatementExecNum s1 \<noteq> 1"
      using e by (simp_all add: s1_def)
    have "next_levels cfg s = bindE (choose_levels cfg s1) (\<lambda>s2. bindE (apply_best s2) (\<lambda>s3. Inr (s3\<lparr>currentLevelsCount := 0\<rparr>)))"
      unfolding next_levels_def Let_def s1_def [symmetric] using c True by (simp del: bindE_eq_Inr)
    moreover obtain s3 where "choose_levels cfg s1 = Inr s3" "apply_best s3 = Inr s2"
      using s2(1) by (auto simp: choice_def)
    ultimately have step: "next_levels cfg s = Inr s'" by (simp add: s'_def)
    have "search_inv n s'"
      using s2(2) by (simp add: s'_def choice_ok_def)
    moreover have "search_rank cfg n s' < search_rank cfg n s" if "\<not> search_done n s"
    proof -
      have p: "search_pos n s' < search_pos n s"
        using s2(2) that same(1,2) by (simp add: choice_ok_def s'_def)
      have "currentStatementExecNum s' \<noteq> 0" using s2(2) e by (simp add: choice_ok_def s'_def s1_def)
      then show ?thesis
        using rank_less [OF p order_refl, of "nat (Reserved1 cfg)" "nat (Reserved1 cfg - currentLevelsCount s)"] False
        by (simp add: search_rank_def s'_def)
    qed
    moreover have "search_done n s'" if "search_done n s"
      using s2(2) that same(1) by (simp add: choice_ok_def s'_def)
    moreover have "tries n s s'"
      using s2(2) e by (simp add: choice_ok_def tries_def tried_all_def s'_def s1_def)
    ultimately have "next_ok cfg n s s'"
      using s2(2) same by (simp add: next_ok_def choice_ok_def s'_def)
    with step show ?thesis by (auto simp: s'_def)
  next
    case less: False
    define s' where "s' = s1\<lparr>currentLevelsCount := currentLevelsCount s + 1\<rparr>"
    have "next_levels cfg s = Inr s'"
      using less e by (simp add: next_levels_def Let_def s'_def s1_def)
    moreover have "search_inv n s'"
      using search_inv_counters [OF inv, where e = "currentStatementExecNum s + 1" and c = False and k = "currentLevelsCount s + 1"] e
      by (simp add: s'_def s1_def)
    moreover have "search_rank cfg n s' < search_rank cfg n s"
      using less e R by (simp add: search_rank_def s'_def s1_def)
    moreover have "search_done n s' = search_done n s" by (simp add: s'_def s1_def)
    moreover have "tries n s s'" using e by (simp add: tries_def tried_all_def s'_def s1_def)
    ultimately show ?thesis
      using k by (auto simp: next_ok_def s'_def s1_def)
  qed
qed

section \<open>Runs\<close>

lemma explain_update_best:
  assumes inv: "search_inv n s" and t: "0 < t" and m: "0 \<le> min_total_time s"
    and best: "0 < min_total_time s \<Longrightarrow> levels_ok n in_range (bestJITLevels s)"
    and ex: "explain_update t s = Inr s'"
  shows "local_ok n (s\<lparr>min_total_time := min_total_time s', bestJITLevels := bestJITLevels s'\<rparr>) s' \<and>
    (min_total_time s', take n (bestJITLevels s')) =
      (if min_total_time s = 0 \<or> t < min_total_time s then (t, take n (currentExprJITLevels s))
       else (min_total_time s, take n (bestJITLevels s)))"
proof -
  have base: "base_inv n s" using inv by (simp add: search_inv_def)
  note b = base_invD [OF base]
  let ?new = "min_total_time s = 0 \<or> t < min_total_time s"
  let ?b = "if ?new then take n (currentExprJITLevels s) @ drop n (bestJITLevels s) else bestJITLevels s"
  let ?s = "s\<lparr>min_total_time := if ?new then t else min_total_time s, bestJITLevels := ?b\<rparr>"
  have 1: "explain_update t s = explain_local t ?s"
    using copy_slots_ok [OF levels_ok_filled [OF b(3,2)], of "bestJITLevels s"] b
    by (simp add: explain_update_def)
  have "search_inv n ?s" using inv b by simp
  from explain_local_ok [OF this t] obtain s1 where s1: "explain_local t ?s = Inr s1" "local_ok n ?s s1" by blast
  have "s1 = s'" using 1 s1(1) ex by simp
  with s1(2) show ?thesis using b by (auto simp: local_ok_def)
qed

text \<open>
  One run: the search goes on, the invariant holds again, and the global best is the better of
  the old one and this run.
\<close>

lemma repeat_run_ok:
  assumes rest: "rest_inv n s" and q: "enableQuartet cfg" and R: "0 \<le> Reserved1 cfg" and k: "0 \<le> currentLevelsCount s"
    and t: "0 < t"
  shows "\<exists>s'. repeat_run cfg t s = Inr s' \<and> rest_inv n s' \<and> 0 \<le> currentLevelsCount s' \<and>
    (if search_done n s then search_done n s' else search_rank cfg n s' < search_rank cfg n s) \<and> tries n s s' \<and>
    (min_total_time s', take n (bestJITLevels s')) =
      (if t < min_total_time s then (t, take n (currentExprJITLevels s'))
       else (min_total_time s, take n (bestJITLevels s)))"
proof -
  obtain s1 where s1: "next_levels cfg s = Inr s1" "next_ok cfg n s s1" "0 \<le> currentLevelsCount s1"
    using next_levels_ok [OF rest q R k] by blast
  have m: "0 < min_total_time s1" "levels_ok n in_range (bestJITLevels s1)" and inv: "search_inv n s1"
    using s1(2) rest by (auto simp: next_ok_def rest_inv_def)
  from explain_update_ok [OF inv t] m obtain s' where s': "explain_update t s1 = Inr s'" "rest_inv n s'" by auto
  note u = explain_update_best [OF inv t _ _ s'(1)]
  have l: "currentExprJITLevels s' = currentExprJITLevels s1" "Reserved2 s' = Reserved2 s1" "Reserved3 s' = Reserved3 s1"
    "enableOPT3 s' = enableOPT3 s1" "currentLevelsCount s' = currentLevelsCount s1"
    "currentStatementExecNum s' = currentStatementExecNum s1"
    using u m by (auto simp: local_ok_def)
  then have "search_done n s' = search_done n s1" "search_rank cfg n s' = search_rank cfg n s1"
    by (simp_all add: search_done_def search_rank_def search_pos_def)
  moreover have "tries n s s'" using s1(2) l by (simp add: next_ok_def tries_def tried_all_def tried_one_def)
  moreover have "repeat_run cfg t s = Inr s'" using s1(1) s'(1) by (simp add: repeat_run_def)
  ultimately show ?thesis
    using s1(2,3) s'(2) l(1,5) u m by (auto simp: next_ok_def)
qed

text \<open>A sequence of runs, with the levels and the time of each.\<close>

primrec repeat_runs :: "hex_config \<Rightarrow> double list \<Rightarrow> level_state \<Rightarrow> (level_state \<times> (int option list \<times> double) list) res" where
  "repeat_runs cfg [] s = Inr (s, [])"
| "repeat_runs cfg (t # ts) s =
     bindE (repeat_run cfg t s) (\<lambda>s1.
     bindE (repeat_runs cfg ts s1) (\<lambda>(s2, hist).
       Inr (s2, (take (currentExprNum s1) (currentExprJITLevels s1), t) # hist)))"

text \<open>
  The first execution of a statement: its \<open>n\<close> expressions are registered with level 0 and the
  time is recorded.
\<close>

definition first_run :: "hex_config \<Rightarrow> string \<Rightarrow> nat \<Rightarrow> double \<Rightarrow> level_state \<Rightarrow> level_state res" where
  "first_run cfg query_string n totaltime s =
     explain_update totaltime ((new_statement cfg query_string s)\<lparr>currentExprNum := n\<rparr>)"

lemma first_run_ok:
  assumes n: "n \<le> EXPR_MAX_NUM" and t: "0 < t"
  shows "\<exists>s'. first_run cfg q n t s = Inr s' \<and> rest_inv n s' \<and> currentLevelsCount s' = 0 \<and> min_total_time s' = t \<and>
    take n (bestJITLevels s') = replicate n (Some 0) \<and> currentStatementExecNum s' = 0 \<and> Reserved3 s' = 0"
proof -
  let ?s = "(new_statement cfg q s)\<lparr>currentExprNum := n\<rparr>"
  have inv: "search_inv n ?s"
    using n by (auto simp: search_inv_def base_inv_def new_statement_def levels_ok_def in_range_def)
  have z: "min_total_time ?s = 0" by (simp add: new_statement_def)
  from explain_update_ok [OF inv t] z obtain s' where s': "explain_update t ?s = Inr s'" "rest_inv n s'" by auto
  from explain_update_best [OF inv t _ _ s'(1)] z s' show ?thesis
    using n by (auto simp: first_run_def local_ok_def) (simp_all add: new_statement_def min_def)
qed

text \<open>The states a repeated statement goes through, one run after the other.\<close>

inductive search_reach :: "hex_config \<Rightarrow> level_state \<Rightarrow> level_state \<Rightarrow> bool" for cfg s0 where
  start: "search_reach cfg s0 s0"
| run: "search_reach cfg s0 s \<Longrightarrow> 0 < t \<Longrightarrow> repeat_run cfg t s = Inr s' \<Longrightarrow> search_reach cfg s0 s'"

inductive_cases search_reachE: "search_reach cfg s0 s"

lemma search_reach_inv:
  assumes "search_reach cfg s0 s" and "rest_inv n s0" and "0 \<le> currentLevelsCount s0"
    and "enableQuartet cfg" and "0 \<le> Reserved1 cfg"
  shows "rest_inv n s \<and> 0 \<le> currentLevelsCount s"
  using assms
proof (induction rule: search_reach.induct)
  case (run s t s')
  then show ?case using repeat_run_ok [of n s cfg t] by auto
qed simp

text \<open>A statement with \<open>n\<close> expressions after its first execution.\<close>

definition search_start :: "hex_config \<Rightarrow> nat \<Rightarrow> level_state \<Rightarrow> bool" where
  "search_start cfg n s0 =
     (n \<le> EXPR_MAX_NUM \<and> (\<exists>q t s. 0 < t \<and> first_run cfg q n t s = Inr s0))"

lemma search_startD:
  assumes "search_start cfg n s0"
  shows "rest_inv n s0" "currentLevelsCount s0 = 0" "currentStatementExecNum s0 = 0" "Reserved3 s0 = 0"
proof -
  from assms obtain q t s where "0 < t" "first_run cfg q n t s = Inr s0" "n \<le> EXPR_MAX_NUM"
    by (auto simp: search_start_def)
  with first_run_ok [of n t cfg q s] show "rest_inv n s0" "currentLevelsCount s0 = 0"
    "currentStatementExecNum s0 = 0" "Reserved3 s0 = 0" by auto
qed

lemma repeat_runs_ok:
  assumes "rest_inv n s" and "0 \<le> currentLevelsCount s" and c: "enableQuartet cfg" "0 \<le> Reserved1 cfg"
    and "\<forall>t \<in> set ts. 0 < t"
  shows "\<exists>s' hist. repeat_runs cfg ts s = Inr (s', hist) \<and> rest_inv n s' \<and> map snd hist = ts \<and>
    (search_done n s \<or> search_rank cfg n s \<le> length ts \<longrightarrow> search_done n s') \<and>
    tried_in n s s' (fst ` set hist) \<and>
    min_total_time s' = Min (set (min_total_time s # ts)) \<and>
    (take n (bestJITLevels s'), min_total_time s') \<in> set ((take n (bestJITLevels s), min_total_time s) # hist)"
  using assms
proof (induction ts arbitrary: s)
  case Nil
  then show ?case by (auto simp: search_rank_def search_done_def search_pos_def rest_inv_def search_inv_def base_inv_def
        opt3_phase_def tried_in_def split: if_splits)
next
  case (Cons t ts)
  then have t: "0 < t" by simp
  obtain s1 where s1: "repeat_run cfg t s = Inr s1" "rest_inv n s1" "0 \<le> currentLevelsCount s1"
    "if search_done n s then search_done n s1 else search_rank cfg n s1 < search_rank cfg n s" "tries n s s1"
    "(min_total_time s1, take n (bestJITLevels s1)) =
      (if t < min_total_time s then (t, take n (currentExprJITLevels s1))
       else (min_total_time s, take n (bestJITLevels s)))"
    using repeat_run_ok [OF Cons.prems(1) c Cons.prems(2) t] by blast
  from Cons.IH [OF s1(2,3) c] Cons.prems(5) obtain s2 hist where
    s2: "repeat_runs cfg ts s1 = Inr (s2, hist)" "rest_inv n s2" "map snd hist = ts"
    "search_done n s1 \<or> search_rank cfg n s1 \<le> length ts \<longrightarrow> search_done n s2"
    "tried_in n s1 s2 (fst ` set hist)"
    "min_total_time s2 = Min (set (min_total_time s1 # ts))"
    "(take n (bestJITLevels s2), min_total_time s2) \<in> set ((take n (bestJITLevels s1), min_total_time s1) # hist)"
    by auto
  have n1: "currentExprNum s1 = n" using s1(2) by (simp add: rest_inv_def search_inv_def base_inv_def)
  let ?h = "(take n (currentExprJITLevels s1), t) # hist"
  have h: "repeat_runs cfg (t # ts) s = Inr (s2, ?h)" using s1(1) s2(1) n1 by simp
  have "tried_in n s s2 (fst ` set ?h)" using tried_in_trans [OF tries_tried_in [OF s1(5)] s2(5)] by simp
  moreover have "min_total_time s1 = min (min_total_time s) t" using s1(6) by (simp add: min_def split: if_splits)
  then have "min_total_time s2 = Min (set (min_total_time s # t # ts))"
    using s2(6) by (cases "ts = []") (simp_all add: min.assoc)
  moreover have "search_done n s2" if "search_done n s \<or> search_rank cfg n s \<le> length (t # ts)"
    using that s1(4) s2(4) by (auto split: if_splits)
  moreover have "(take n (bestJITLevels s2), min_total_time s2) \<in> set ((take n (bestJITLevels s), min_total_time s) # ?h)"
    using s1(6) s2(7) by (auto split: if_splits)
  ultimately show ?case using h s2(2,3) by (intro exI [of _ s2] exI [of _ ?h]) simp
qed

lemma repeat_runs_reach:
  assumes "repeat_runs cfg ts s = Inr (s', hist)" and "\<forall>t \<in> set ts. 0 < t" and "search_reach cfg s0 s"
  shows "search_reach cfg s0 s'"
  using assms
proof (induction ts arbitrary: s hist)
  case (Cons t ts)
  from Cons.prems(1) obtain s1 hist' where
    1: "repeat_run cfg t s = Inr s1" "repeat_runs cfg ts s1 = Inr (s', hist')" by auto
  have "search_reach cfg s0 s1" using search_reach.run [OF Cons.prems(3) _ 1(1)] Cons.prems(2) by simp
  then show ?case using Cons.IH [OF 1(2)] Cons.prems(2) by simp
qed simp

section \<open>Properties\<close>


definition demo_cfg :: hex_config where
  "demo_cfg = \<lparr>testME = False, enableQuartet = True, enableExprCount = False, Reserved1 = 0\<rparr>"

lemma demo_quartet: "enableQuartet demo_cfg" "0 \<le> Reserved1 demo_cfg"
  by (simp_all add: demo_cfg_def)

definition demo_state :: level_state where
  "demo_state = \<lparr>currentStatement = None, min_total_time = 0, min_expr_time = 0, Reserved2 = 0, Reserved3 = 0,
     enableOPT3 = False, useTheBest = False, countExpr = False, currentExprNum = 0,
     currentExprJITLevels = [], bestJITLevels = [], bestCurrentJITLevels = [],
     currentStatementExecNum = 0, currentLevelsCount = 0\<rparr>"

lemma demo_start: "\<exists>s0. first_run demo_cfg ''select 1'' 2 5 demo_state = Inr s0 \<and> search_start demo_cfg 2 s0"
proof -
  obtain s0 where "first_run demo_cfg ''select 1'' 2 5 demo_state = Inr s0"
    using first_run_ok [of 2 5 demo_cfg "''select 1''" demo_state] by (auto simp: EXPR_MAX_NUM_def)
  moreover from this have "search_start demo_cfg 2 s0"
    unfolding search_start_def by (intro conjI exI) (simp_all add: EXPR_MAX_NUM_def)
  ultimately show ?thesis by blast
qed


text \<open>
  C9. The global best is the fastest run: after any sequence of runs, \<open>min_total_time\<close> is the
  smallest of all measured times, and \<open>bestJITLevels\<close> holds the levels of a run that took it. This is
  with \<open>enableQuartet\<close> on; without it a run may read an unset level.
\<close>

theorem level_search_best:
  assumes "enableQuartet cfg" and "0 \<le> Reserved1 cfg" and "search_start cfg n s0" and "\<forall>t \<in> set ts. 0 < t"
  shows "\<exists>s hist. repeat_runs cfg ts s0 = Inr (s, hist) \<and> map snd hist = ts \<and>
           min_total_time s = Min (set (min_total_time s0 # ts)) \<and>
           (take n (bestJITLevels s), min_total_time s) \<in> set ((take n (bestJITLevels s0), min_total_time s0) # hist)"
proof -
  note d = search_startD [OF assms(3)]
  from repeat_runs_ok [OF d(1) _ assms(1,2,4)] d(2) show ?thesis by auto
qed

theorem level_search_best_witness:
  "\<exists>s0 s hist. search_start demo_cfg 2 s0 \<and> repeat_runs demo_cfg [4, 2, 3] s0 = Inr (s, hist) \<and> map snd hist = [4, 2, 3] \<and>
     min_total_time s = Min (set (min_total_time s0 # [4, 2, 3])) \<and>
     (take 2 (bestJITLevels s), min_total_time s) \<in> set ((take 2 (bestJITLevels s0), min_total_time s0) # hist)"
proof -
  obtain s0 where s0: "search_start demo_cfg 2 s0" using demo_start by blast
  from level_search_best [OF demo_quartet this, of "[4, 2, 3]"] s0 show ?thesis by auto
qed

text \<open>
  C6. With \<open>enableQuartet\<close> on the search ends and has tried what it is to try: with \<open>n\<close> expressions and
  \<open>Reserved1\<close> repetitions of each combination, after at most \<open>(Reserved1 + 1) * (4 * n + 4) + Reserved1 + 1\<close>
  runs all phases are through. Among the runs are those with all expressions at level 0, at level 1
  and at level 2, and for each expression and each level from 1 to 3 the one in which only this
  expression has this level and the others have level 0. Other combinations are run only as far as
  the local and global best levels combine these.
\<close>

theorem level_search_terminates:
  assumes "enableQuartet cfg" and "0 \<le> Reserved1 cfg" and "search_start cfg n s0" and "\<forall>t \<in> set ts. 0 < t"
    and "(nat (Reserved1 cfg) + 1) * (4 * n + 4) + nat (Reserved1 cfg) + 1 \<le> length ts"
  shows "\<exists>s hist. repeat_runs cfg ts s0 = Inr (s, hist) \<and> search_done n s \<and>
    (\<forall>l \<in> {0, 1, 2}. replicate n (Some l) \<in> fst ` set hist) \<and>
    (\<forall>i < n. \<forall>l \<in> {1, 2, 3}. (replicate n (Some 0))[i := Some l] \<in> fst ` set hist)"
proof -
  note d = search_startD [OF assms(3)]
  have "search_rank cfg n s0 \<le> length ts"
    using assms(5) d by (simp add: search_rank_def search_pos_def algebra_simps)
  moreover obtain s hist where r: "repeat_runs cfg ts s0 = Inr (s, hist)" "rest_inv n s"
    "search_done n s0 \<or> search_rank cfg n s0 \<le> length ts \<longrightarrow> search_done n s" "tried_in n s0 s (fst ` set hist)"
    using repeat_runs_ok [OF d(1) eq_refl [OF d(2) [symmetric]] assms(1,2,4)] by blast
  ultimately have dn: "search_done n s" by simp
  have "base_inv n s" using r(2) by (simp add: rest_inv_def search_inv_def)
  then have "0 < currentStatementExecNum s" using dn by (auto simp: base_inv_def search_done_def less_le)
  then have a: "tried_all s l" if "l \<in> {0, 1, 2}" for l using dn that by (auto simp: tried_all_def search_done_def)
  have o: "tried_one n s i l" if "i < n" "l \<in> {1, 2, 3}" for i l
    using dn that by (auto simp: tried_one_def search_done_def)
  have z: "\<not> tried_all s0 l" "\<not> tried_one n s0 i l" for i l
    using d by (simp_all add: tried_all_def tried_one_def)
  show ?thesis
    using tried_inD(1) [OF r(4) _ a z(1)] tried_inD(2) [OF r(4) _ _ o z(2)] unfolding one_level_def
    by (intro exI [of _ s] exI [of _ hist] conjI ballI allI impI r(1) dn)
qed

theorem level_search_terminates_witness:
  "\<exists>s0 s hist. search_start demo_cfg 2 s0 \<and> repeat_runs demo_cfg (replicate 13 1) s0 = Inr (s, hist) \<and> search_done 2 s \<and>
    [Some 2, Some 2] \<in> fst ` set hist \<and> [Some 0, Some 1] \<in> fst ` set hist \<and> [Some 3, Some 0] \<in> fst ` set hist"
proof -
  obtain s0 where s0: "search_start demo_cfg 2 s0" using demo_start by blast
  have "(nat (Reserved1 demo_cfg) + 1) * (4 * 2 + 4) + nat (Reserved1 demo_cfg) + 1 \<le> length (replicate 13 (1 :: double))"
    by (simp add: demo_cfg_def)
  from level_search_terminates [OF demo_quartet s0 _ this] obtain s hist where
    r: "repeat_runs demo_cfg (replicate 13 1) s0 = Inr (s, hist)" "search_done 2 s"
    "\<forall>l \<in> {0, 1, 2}. replicate 2 (Some l) \<in> fst ` set hist"
    "\<forall>i < 2. \<forall>l \<in> {1, 2, 3}. (replicate 2 (Some 0))[i := Some l] \<in> fst ` set hist" by auto
  have "[Some 0, Some 1] \<in> fst ` set hist" "[Some 3, Some 0] \<in> fst ` set hist" "[Some 2, Some 2] \<in> fst ` set hist"
    using r(4) [rule_format, of 1 1] r(4) [rule_format, of 0 3] r(3) [rule_format, of 2] by (simp_all add: numeral_2_eq_2)
  with r(1,2) s0 show ?thesis by blast
qed

text \<open>
  C33. Once the search is over every new choice is the global best: the next levels are those in
  \<open>bestJITLevels\<close>, and the search stays over.
\<close>

theorem search_done_uses_best:
  assumes "enableQuartet cfg" and "0 \<le> Reserved1 cfg" and "search_start cfg n s0" and "search_reach cfg s0 s" and "search_done n s"
    and "Reserved1 cfg \<le> currentLevelsCount s"
  shows "\<exists>s'. next_levels cfg s = Inr s' \<and> take n (currentExprJITLevels s') = take n (bestJITLevels s) \<and>
           search_done n s'"
proof -
  note d = search_startD [OF assms(3)]
  have r: "rest_inv n s" and k: "0 \<le> currentLevelsCount s"
    using search_reach_inv [OF assms(4) d(1)] d assms(1,2) by auto
  then have inv: "search_inv n s" and best: "levels_ok n in_range (bestJITLevels s)" by (auto simp: rest_inv_def)
  have e: "0 < currentStatementExecNum s"
    using inv assms(5) by (auto simp: search_inv_def base_inv_def search_done_def less_le)
  define s1 where "s1 = s\<lparr>countExpr := False, currentStatementExecNum := currentStatementExecNum s + 1\<rparr>"
  have "search_inv n s1"
    using search_inv_counters [OF inv, where e = "currentStatementExecNum s + 1" and c = False and k = "currentLevelsCount s"] e
    by (simp add: s1_def)
  then obtain s2 where s2: "choice cfg s1 = Inr s2" "choice_ok n s1 s2"
    "take n (currentExprJITLevels s2) = take n (bestJITLevels s1)"
    using done_next [of n s1 cfg] assms(5) best by (auto simp: search_done_def s1_def)
  have "next_levels cfg s = bindE (choice cfg s1) (\<lambda>s2. Inr (s2\<lparr>currentLevelsCount := 0\<rparr>))"
    using assms(6) e by (simp add: next_levels_def Let_def choice_def bindE_assoc s1_def del: bindE_eq_Inr)
  with s2 assms(5) show ?thesis by (simp add: choice_ok_def s1_def)
qed

lemma demo_done: "\<exists>s0 s. search_start demo_cfg 2 s0 \<and> search_reach demo_cfg s0 s \<and> search_done 2 s \<and> 0 \<le> currentLevelsCount s"
proof -
  obtain s0 where s0: "search_start demo_cfg 2 s0" using demo_start by blast
  note d = search_startD [OF s0]
  let ?ts = "replicate 13 1 :: double list"
  have "search_rank demo_cfg 2 s0 \<le> length ?ts"
    using d by (simp add: search_rank_def search_pos_def) (simp add: demo_cfg_def)
  with repeat_runs_ok [OF d(1) _ demo_quartet, of ?ts] d(2) obtain s hist where
    "repeat_runs demo_cfg ?ts s0 = Inr (s, hist)" "search_done 2 s" by auto
  moreover from this(1) have "search_reach demo_cfg s0 s"
    by (rule repeat_runs_reach) (simp_all add: search_reach.start)
  ultimately show ?thesis using s0 search_reach_inv [of demo_cfg s0 s 2] d demo_quartet by auto
qed

theorem search_done_uses_best_witness:
  "\<exists>s0 s s'. search_start demo_cfg 2 s0 \<and> search_reach demo_cfg s0 s \<and> next_levels demo_cfg s = Inr s' \<and>
     take 2 (currentExprJITLevels s') = take 2 (bestJITLevels s) \<and> search_done 2 s'"
proof -
  obtain s0 s where "search_start demo_cfg 2 s0" "search_reach demo_cfg s0 s" "search_done 2 s" "0 \<le> currentLevelsCount s"
    using demo_done by blast
  with search_done_uses_best [OF demo_quartet, of 2 s0 s] show ?thesis by (auto simp: demo_cfg_def)
qed

text \<open>
  C34. The local search compares too little: when it loads the local best of the levels 0 to 2,
  every expression but the first has level 1 or 2, never 0; and when it loads the local best with
  level 3, every expression but the first has level 3. The recorded time is reset for each
  expression before its level 0 has been measured.
\<close>

theorem local_best_levels:
  assumes "enableQuartet cfg" and "0 \<le> Reserved1 cfg" and "search_start cfg n s0" and "search_reach cfg s0 s"
    and "next_levels cfg s = Inr s'" and "1 \<le> i" and "i < n"
  shows "(\<not> enableOPT3 s \<and> enableOPT3 s' \<longrightarrow> currentExprJITLevels s' ! i \<in> {Some 1, Some 2}) \<and>
         (enableOPT3 s \<and> \<not> enableOPT3 s' \<longrightarrow> currentExprJITLevels s' ! i = Some 3)"
proof -
  note d = search_startD [OF assms(3)]
  have "rest_inv n s" "0 \<le> currentLevelsCount s"
    using search_reach_inv [OF assms(4) d(1)] d assms(1,2) by auto
  from next_levels_ok [OF this(1) assms(1,2) this(2)] assms(5) have "next_ok cfg n s s'" by auto
  with assms(6,7) show ?thesis by (simp add: next_ok_def)
qed

text \<open>Eight runs of a statement with two expressions, all of which take equally long.\<close>

definition demo_run :: "(level_state \<times> (int option list \<times> double) list) res" where
  "demo_run = bindE (first_run demo_cfg ''select 1'' 2 5 demo_state) (repeat_runs demo_cfg (replicate 8 5))"

definition demo_next :: "(level_state \<times> level_state) res" where
  "demo_next = bindE demo_run (\<lambda>(s, _). bindE (next_levels demo_cfg s) (\<lambda>s'. Inr (s, s')))"

lemma demo_next_flags:
  "(case demo_next of Inl _ \<Rightarrow> False | Inr (s, s') \<Rightarrow> \<not> enableOPT3 s \<and> enableOPT3 s')"
  by code_simp

theorem local_best_levels_witness:
  "\<exists>s0 s s'. search_start demo_cfg 2 s0 \<and> search_reach demo_cfg s0 s \<and> next_levels demo_cfg s = Inr s' \<and>
     \<not> enableOPT3 s \<and> enableOPT3 s' \<and> currentExprJITLevels s' ! 1 \<in> {Some 1, Some 2}"
proof -
  obtain s0 where s0: "first_run demo_cfg ''select 1'' 2 5 demo_state = Inr s0" "search_start demo_cfg 2 s0"
    using demo_start by blast
  obtain s s' where "demo_next = Inr (s, s')" and f: "\<not> enableOPT3 s" "enableOPT3 s'"
    using demo_next_flags by (auto split: sum.splits)
  then obtain hist where h: "repeat_runs demo_cfg (replicate 8 5) s0 = Inr (s, hist)" "next_levels demo_cfg s = Inr s'"
    using s0(1) by (auto simp: demo_next_def demo_run_def)
  have "search_reach demo_cfg s0 s"
    by (rule repeat_runs_reach [OF h(1)]) (simp_all add: search_reach.start)
  with local_best_levels [OF demo_quartet s0(2) this h(2), of 1] f h(2) s0(2) show ?thesis by auto
qed

text \<open>
  A statement with one expression at level \<open>l\<close>, repeated \<open>e\<close> times without \<open>enableQuartet\<close>.
\<close>

definition quiet :: "int \<Rightarrow> int \<Rightarrow> level_state \<Rightarrow> bool" where
  "quiet l e s =
     (currentExprNum s = 1 \<and> Reserved2 s = 0 \<and> Reserved3 s = 0 \<and> \<not> enableOPT3 s \<and> \<not> useTheBest s \<and>
      length (currentExprJITLevels s) = EXPR_MAX_NUM \<and> length (bestJITLevels s) = EXPR_MAX_NUM \<and>
      bestCurrentJITLevels s = replicate EXPR_MAX_NUM None \<and> currentExprJITLevels s ! 0 = Some l \<and>
      currentStatementExecNum s = e \<and> 0 \<le> currentLevelsCount s)"

lemma EXPR_MAX_NUM_pos [simp]: "0 < EXPR_MAX_NUM" "Suc 0 \<le> EXPR_MAX_NUM" "EXPR_MAX_NUM \<noteq> 0"
  by (simp_all add: EXPR_MAX_NUM_def)

lemma explain_quiet:
  assumes "quiet l e s"
  shows "\<exists>s'. explain_update t s = Inr s' \<and> quiet l e s'"
proof -
  have "filled (currentExprJITLevels s) 1" using assms by (simp add: quiet_def filled_def)
  then have c: "copy_slots 1 (currentExprJITLevels s) (bestJITLevels s) =
      Inr (take 1 (currentExprJITLevels s) @ drop 1 (bestJITLevels s))"
    using assms by (intro copy_slots_ok) (simp_all add: quiet_def)
  have n: "currentExprNum s = 1" using assms by (simp add: quiet_def)
  show ?thesis
    using assms unfolding explain_update_def n c by (simp add: explain_local_def quiet_def)
qed

definition no_quartet :: "hex_config \<Rightarrow> bool" where
  "no_quartet cfg = (\<not> enableQuartet cfg \<and> Reserved1 cfg = 0)"

lemma repeat_quiet_first:
  assumes "quiet l 0 s"
  shows "\<exists>s'. repeat_run cfg t s = Inr s' \<and> quiet 0 1 s'"
proof -
  obtain s1 where "next_levels cfg s = Inr s1" "quiet 0 1 s1"
    using assms by (simp add: next_levels_def quiet_def set_all_levels_ok)
  then show ?thesis using explain_quiet by (auto simp: repeat_run_def)
qed

lemma repeat_quiet:
  assumes "quiet l e s" and "0 < e" and "l \<noteq> 2" and "no_quartet cfg"
  shows "\<exists>s'. repeat_run cfg t s = Inr s' \<and> quiet (l + 1) (e + 1) s'"
proof -
  obtain s1 where "next_levels cfg s = Inr s1" "quiet (l + 1) (e + 1) s1"
    using assms
    by (simp add: next_levels_def quiet_def no_quartet_def choose_levels_def plain_step_def set_level_ok apply_best_def)
  then show ?thesis using explain_quiet by (auto simp: repeat_run_def)
qed

lemma repeat_quiet_fault:
  assumes "quiet 2 e s" and "0 < e" and "no_quartet cfg"
  shows "repeat_run cfg t s = Inl UninitRead"
proof -
  have "copy_slots 1 (replicate EXPR_MAX_NUM None) xs = Inl UninitRead" if "length xs = EXPR_MAX_NUM" for xs :: "int option list"
    using that by (intro copy_slots_uninit [of 0]) (simp_all add: filled_def)
  then show ?thesis
    using assms
    by (simp add: repeat_run_def next_levels_def quiet_def no_quartet_def choose_levels_def plain_step_def
        set_level_ok apply_best_def load_levels_def del: One_nat_def)
qed

lemma first_quiet: "\<exists>s'. first_run cfg q 1 t s = Inr s' \<and> quiet 0 0 s'"
  unfolding first_run_def by (rule explain_quiet) (simp add: quiet_def new_statement_def)

text \<open>
  C35. Without \<open>enableQuartet\<close> the local best levels are never recorded, since \<open>Reserved3\<close> stays
  0, and the search reads them uninitialised: a statement with one expression faults when it is
  repeated for the fourth time, whatever the times are.
\<close>

theorem level_search_uninit:
  assumes "no_quartet cfg"
  shows "bindE (first_run cfg q 1 t0 s) (repeat_runs cfg [t1, t2, t3, t4]) = Inl UninitRead"
proof -
  obtain s0 where "first_run cfg q 1 t0 s = Inr s0" "quiet 0 0 s0" using first_quiet by blast
  moreover from repeat_quiet_first [OF this(2)] obtain s1 where "repeat_run cfg t1 s0 = Inr s1" "quiet 0 1 s1" by blast
  moreover from repeat_quiet [OF this(2) _ _ assms] obtain s2 where "repeat_run cfg t2 s1 = Inr s2" "quiet 1 2 s2" by auto
  moreover from repeat_quiet [OF this(2) _ _ assms] obtain s3 where "repeat_run cfg t3 s2 = Inr s3" "quiet 2 3 s3" by auto
  moreover from repeat_quiet_fault [OF this(2) _ assms] have "repeat_run cfg t4 s3 = Inl UninitRead" by simp
  ultimately show ?thesis by simp
qed

theorem level_search_uninit_witness:
  "bindE (first_run \<lparr>testME = False, enableQuartet = False, enableExprCount = True, Reserved1 = 0\<rparr> ''select 1'' 1 5 demo_state)
     (repeat_runs \<lparr>testME = False, enableQuartet = False, enableExprCount = True, Reserved1 = 0\<rparr> [4, 3, 2, 1]) = Inl UninitRead"
  by (rule level_search_uninit) (simp add: no_quartet_def)

end
