(* ===== verification/LevelsFile.thy ===== *)
theory LevelsFile
  imports JitLevels
begin

text \<open>
  The levels file: with \<open>testME\<close> set, \<open>exec_simple_query\<close> (\<open>src/backend/tcop/postgres.c\<close>) reads the
  JIT levels of a recognised query from a file of lines \<open>database,query,level,level,...\<close>; and the
  prologue of \<open>exec_simple_query\<close> that combines the classification of the statement, the search
  and the file.

  The lemmas show that reading any file stays inside the level array and keeps all levels
  between 0 and 3, and that a line written for a query is read back.
\<close>

section \<open>Definitions\<close>

text \<open>
  The conversion of \<open>strtol\<close>'s result, a \<open>long\<close> that is clamped on overflow, to \<open>int\<close>.
\<close>

definition clamp_long :: "int \<Rightarrow> int" where
  "clamp_long v = max (- (2 ^ 63)) (min (2 ^ 63 - 1) v)"

definition to_int32 :: "int \<Rightarrow> int" where
  "to_int32 v = (v + 2 ^ 31) mod 2 ^ 32 - 2 ^ 31"

definition strtol_int :: "string \<Rightarrow> int \<times> string" where
  "strtol_int s = (let (v, endptr) = strtol s in (to_int32 (clamp_long v), endptr))"

text \<open>
  The loop over the tokens of a line. \<open>matched\<close> is the flag \<open>match\<close>, which the code does not
  set back to true for a new line.
\<close>

function level_tokens ::
  "string \<Rightarrow> int \<Rightarrow> nat \<Rightarrow> string \<Rightarrow> bool \<Rightarrow> int option list \<Rightarrow> (bool \<times> int option list) res" where
  "level_tokens db query_id token_num rest matched levels =
     (case strtok rest '','' of
        None \<Rightarrow> Inr (matched, levels)
      | Some (token0, rest') \<Rightarrow>
          let token = dropWhile isspace token0
          in if token_num = 1 then
               (if \<not> strcaseeq db token then Inr (False, levels)
                else level_tokens db query_id (token_num + 1) rest' matched levels)
             else
               (let (value, endptr) = strtol_int (trim_token token)
                in if endptr = [] then
                     (if token_num = 2 then
                        (if query_id \<noteq> value then Inr (False, levels)
                         else level_tokens db query_id (token_num + 1) rest' matched levels)
                      else if token_num - 2 \<le> EXPR_MAX_NUM then
                        (if value < 0 \<or> value > 3 then Inr (False, levels)
                         else bindE (write_slot levels (token_num - 3) value) (\<lambda>levels'.
                                level_tokens db query_id (token_num + 1) rest' matched levels'))
                      else Inr (False, levels))
                   else level_tokens db query_id (token_num + 1) rest' False levels))"
  by pat_completeness auto

termination
  by (relation "measure (\<lambda>(db, q, k, rest, m, l). length rest)") (auto dest: strtok_shorter)

declare level_tokens.simps [simp del]

definition LEVELS_LINE_SIZE :: nat where
  "LEVELS_LINE_SIZE = 1024"

function levels_lines ::
  "string \<Rightarrow> int \<Rightarrow> bool \<Rightarrow> int option list \<Rightarrow> string \<Rightarrow> int option list res" where
  "levels_lines db query_id matched levels file =
     (case fgets LEVELS_LINE_SIZE file of
        None \<Rightarrow> Inr levels
      | Some (line, rest) \<Rightarrow>
          bindE (level_tokens db query_id 1 (cstring line) matched levels) (\<lambda>(matched', levels').
            if matched' then Inr levels' else levels_lines db query_id matched' levels' rest))"
  by pat_completeness auto

termination
  by (relation "measure (\<lambda>(db, q, m, l, file). length file)") (auto dest: fgets_shorter)

declare levels_lines.simps [simp del]

text \<open>\<open>file = None\<close> when the file cannot be opened; the code then reads from the null stream.\<close>

definition read_levels_file :: "string \<Rightarrow> string \<Rightarrow> string option \<Rightarrow> level_state \<Rightarrow> level_state res" where
  "read_levels_file databaseName query_string file s =
     (case file of
        None \<Rightarrow> Inl NullDeref
      | Some f \<Rightarrow>
          bindE (levels_lines databaseName (identify_query query_string) True (currentExprJITLevels s) f)
            (\<lambda>l. Inr (s\<lparr>currentExprJITLevels := l\<rparr>)))"

text \<open>
  The part of \<open>exec_simple_query\<close> before the statement runs: the new value of \<open>containExpr\<close>, the
  operator array, which is allocated for statements with expressions, and the level state.
\<close>

definition has_expr :: "string \<Rightarrow> bool" where
  "has_expr query_string = (let type_id = getSqlStatementType True query_string in 1 \<le> type_id \<and> type_id \<le> 4)"

definition set_levels :: "hex_config \<Rightarrow> string \<Rightarrow> string option \<Rightarrow> string \<Rightarrow> level_state \<Rightarrow> level_state res" where
  "set_levels cfg databaseName levels_file query_string s =
     bindE (case currentStatement s of
              None \<Rightarrow> Inr (new_statement cfg query_string s)
            | Some old \<Rightarrow>
                if \<not> strcaseeq old query_string then Inr (new_statement cfg query_string s)
                else if \<not> testME cfg then next_levels cfg s
                else Inr s) (\<lambda>s1.
       if testME cfg then read_levels_file databaseName query_string levels_file s1 else Inr s1)"

definition exec_simple_query_prologue ::
  "bool \<Rightarrow> hex_config \<Rightarrow> string \<Rightarrow> string option \<Rightarrow> string \<Rightarrow> op_table \<times> level_state \<Rightarrow>
   (bool \<times> op_table \<times> level_state) res" where
  "exec_simple_query_prologue enableME cfg databaseName levels_file query_string st =
     (case st of (ops, s) \<Rightarrow>
        let containExpr = has_expr query_string;
            ops' = (if containExpr then new_op_table else ops)
        in bindE (if enableME then set_levels cfg databaseName levels_file query_string s else Inr s) (\<lambda>s'.
             Inr (containExpr, ops', s')))"

section \<open>Reading stays in bounds\<close>

lemma level_tokens_safe:
  "levels_ok EXPR_MAX_NUM in_range levels \<Longrightarrow> 1 \<le> token_num \<Longrightarrow>
   \<exists>m l. level_tokens db q token_num rest matched levels = Inr (m, l) \<and> levels_ok EXPR_MAX_NUM in_range l"
proof (induction db q token_num rest matched levels rule: level_tokens.induct)
  case (1 db q token_num rest matched levels)
  show ?case
  proof (cases "strtok rest '',''")
    case None
    then show ?thesis using "1.prems" by (subst level_tokens.simps) simp
  next
    case (Some p)
    obtain token0 rest' where p: "p = (token0, rest')" by fastforce
    obtain v e where v: "strtol_int (trim_token (dropWhile isspace token0)) = (v, e)" by fastforce
    note IH = "1.IH" [OF Some [unfolded p] refl refl]
    have len: "length levels = EXPR_MAX_NUM" using "1.prems"(1) by (rule levels_ok_length)
    consider "token_num = 1" | "token_num = 2" | "3 \<le> token_num" using "1.prems"(2) by linarith
    then show ?thesis
    proof cases
      case 1
      then show ?thesis
        using IH(1) "1.prems" by (subst level_tokens.simps) (auto simp: Some p)
    next
      case 2
      then show ?thesis
        using IH(2) [OF _ v [symmetric]] IH(4) [OF _ v [symmetric]] "1.prems"
        by (subst level_tokens.simps) (auto simp: Some p v)
    next
      case 3
      have u: "levels_ok EXPR_MAX_NUM in_range (levels[token_num - 3 := Some v])" if "\<not> (v < 0 \<or> v > 3)"
        using that by (intro levels_ok_update [OF "1.prems"(1)]) (simp add: in_range_def)
      show ?thesis
        using 3 IH(3) [OF _ v [symmetric] refl, of "levels[token_num - 3 := Some v]"] IH(4) [OF _ v [symmetric] refl]
          "1.prems" len u
        by (subst level_tokens.simps) (auto simp: Some p v)
    qed
  qed
qed

lemma levels_lines_safe:
  "levels_ok EXPR_MAX_NUM in_range levels \<Longrightarrow>
   \<exists>l. levels_lines db q matched levels fl = Inr l \<and> levels_ok EXPR_MAX_NUM in_range l"
proof (induction db q matched levels fl rule: levels_lines.induct)
  case (1 db q matched levels fl)
  show ?case
  proof (cases "fgets LEVELS_LINE_SIZE fl")
    case None
    then show ?thesis using "1.prems" by (subst levels_lines.simps) simp
  next
    case (Some p)
    obtain line rest where p: "p = (line, rest)" by fastforce
    obtain m l where ml: "level_tokens db q 1 (cstring line) matched levels = Inr (m, l)"
      "levels_ok EXPR_MAX_NUM in_range l"
      using level_tokens_safe [OF "1.prems", of 1 db q "cstring line" matched] by auto
    then show ?thesis
      using "1.IH" [OF Some p [symmetric], of "(m, l)" m l]
      by (subst levels_lines.simps) (cases m; auto simp: Some p)
  qed
qed

section \<open>A line is read back\<close>

lemma digits_acc_append:
  "\<forall>c \<in> set s. isdigit c \<Longrightarrow> digits_acc acc (s @ r) = digits_acc (fst (digits_acc acc s)) r"
  by (induction s arbitrary: acc) auto

lemma digit_val_char: "d < 10 \<Longrightarrow> digit_val (digit_char d) = int d"
  by (simp add: digit_val_def of_char_digit_char)

lemma digits_acc_show_nat: "digits_acc 0 (show_nat n) = (int n, [])"
proof (induction n rule: show_nat.induct)
  case (1 n)
  show ?case
  proof (cases "n < 10")
    case True
    then show ?thesis by (subst show_nat.simps) (simp add: isdigit_digit_char digit_val_char)
  next
    case False
    have "digits_acc (int (n div 10)) [digit_char (n mod 10)] = (int (n div 10) * 10 + int (n mod 10), [])"
      by (simp add: isdigit_digit_char digit_val_char)
    moreover have "int (n div 10) * 10 + int (n mod 10) = int n"
      by (metis div_mult_mod_eq of_nat_add of_nat_mult of_nat_numeral)
    ultimately show ?thesis
      using False 1 digits_acc_append [OF show_nat_digits, of 0 "n div 10" "[digit_char (n mod 10)]"]
      by (subst show_nat.simps) simp
  qed
qed

lemma isdigit_not: "isdigit c \<Longrightarrow> \<not> isspace c \<and> c \<noteq> CHR ''-'' \<and> c \<noteq> CHR ''+'' \<and> c \<noteq> CHR '',''"
  by (auto simp: isdigit_def isspace_def Let_def)

lemma show_nat_hd: "isdigit (hd (show_nat n))"
  using show_nat_digits [of n] show_nat_nonempty [of n] by simp

lemma strtol_show_nat: "strtol (show_nat n) = (int n, [])"
proof -
  have "dropWhile isspace (show_nat n) = show_nat n"
    using show_nat_hd [of n] isdigit_not show_nat_nonempty [of n] by (simp add: dropWhile_eq_self_iff)
  then show ?thesis
    using show_nat_hd [of n] isdigit_not [OF show_nat_hd, of n] show_nat_nonempty [of n]
    by (simp add: strtol_def Let_def digits_acc_show_nat)
qed

lemma strtol_int_show: "0 \<le> n \<Longrightarrow> n < 2 ^ 31 \<Longrightarrow> strtol_int (show_int n) = (n, [])"
  by (simp add: strtol_int_def show_int_def strtol_show_nat clamp_long_def to_int32_def)

lemma trim_show_int: "0 \<le> n \<Longrightarrow> trim_token (show_int n) = show_int n"
  "0 \<le> n \<Longrightarrow> trim_token (show_int n @ [newline]) = show_int n"
  using trim_token_space [of "show_int n" "[]"] trim_token_space [of "show_int n" "[newline]"]
    show_nat_nonempty [of "nat n"] show_nat_digits [of "nat n"] isdigit_not newline_not(3)
  by (auto simp: show_int_def)

lemma dropWhile_show_int: "0 \<le> n \<Longrightarrow> dropWhile isspace (show_int n @ r) = show_int n @ r"
  using show_nat_hd [of "nat n"] isdigit_not show_nat_nonempty [of "nat n"]
  by (simp add: show_int_def dropWhile_eq_self_iff)

text \<open>The text of the levels \<open>ls\<close> behind the query number, with its last newline.\<close>

primrec levels_text :: "int list \<Rightarrow> string" where
  "levels_text [] = [newline]"
| "levels_text (l # ls) = CHR '','' # show_int l @ levels_text ls"

definition levels_line :: "string \<Rightarrow> int \<Rightarrow> int list \<Rightarrow> string" where
  "levels_line db query_id ls = db @ CHR '','' # show_int query_id @ levels_text ls"

primrec put_levels :: "nat \<Rightarrow> int list \<Rightarrow> int option list \<Rightarrow> int option list" where
  "put_levels k [] xs = xs"
| "put_levels k (l # ls) xs = put_levels (Suc k) ls (xs[k := Some l])"

lemma put_levels_eq:
  "k + length ls \<le> length xs \<Longrightarrow> put_levels k ls xs = take k xs @ map Some ls @ drop (k + length ls) xs"
proof (induction ls arbitrary: k xs)
  case (Cons l ls)
  then have "take (Suc k) (xs[k := Some l]) = take k xs @ [Some l]"
    by (simp add: take_Suc_conv_app_nth)
  with Cons show ?case by simp
qed simp

lemma show_int_comma: "0 \<le> n \<Longrightarrow> \<forall>c \<in> set (show_int n). c \<notin> set '',''"
  using show_nat_digits [of "nat n"] isdigit_not by (auto simp: show_int_def)

lemma show_int_ne: "0 \<le> n \<Longrightarrow> show_int n \<noteq> []"
  using show_nat_nonempty [of "nat n"] by (simp add: show_int_def)

text \<open>A number as a token, followed by a comma or by the end of the line.\<close>

lemma strtok_number:
  assumes "0 \<le> n"
  shows "strtok (show_int n @ CHR '','' # r) '','' = Some (show_int n, r)"
    and "strtok (show_int n @ [newline]) '','' = Some (show_int n @ [newline], [])"
proof -
  show "strtok (show_int n @ CHR '','' # r) '','' = Some (show_int n, r)"
    using show_int_ne [OF assms] show_int_comma [OF assms] by (intro strtok_token) simp_all
  have "newline \<noteq> CHR '',''" by (simp add: newline_eq)
  then show "strtok (show_int n @ [newline]) '','' = Some (show_int n @ [newline], [])"
    using show_int_comma [OF assms] by (intro strtok_last) auto
qed

lemma strtok_Nil: "strtok [] ds = None"
  by (simp add: strtok_def)

lemma level_tokens_levels:
  assumes "\<forall>l \<in> set (l # ls). 0 \<le> l \<and> l \<le> 3" and "3 \<le> k" and "k - 3 + length (l # ls) \<le> EXPR_MAX_NUM"
    and "length xs = EXPR_MAX_NUM"
  shows "level_tokens db q k (show_int l @ levels_text ls) m xs = Inr (m, put_levels (k - 3) (l # ls) xs)"
  using assms
proof (induction ls arbitrary: l k xs)
  case Nil
  then have l: "0 \<le> l" "l \<le> 3" by auto
  have "level_tokens db q (k + 1) [] m (xs[k - 3 := Some l]) = Inr (m, xs[k - 3 := Some l])"
    by (subst level_tokens.simps) (simp add: strtok_Nil)
  moreover have "k - 2 = Suc (k - 3)" using Nil.prems(2) by simp
  ultimately show ?case
    using Nil l dropWhile_show_int [OF l(1), of "[newline]"]
    by (subst level_tokens.simps)
      (simp add: strtok_number(2) trim_show_int strtol_int_show)
next
  case (Cons l' ls)
  then have l: "0 \<le> l" "l \<le> 3" by auto
  have "level_tokens db q (k + 1) (show_int l' @ levels_text ls) m (xs[k - 3 := Some l]) =
      Inr (m, put_levels (k + 1 - 3) (l' # ls) (xs[k - 3 := Some l]))"
    using Cons.prems by (intro Cons.IH) auto
  moreover have "k + 1 - 3 = Suc (k - 3)" "k - 2 = Suc (k - 3)" "Suc (k - 3) \<le> EXPR_MAX_NUM"
    using Cons.prems(2,3) by simp_all
  ultimately show ?case
    using Cons.prems l dropWhile_show_int [OF l(1), of "[]"]
    by (subst level_tokens.simps) (simp add: strtok_number(1) trim_show_int strtol_int_show)
qed

text \<open>Names of databases that survive the tokeniser.\<close>

definition plain_name :: "string \<Rightarrow> bool" where
  "plain_name db = (db \<noteq> [] \<and> list_all (\<lambda>c. c \<noteq> CHR '','' \<and> \<not> isspace c \<and> line_char c) db)"

lemma plain_nameD:
  assumes "plain_name db"
  shows "db \<noteq> []" "\<forall>c \<in> set db. c \<notin> set '',''" "dropWhile isspace db = db" "\<forall>c \<in> set db. line_char c"
  using assms by (auto simp: plain_name_def list_all_iff dropWhile_eq_self_iff)

lemma level_tokens_line:
  assumes db: "plain_name db" and q: "0 \<le> q" "q < 2 ^ 31" and ls: "\<forall>l \<in> set ls. 0 \<le> l \<and> l \<le> 3"
    and n: "length ls \<le> EXPR_MAX_NUM" "length xs = EXPR_MAX_NUM"
  shows "level_tokens db q 1 (levels_line db q ls) m xs = Inr (m, map Some ls @ drop (length ls) xs)"
proof -
  have 1: "strtok (levels_line db q ls) '','' = Some (db, show_int q @ levels_text ls)"
    unfolding levels_line_def using plain_nameD [OF db] by (intro strtok_token) auto
  have "level_tokens db q 2 (show_int q @ levels_text ls) m xs = Inr (m, map Some ls @ drop (length ls) xs)"
  proof (cases ls)
    case Nil
    have "level_tokens db q 3 [] m xs = Inr (m, xs)" by (subst level_tokens.simps) (simp add: strtok_Nil)
    then show ?thesis
      using Nil q dropWhile_show_int [OF q(1), of "[newline]"]
      by (subst level_tokens.simps) (simp add: strtok_number(2) trim_show_int strtol_int_show)
  next
    case (Cons l ls')
    have "level_tokens db q 3 (show_int l @ levels_text ls') m xs = Inr (m, put_levels 0 ls xs)"
      using level_tokens_levels [of l ls' 3 xs db q m] ls n Cons by simp
    then show ?thesis
      using Cons q dropWhile_show_int [OF q(1), of "[]"] put_levels_eq [of 0 ls xs] n
      by (subst level_tokens.simps) (simp add: strtok_number(1) trim_show_int strtol_int_show)
  qed
  then show ?thesis
    using plain_nameD(3) [OF db]
    by (subst level_tokens.simps) (simp add: 1 strcaseeq_refl numeral_2_eq_2)
qed

section \<open>Properties\<close>

text \<open>
  C38. Reading a levels file is safe: whatever the file holds, \<open>read_levels_file\<close> terminates,
  writes no level outside the array, and leaves only levels between 0 and 3.
\<close>

theorem read_levels_file_safe:
  assumes "levels_ok EXPR_MAX_NUM in_range (currentExprJITLevels s)"
  shows "\<exists>s'. read_levels_file databaseName query_string (Some contents) s = Inr s' \<and>
           levels_ok EXPR_MAX_NUM in_range (currentExprJITLevels s')"
proof -
  obtain l where "levels_lines databaseName (identify_query query_string) True (currentExprJITLevels s) contents = Inr l"
    "levels_ok EXPR_MAX_NUM in_range l"
    using levels_lines_safe [OF assms] by blast
  then show ?thesis by (simp add: read_levels_file_def)
qed

theorem read_levels_file_safe_witness:
  "\<exists>s'. read_levels_file ''tpch'' ''select 1'' (Some ''tpch,1,9,x'') (new_statement demo_cfg ''select 1'' demo_state) = Inr s' \<and>
     levels_ok EXPR_MAX_NUM in_range (currentExprJITLevels s')"
  by (rule read_levels_file_safe) (simp add: new_statement_def levels_ok_def in_range_def)

text \<open>
  A levels file whose first line is for the current database and query sets exactly the
  levels of that line: the first expressions get the listed levels and the others keep theirs.
\<close>

theorem read_levels_file_first_line:
  assumes "plain_name db" and "q = identify_query query_string" and "0 \<le> q" and "q < 2 ^ 31"
    and "\<forall>l \<in> set ls. 0 \<le> l \<and> l \<le> 3" and "length ls \<le> EXPR_MAX_NUM"
    and "length (currentExprJITLevels s) = EXPR_MAX_NUM" and "length (levels_line db q ls) < LEVELS_LINE_SIZE"
  shows "read_levels_file db query_string (Some (levels_line db q ls @ rest)) s =
         Inr (s\<lparr>currentExprJITLevels := map Some ls @ drop (length ls) (currentExprJITLevels s)\<rparr>)"
proof -
  have lt: "\<exists>b. levels_text xs = b @ [newline] \<and> (\<forall>c \<in> set b. line_char c)" if "\<forall>l \<in> set xs. 0 \<le> l" for xs
    using that
  proof (induction xs)
    case (Cons x xs)
    then obtain b where "levels_text xs = b @ [newline]" "\<forall>c \<in> set b. line_char c" by auto
    moreover have "line_char (CHR '','')" by code_simp
    ultimately show ?case
      using show_int_chars(2) [of x] Cons.prems
      by (intro exI [of _ "CHR '','' # show_int x @ b"]) auto
  qed simp
  obtain b where b: "levels_text ls = b @ [newline]" "\<forall>c \<in> set b. line_char c" using lt [of ls] assms(5) by auto
  let ?b = "db @ CHR '','' # show_int q @ b"
  have line: "levels_line db q ls = ?b @ [newline]" by (simp add: levels_line_def b(1))
  have "line_char (CHR '','')" by code_simp
  then have lc: "\<forall>c \<in> set ?b. line_char c"
    using plain_nameD(4) [OF assms(1)] show_int_chars(2) [OF assms(3)] b(2) by auto
  have f: "fgets LEVELS_LINE_SIZE (levels_line db q ls @ rest) = Some (levels_line db q ls, rest)"
    using fgets_line [OF lc, of LEVELS_LINE_SIZE rest] assms(8) line by simp
  have c: "cstring (levels_line db q ls) = levels_line db q ls" using cstring_line [OF lc] line by simp
  note t = level_tokens_line [OF assms(1,3,4,5,6,7), of True]
  have "levels_lines db q True (currentExprJITLevels s) (levels_line db q ls @ rest) =
      Inr (map Some ls @ drop (length ls) (currentExprJITLevels s))"
    using t by (subst levels_lines.simps) (simp add: f c)
  then show ?thesis by (simp add: read_levels_file_def flip: assms(2))
qed

theorem read_levels_file_first_line_witness:
  "read_levels_file ''tpch'' ''select o_orderpriority, count(*) as order_count''
     (Some (levels_line ''tpch'' 4 [1, 3] @ [])) (new_statement demo_cfg ''select 1'' demo_state) =
   Inr ((new_statement demo_cfg ''select 1'' demo_state)\<lparr>currentExprJITLevels :=
     map Some [1, 3] @ drop (length [1 :: int, 3]) (currentExprJITLevels (new_statement demo_cfg ''select 1'' demo_state))\<rparr>)"
proof (rule read_levels_file_first_line)
  show "plain_name ''tpch''" by code_simp
  show "4 = identify_query ''select o_orderpriority, count(*) as order_count''" by code_simp
  show "length (levels_line ''tpch'' 4 [1, 3]) < LEVELS_LINE_SIZE" by code_simp
qed (simp_all add: new_statement_def EXPR_MAX_NUM_def)

end
