(* ===== verification/JitCompile.thy ===== *)
theory JitCompile
  imports LevelsFile
begin

unbundle bit_operations_syntax

text \<open>
  Compiling an expression: \<open>src/backend/jit/jit.c\<close> with the hook that gives every expression its
  own JIT level, and the cached loading of the JIT provider.

  \<open>jit_compile_expr\<close> registers the step list of an expression in the expression table, looks the
  expression up in the list of the current statement (\<open>currentExprList\<close>), takes its level from
  \<open>currentExprJITLevels\<close> and turns it into the flags of the statement. The operator an expression
  belongs to is a pointer into the block \<open>currentSQLOpts\<close>, which is freed and allocated again for
  every statement; a pointer is therefore the address of a block and an index, and following it
  is a fault when the block is not the current one.

  The output of the hook (\<open>printf\<close>, \<^verbatim>\<open>/data/jit.csv\<close>) is left out. The provider's own
  \<open>compile_expr\<close> is a parameter.
\<close>

section \<open>Data\<close>

type_synonym op_ptr = "nat \<times> nat"

text \<open>\<open>struct ExprInfo\<close>, as the entries of \<open>currentSQLExprs\<close> are filled; \<open>next\<close> is left out.\<close>

record ExprInfo =
  ei_expression_id :: int
  ei_op :: "op_ptr option"
  ei_count :: int
  ei_step_lens :: nat
  ei_steps :: "int list"
  ei_hash :: "64 word"

text \<open>The members of \<open>ExprInfo\<close> that are set in the entries of \<open>currentExprList\<close>.\<close>

record expr_entry =
  ee_expression_id :: int
  ee_hash :: "64 word"
  ee_step_lens :: nat
  ee_op :: "op_ptr option"

record jit_globals =
  jit_enabled :: bool
  provider_successfully_loaded :: bool
  provider_failed_loading :: bool

record hex_state =
  expr_tab :: expr_table
  op_tab :: op_table
  opts_addr :: nat
  allExprInfoNum :: nat
  currentSQLExprs :: "ExprInfo option list"
  currentExprList :: "expr_entry option list"
  level_st :: level_state
  jit_glob :: jit_globals
  es_jit_flags :: "32 word"

text \<open>
  \<open>es_jit_flags\<close> is the member of the \<open>EState\<close> of the running statement, which all its plan nodes share.
  The members of the parent plan state the hook uses are the following.
\<close>

record PlanState =
  ps_plan :: "plan_info option"
  ps_jit_level :: int
  ps_list_index :: nat

definition PGJIT_PERFORM :: "32 word" where "PGJIT_PERFORM = push_bit 0 1"
definition PGJIT_OPT3 :: "32 word" where "PGJIT_OPT3 = push_bit 1 1"
definition PGJIT_INLINE :: "32 word" where "PGJIT_INLINE = push_bit 2 1"
definition PGJIT_EXPR :: "32 word" where "PGJIT_EXPR = push_bit 3 1"
definition PGJIT_DEFORM :: "32 word" where "PGJIT_DEFORM = push_bit 4 1"

section \<open>The provider\<close>

text \<open>
  What \<open>stat\<close> says about the library, and whether loading it works. A result of \<open>None\<close> is an
  error raised with \<open>ereport\<close>; the globals are those at that moment.
\<close>

datatype stat_result = Stat_file | Stat_dir | Stat_missing | Stat_error

record provider_env =
  pe_stat :: stat_result
  pe_load_ok :: bool

definition file_exists :: "stat_result \<Rightarrow> bool option" where
  "file_exists r =
     (case r of Stat_file \<Rightarrow> Some True | Stat_dir \<Rightarrow> Some False | Stat_missing \<Rightarrow> Some False | Stat_error \<Rightarrow> None)"

definition provider_init :: "provider_env \<Rightarrow> jit_globals \<Rightarrow> jit_globals \<times> bool option" where
  "provider_init env g =
     (if \<not> jit_enabled g then (g, Some False)
      else if provider_failed_loading g then (g, Some False)
      else if provider_successfully_loaded g then (g, Some True)
      else
        (case file_exists (pe_stat env) of
           None \<Rightarrow> (g, None)
         | Some False \<Rightarrow> (g\<lparr>provider_failed_loading := True\<rparr>, Some False)
         | Some True \<Rightarrow>
             let g1 = g\<lparr>provider_failed_loading := True\<rparr>
             in if \<not> pe_load_ok env then (g1, None)
                else (g1\<lparr>provider_successfully_loaded := True, provider_failed_loading := False\<rparr>, Some True)))"

text \<open>\<open>jit_reset_after_error\<close> and \<open>jit_release_context\<close> call the provider only when it is loaded.\<close>

definition jit_reset_after_error :: "(unit \<Rightarrow> 'w \<Rightarrow> 'w) \<Rightarrow> jit_globals \<Rightarrow> 'w \<Rightarrow> 'w" where
  "jit_reset_after_error reset_after_error g w =
     (if provider_successfully_loaded g then reset_after_error () w else w)"

record JitInstrumentation =
  ji_created_functions :: nat
  ji_generation_counter :: double
  ji_inlining_counter :: double
  ji_optimization_counter :: double
  ji_emission_counter :: double

definition InstrJitAgg :: "JitInstrumentation \<Rightarrow> JitInstrumentation \<Rightarrow> JitInstrumentation" where
  "InstrJitAgg dst add =
     \<lparr>ji_created_functions = ji_created_functions dst + ji_created_functions add,
      ji_generation_counter = ji_generation_counter dst + ji_generation_counter add,
      ji_inlining_counter = ji_inlining_counter dst + ji_inlining_counter add,
      ji_optimization_counter = ji_optimization_counter dst + ji_optimization_counter add,
      ji_emission_counter = ji_emission_counter dst + ji_emission_counter add\<rparr>"

section \<open>The hook\<close>

definition deref_op :: "hex_state \<Rightarrow> op_ptr \<Rightarrow> OperatorInfo res" where
  "deref_op st p = (if fst p \<noteq> opts_addr st then Inl UseAfterFree else read_slot (currentSQLOpts (op_tab st)) (snd p))"

text \<open>The search of both lists: the first slot whose test succeeds, or \<open>n\<close>.\<close>

function slot_search :: "'a option list \<Rightarrow> ('a \<Rightarrow> bool res) \<Rightarrow> nat \<Rightarrow> nat \<Rightarrow> (bool \<times> nat) res" where
  "slot_search xs P n i =
     (if i < n then
        bindE (read_slot xs i) (\<lambda>e.
        bindE (P e) (\<lambda>b. if b then Inr (True, i) else slot_search xs P n (Suc i)))
      else Inr (False, i))"
  by pat_completeness auto

termination
  by (relation "measure (\<lambda>(xs, P, n, i). n - i)") auto

declare slot_search.simps [simp del]

definition sql_expr_match :: "hex_state \<Rightarrow> plan_info \<Rightarrow> 64 word \<Rightarrow> nat \<Rightarrow> ExprInfo \<Rightarrow> bool res" where
  "sql_expr_match st pl eHash len e =
     (if ei_hash e = eHash \<and> ei_step_lens e = len then
        (case ei_op e of
           Some p \<Rightarrow> bindE (deref_op st p) (\<lambda>opt. Inr (same_plan pl opt))
         | None \<Rightarrow> Inr (pl_type pl = 0))
      else Inr False)"

definition expr_list_match :: "hex_state \<Rightarrow> plan_info \<Rightarrow> int \<Rightarrow> 64 word \<Rightarrow> nat \<Rightarrow> expr_entry \<Rightarrow> bool res" where
  "expr_list_match st pl expressionId eHash len e =
     (if ee_expression_id e = expressionId \<and> ee_hash e = eHash \<and> ee_step_lens e = len then
        (case ee_op e of
           Some p \<Rightarrow> bindE (deref_op st p) (\<lambda>opt. Inr (same_plan pl opt))
         | None \<Rightarrow> Inr (pl_plan_node_id pl = 0 \<and> pl_type pl = 0))
      else Inr False)"

definition find_op_ptr :: "hex_state \<Rightarrow> plan_info \<Rightarrow> op_ptr option res" where
  "find_op_ptr st pl =
     bindE (findOperatorInfo (op_tab st) (pl_plan_node_id pl) (pl_type pl) (pl_startup_cost pl) (pl_total_cost pl))
       (\<lambda>r. Inr (map_option (Pair (opts_addr st)) r))"

text \<open>The entry of \<open>currentSQLExprs\<close>, which counts evaluations.\<close>

definition record_sql_expr :: "plan_info \<Rightarrow> int \<Rightarrow> int list \<Rightarrow> hex_state \<Rightarrow> hex_state res" where
  "record_sql_expr pl expressionId eeop_steps st =
     (let eHash = calculate_hash eeop_steps; len = length eeop_steps
      in bindE (slot_search (currentSQLExprs st) (sql_expr_match st pl eHash len) (allExprInfoNum st) 0)
           (\<lambda>(found_expr_info, expr_info_index).
              if found_expr_info then Inr st
              else if len > EXPR_SIZE then Inl OutOfBounds
              else
                bindE (find_op_ptr st pl) (\<lambda>opt.
                bindE (write_slot (currentSQLExprs st) expr_info_index
                  \<lparr>ei_expression_id = expressionId, ei_op = opt, ei_count = 0, ei_step_lens = len,
                   ei_steps = eeop_steps, ei_hash = eHash\<rparr>) (\<lambda>xs.
                  Inr (st\<lparr>currentSQLExprs := xs, allExprInfoNum := allExprInfoNum st + 1\<rparr>)))))"

text \<open>The index of the expression in \<open>currentExprList\<close>, where it is appended when it is new.\<close>

definition expr_list_index :: "bool \<Rightarrow> plan_info \<Rightarrow> int \<Rightarrow> int list \<Rightarrow> hex_state \<Rightarrow> (hex_state \<times> nat) res" where
  "expr_list_index test_me pl expressionId eeop_steps st =
     (let eHash = calculate_hash eeop_steps; len = length eeop_steps; n = currentExprNum (level_st st)
      in bindE (slot_search (currentExprList st) (expr_list_match st pl expressionId eHash len) n 0)
           (\<lambda>(found_expr, j).
              if found_expr then Inr (st, j)
              else
                bindE (find_op_ptr st pl) (\<lambda>opt.
                bindE (write_slot (currentExprList st) n
                  \<lparr>ee_expression_id = expressionId, ee_hash = eHash, ee_step_lens = len, ee_op = opt\<rparr>) (\<lambda>xs.
                bindE (if test_me then Inr (currentExprJITLevels (level_st st))
                       else write_slot (currentExprJITLevels (level_st st)) n 0) (\<lambda>ls.
                  Inr (st\<lparr>currentExprList := xs,
                          level_st := (level_st st)\<lparr>currentExprJITLevels := ls, currentExprNum := n + 1\<rparr>\<rparr>, n))))))"

definition level_flags :: "int \<Rightarrow> 32 word \<Rightarrow> 32 word" where
  "level_flags current_jit_level flags =
     (let f1 = flags OR (PGJIT_PERFORM OR PGJIT_EXPR);
          f2 = (if current_jit_level \<ge> 2 then f1 OR PGJIT_INLINE else f1)
      in if current_jit_level = 3 then f2 OR PGJIT_OPT3 else f2)"

text \<open>The hook: the updated states, and whether the expression may be compiled.\<close>

definition jit_hook ::
  "bool \<Rightarrow> bool \<Rightarrow> int list \<Rightarrow> PlanState \<Rightarrow> hex_state \<Rightarrow> (hex_state \<times> PlanState \<times> bool) res" where
  "jit_hook test_me fopen_ok eeop_steps ps0 st =
     (let ps = ps0\<lparr>ps_jit_level := 0\<rparr>
      in bindE (add_expression fopen_ok (expr_tab st) eeop_steps) (\<lambda>(tab, current_expr).
           let st1 = st\<lparr>expr_tab := tab\<rparr>
           in case (current_expr, exprTypes tab) of
                (Some i, Some entries) \<Rightarrow>
                  bindE (arr_get entries (int i)) (\<lambda>e.
                    case ps_plan ps of
                      None \<Rightarrow> Inr (st1, ps, True)
                    | Some pl \<Rightarrow>
                        bindE (record_sql_expr pl (es_expression_id e) eeop_steps st1) (\<lambda>st2.
                        bindE (expr_list_index test_me pl (es_expression_id e) eeop_steps st2) (\<lambda>(st3, j).
                        bindE (read_slot (currentExprJITLevels (level_st st3)) j) (\<lambda>level.
                          let ps' = ps\<lparr>ps_list_index := j, ps_jit_level := level\<rparr>
                          in if level = 0 then Inr (st3, ps', False)
                             else Inr (st3\<lparr>jit_glob := (jit_glob st3)\<lparr>jit_enabled := True\<rparr>,
                                           es_jit_flags := level_flags level (es_jit_flags st3)\<rparr>, ps', True)))))
              | _ \<Rightarrow> Inr (st1, ps, True)))"

record jit_env =
  je_enableME :: bool
  je_containExpr :: bool
  je_testME :: bool
  je_fopen_ok :: bool
  je_provider :: provider_env

text \<open>
  \<open>jit_compile_expr\<close>: \<open>parent\<close> is \<open>None\<close> for an expression without a plan state. The result is
  \<open>None\<close> when loading the provider raises an error. The provider sees the plan state and the flags.
\<close>

definition jit_compile_expr ::
  "jit_env \<Rightarrow> (PlanState \<Rightarrow> 32 word \<Rightarrow> bool) \<Rightarrow> int list \<Rightarrow> PlanState option \<Rightarrow> hex_state \<Rightarrow>
   (hex_state \<times> PlanState option \<times> bool option) res" where
  "jit_compile_expr env compile_expr eeop_steps parent st =
     (case parent of
        None \<Rightarrow> Inr (st, None, Some False)
      | Some ps \<Rightarrow>
          bindE (if je_enableME env \<and> je_containExpr env
                 then jit_hook (je_testME env) (je_fopen_ok env) eeop_steps ps st
                 else Inr (st, ps, True)) (\<lambda>(st1, ps1, allowJIT).
            if \<not> allowJIT then Inr (st1, Some ps1, Some False)
            else if es_jit_flags st1 AND PGJIT_PERFORM = 0 then Inr (st1, Some ps1, Some False)
            else if es_jit_flags st1 AND PGJIT_EXPR = 0 then Inr (st1, Some ps1, Some False)
            else
              (case provider_init (je_provider env) (jit_glob st1) of
                 (g, None) \<Rightarrow> Inr (st1\<lparr>jit_glob := g\<rparr>, Some ps1, None)
               | (g, Some True) \<Rightarrow> Inr (st1\<lparr>jit_glob := g\<rparr>, Some ps1, Some (compile_expr ps1 (es_jit_flags st1)))
               | (g, Some False) \<Rightarrow> Inr (st1\<lparr>jit_glob := g\<rparr>, Some ps1, Some False))))"

text \<open>\<open>standard_ExecutorStart\<close> gives the \<open>EState\<close> the flags the planner chose.\<close>

definition executor_start_flags :: "32 word \<Rightarrow> hex_state \<Rightarrow> hex_state" where
  "executor_start_flags jitFlags st = st\<lparr>es_jit_flags := jitFlags\<rparr>"

text \<open>
  The start of a statement: the operators and the counted expressions are allocated anew, and the
  list of expressions too when the statement differs from the previous one. The number of a block
  stands for the allocation, not for the address: \<open>malloc\<close> may hand out the address of the freed block
  again, but a pointer kept from before is dangling all the same. Allocation is taken to succeed.
\<close>

definition is_new_statement :: "string \<Rightarrow> level_state \<Rightarrow> bool" where
  "is_new_statement query_string s =
     (case currentStatement s of None \<Rightarrow> True | Some old \<Rightarrow> \<not> strcaseeq old query_string)"

definition start_statement ::
  "bool \<Rightarrow> hex_config \<Rightarrow> string \<Rightarrow> string option \<Rightarrow> string \<Rightarrow> hex_state \<Rightarrow> (bool \<times> hex_state) res" where
  "start_statement enableME cfg databaseName levels_file query_string st =
     bindE (exec_simple_query_prologue enableME cfg databaseName levels_file query_string (op_tab st, level_st st))
       (\<lambda>(containExpr, ops, s).
          let st1 = st\<lparr>op_tab := ops, opts_addr := (if containExpr then Suc (opts_addr st) else opts_addr st), level_st := s\<rparr>;
              st2 = (if enableME then st1\<lparr>allExprInfoNum := 0, currentSQLExprs := replicate EXPR_MAX_NUM None\<rparr> else st1);
              st3 = (if enableME \<and> is_new_statement query_string (level_st st)
                     then st2\<lparr>currentExprList := replicate EXPR_MAX_NUM None\<rparr> else st2)
          in Inr (containExpr, st3))"

section \<open>The search loop\<close>

lemma slot_search_spec:
  assumes "filled xs n" and "i \<le> n" and "\<And>j. j < n \<Longrightarrow> P (the (xs ! j)) = Inr (Q j)"
  shows "\<exists>k. slot_search xs P n i = Inr (k < n, k) \<and> i \<le> k \<and> k \<le> n \<and> (k < n \<longrightarrow> Q k) \<and>
           (\<forall>j. i \<le> j \<longrightarrow> j < k \<longrightarrow> \<not> Q j)"
  using assms(2)
proof (induction "n - i" arbitrary: i)
  case 0
  then show ?case by (subst slot_search.simps) auto
next
  case (Suc m)
  then have i: "i < n" by simp
  then obtain e where e: "xs ! i = Some e" "i < length xs"
    using assms(1) by (fastforce simp: filled_def)
  then have p: "P e = Inr (Q i)" using assms(3) [OF i] by simp
  show ?case
  proof (cases "Q i")
    case True
    with i e p show ?thesis by (subst slot_search.simps) auto
  next
    case False
    have "m = n - Suc i" using Suc.hyps(2) by simp
    from Suc.hyps(1) [OF this] i obtain k where
      k: "slot_search xs P n (Suc i) = Inr (k < n, k)" "Suc i \<le> k" "k \<le> n" "k < n \<longrightarrow> Q k"
      "\<forall>j. Suc i \<le> j \<longrightarrow> j < k \<longrightarrow> \<not> Q j" by auto
    have "\<not> Q j" if "i \<le> j" "j < k" for j
      using k(5) that False by (cases "j = i") auto
    moreover have "slot_search xs P n i = Inr (k < n, k)"
      using i e p False k(1) by (subst slot_search.simps) simp
    ultimately show ?thesis using k(2-4) by (intro exI [of _ k]) simp
  qed
qed

lemma slot_search_hit:
  assumes "filled xs n" and "k < n" and "\<And>j. j \<le> k \<Longrightarrow> P (the (xs ! j)) = Inr (j = k)"
  shows "slot_search xs P n 0 = Inr (True, k)"
proof -
  have "slot_search xs P n i = Inr (True, k)" if "i \<le> k" for i
    using that
  proof (induction "k - i" arbitrary: i)
    case 0
    then have "xs ! i = Some (the (xs ! i))" "i < length xs" using assms(1,2) by (auto simp: filled_def)
    then have "read_slot xs i = Inr (the (xs ! i))" by simp
    with 0 show ?case using assms(2) assms(3) [of i] by (subst slot_search.simps) simp
  next
    case (Suc m)
    then have "xs ! i = Some (the (xs ! i))" "i < length xs" using assms(1,2) by (auto simp: filled_def)
    then have r: "read_slot xs i = Inr (the (xs ! i))" by simp
    have "m = k - Suc i" "Suc i \<le> k" using Suc.hyps(2) Suc.prems by auto
    with Suc.hyps(1) r Suc.prems assms(2) assms(3) [of i] Suc.hyps(2) show ?case
      by (subst slot_search.simps) auto
  qed
  then show ?thesis by simp
qed

section \<open>The invariant of the statement's lists\<close>

text \<open>
  Both lists are filled, and every operator pointer in them leads to an operator of the current
  block.
\<close>

definition ptr_ok :: "hex_state \<Rightarrow> op_ptr option \<Rightarrow> bool" where
  "ptr_ok st p =
     (case p of None \<Rightarrow> True
      | Some q \<Rightarrow> fst q = opts_addr st \<and> snd q < allOptInfoNum (op_tab st))"

definition hex_inv :: "hex_state \<Rightarrow> bool" where
  "hex_inv st =
     (table_ok (expr_tab st) \<and> filled (currentSQLOpts (op_tab st)) (allOptInfoNum (op_tab st)) \<and>
      length (currentSQLExprs st) = EXPR_MAX_NUM \<and> filled (currentSQLExprs st) (allExprInfoNum st) \<and>
      (\<forall>i < allExprInfoNum st. ptr_ok st (ei_op (the (currentSQLExprs st ! i)))) \<and>
      length (currentExprList st) = EXPR_MAX_NUM \<and> filled (currentExprList st) (currentExprNum (level_st st)) \<and>
      (\<forall>i < currentExprNum (level_st st). ptr_ok st (ee_op (the (currentExprList st ! i)))) \<and>
      levels_ok EXPR_MAX_NUM in_range (currentExprJITLevels (level_st st)))"

text \<open>The tests without the faults, for valid pointers.\<close>

definition op_matches :: "hex_state \<Rightarrow> plan_info \<Rightarrow> bool \<Rightarrow> op_ptr option \<Rightarrow> bool" where
  "op_matches st pl none p =
     (case p of None \<Rightarrow> none | Some q \<Rightarrow> same_plan pl (the (currentSQLOpts (op_tab st) ! snd q)))"

lemma deref_ok:
  assumes "filled (currentSQLOpts (op_tab st)) (allOptInfoNum (op_tab st))" and "ptr_ok st (Some p)"
  shows "deref_op st p = Inr (the (currentSQLOpts (op_tab st) ! snd p))"
proof -
  have "snd p < length (currentSQLOpts (op_tab st))" "currentSQLOpts (op_tab st) ! snd p \<noteq> None"
    using assms by (auto simp: ptr_ok_def filled_def)
  then have "read_slot (currentSQLOpts (op_tab st)) (snd p) = Inr (the (currentSQLOpts (op_tab st) ! snd p))"
    by (simp add: read_slot_Inr)
  then show ?thesis using assms(2) by (simp add: deref_op_def ptr_ok_def)
qed

lemma sql_expr_match_ok:
  assumes "filled (currentSQLOpts (op_tab st)) (allOptInfoNum (op_tab st))" and "ptr_ok st (ei_op e)"
  shows "sql_expr_match st pl h len e =
    Inr (ei_hash e = h \<and> ei_step_lens e = len \<and> op_matches st pl (pl_type pl = 0) (ei_op e))"
  using assms deref_ok [OF assms(1)]
  by (auto simp: sql_expr_match_def op_matches_def split: option.splits)

lemma expr_list_match_ok:
  assumes "filled (currentSQLOpts (op_tab st)) (allOptInfoNum (op_tab st))" and "ptr_ok st (ee_op e)"
  shows "expr_list_match st pl i h len e =
    Inr (ee_expression_id e = i \<and> ee_hash e = h \<and> ee_step_lens e = len \<and>
         op_matches st pl (pl_plan_node_id pl = 0 \<and> pl_type pl = 0) (ee_op e))"
  using assms deref_ok [OF assms(1)]
  by (auto simp: expr_list_match_def op_matches_def split: option.splits)

lemma find_op_ptr_ok:
  assumes "filled (currentSQLOpts (op_tab st)) (allOptInfoNum (op_tab st))"
  shows "\<exists>r. find_op_ptr st pl = Inr r \<and> ptr_ok st r \<and>
    (\<forall>p. r = Some p \<longrightarrow> same_plan pl (the (currentSQLOpts (op_tab st) ! snd p))) \<and>
    ((\<exists>j < allOptInfoNum (op_tab st). same_plan pl (the (currentSQLOpts (op_tab st) ! j))) \<longrightarrow> r \<noteq> None)"
proof -
  from op_search_spec [OF assms, of 0 "same_plan pl"] obtain found k where
    k: "op_search (currentSQLOpts (op_tab st)) (same_plan pl) (allOptInfoNum (op_tab st)) 0 = Inr (found, k)"
    "k \<le> allOptInfoNum (op_tab st)" "found \<longleftrightarrow> k < allOptInfoNum (op_tab st)"
    "found \<longrightarrow> same_plan pl (the (currentSQLOpts (op_tab st) ! k))"
    "\<forall>j < k. \<not> same_plan pl (the (currentSQLOpts (op_tab st) ! j))" by auto
  have "find_op_ptr st pl = Inr (if found then Some (opts_addr st, k) else None)"
    using k(1) by (simp add: find_op_ptr_def findOperatorInfo_def same_plan_def)
  with k show ?thesis by (auto simp: ptr_ok_def)
qed

text \<open>The new state of a list agrees with the old one on what the pointers depend on.\<close>

definition same_ops :: "hex_state \<Rightarrow> hex_state \<Rightarrow> bool" where
  "same_ops st st' = (op_tab st' = op_tab st \<and> opts_addr st' = opts_addr st)"

lemma ptr_ok_same: "same_ops st st' \<Longrightarrow> ptr_ok st' p = ptr_ok st p"
  by (simp add: ptr_ok_def same_ops_def split: option.split)

lemma op_matches_same: "same_ops st st' \<Longrightarrow> op_matches st' pl b p = op_matches st pl b p"
  by (simp add: op_matches_def same_ops_def split: option.split)

lemma filled_snoc: "filled xs n \<Longrightarrow> n < length xs \<Longrightarrow> filled (xs[n := Some e]) (Suc n)"
  by (auto simp: filled_def nth_list_update less_Suc_eq)

definition sql_matches :: "hex_state \<Rightarrow> plan_info \<Rightarrow> int list \<Rightarrow> nat \<Rightarrow> bool" where
  "sql_matches st pl ss j =
     (let e = the (currentSQLExprs st ! j)
      in ei_hash e = calculate_hash ss \<and> ei_step_lens e = length ss \<and> op_matches st pl (pl_type pl = 0) (ei_op e))"

lemma sql_expr_search:
  assumes inv: "hex_inv st"
  shows "\<exists>k. slot_search (currentSQLExprs st) (sql_expr_match st pl (calculate_hash ss) (length ss)) (allExprInfoNum st) 0 =
      Inr (k < allExprInfoNum st, k) \<and> k \<le> allExprInfoNum st \<and> (k < allExprInfoNum st \<longrightarrow> sql_matches st pl ss k) \<and>
      (\<forall>j<k. \<not> sql_matches st pl ss j)"
proof -
  have f: "filled (currentSQLExprs st) (allExprInfoNum st)" using inv by (simp add: hex_inv_def)
  have m: "sql_expr_match st pl (calculate_hash ss) (length ss) (the (currentSQLExprs st ! j)) = Inr (sql_matches st pl ss j)"
    if "j < allExprInfoNum st" for j
    unfolding sql_matches_def Let_def using that inv by (intro sql_expr_match_ok) (auto simp: hex_inv_def)
  from slot_search_spec [where P = "sql_expr_match st pl (calculate_hash ss) (length ss)" and Q = "sql_matches st pl ss", OF f le0 m]
  show ?thesis by auto
qed

lemma record_sql_expr_found:
  assumes "hex_inv st" and "k < allExprInfoNum st" and "sql_matches st pl ss k"
  shows "record_sql_expr pl i ss st = Inr st"
proof -
  obtain j where j: "slot_search (currentSQLExprs st) (sql_expr_match st pl (calculate_hash ss) (length ss)) (allExprInfoNum st) 0 =
      Inr (j < allExprInfoNum st, j)" "\<forall>i<j. \<not> sql_matches st pl ss i"
    using sql_expr_search [OF assms(1), of pl ss] by blast
  have "j \<le> k" using j(2) assms(3) not_le by blast
  then have "j < allExprInfoNum st" using assms(2) by simp
  then show ?thesis unfolding record_sql_expr_def Let_def using j(1) by simp
qed

lemma record_sql_expr_ok:
  assumes inv: "hex_inv st" and len: "length ss \<le> EXPR_SIZE" and room: "allExprInfoNum st < EXPR_MAX_NUM"
    and known: "\<exists>j < allOptInfoNum (op_tab st). same_plan pl (the (currentSQLOpts (op_tab st) ! j))"
  shows "\<exists>st'. record_sql_expr pl i ss st = Inr st' \<and> hex_inv st' \<and>
    st' = st\<lparr>currentSQLExprs := currentSQLExprs st', allExprInfoNum := allExprInfoNum st'\<rparr> \<and>
    (\<exists>k < allExprInfoNum st'. sql_matches st' pl ss k)"
proof -
  have f: "filled (currentSQLExprs st) (allExprInfoNum st)"
    and fo: "filled (currentSQLOpts (op_tab st)) (allOptInfoNum (op_tab st))"
    using inv by (auto simp: hex_inv_def)
  obtain k where
    k: "slot_search (currentSQLExprs st) (sql_expr_match st pl (calculate_hash ss) (length ss)) (allExprInfoNum st) 0 =
      Inr (k < allExprInfoNum st, k)" "k \<le> allExprInfoNum st" "k < allExprInfoNum st \<longrightarrow> sql_matches st pl ss k"
    using sql_expr_search [OF inv, of pl ss] by blast
  obtain p where r: "find_op_ptr st pl = Inr (Some p)" "ptr_ok st (Some p)"
    "same_plan pl (the (currentSQLOpts (op_tab st) ! snd p))"
    using find_op_ptr_ok [OF fo, of pl] known by (metis not_Some_eq)
  show ?thesis
  proof (cases "k < allExprInfoNum st")
    case True
    then show ?thesis
      using k(3) inv record_sql_expr_found [OF inv True, of pl ss i] by (intro exI [of _ st]) auto
  next
    case False
    then have kn: "k = allExprInfoNum st" using k(2) by simp
    let ?e = "\<lparr>ei_expression_id = i, ei_op = Some p, ei_count = 0, ei_step_lens = length ss, ei_steps = ss,
      ei_hash = calculate_hash ss\<rparr>"
    define st' where "st' = st\<lparr>currentSQLExprs := (currentSQLExprs st)[k := Some ?e], allExprInfoNum := Suc k\<rparr>"
    have L: "length (currentSQLExprs st) = EXPR_MAX_NUM" using inv by (simp add: hex_inv_def)
    have "slot_search (currentSQLExprs st) (sql_expr_match st pl (calculate_hash ss) (length ss)) (allExprInfoNum st) 0 =
        Inr (False, allExprInfoNum st)" using k(1) kn by simp
    then have "record_sql_expr pl i ss st = Inr st'"
      unfolding record_sql_expr_def Let_def st'_def kn using len room L by (simp add: r(1))
    moreover have "sql_matches st' pl ss k"
      using r(3) room L by (simp add: sql_matches_def st'_def kn op_matches_def)
    moreover have "hex_inv st'"
    proof -
      have so: "same_ops st st'" by (simp add: same_ops_def st'_def)
      have "ptr_ok st' (ei_op (the (currentSQLExprs st' ! j)))" if "j < Suc k" for j
        using that inv r(2) room L ptr_ok_same [OF so]
        by (cases "j = k") (auto simp: st'_def hex_inv_def kn)
      then show ?thesis
        using inv filled_snoc [OF f] room L ptr_ok_same [OF so] by (simp add: hex_inv_def st'_def kn)
    qed
    ultimately show ?thesis by (intro exI [of _ st']) (auto simp: st'_def)
  qed
qed

text \<open>The slot of \<open>currentExprList\<close> that a later search finds.\<close>

definition entry_matches :: "hex_state \<Rightarrow> plan_info \<Rightarrow> int \<Rightarrow> int list \<Rightarrow> nat \<Rightarrow> bool" where
  "entry_matches st pl i ss j =
     (let e = the (currentExprList st ! j)
      in ee_expression_id e = i \<and> ee_hash e = calculate_hash ss \<and> ee_step_lens e = length ss \<and>
         op_matches st pl (pl_plan_node_id pl = 0 \<and> pl_type pl = 0) (ee_op e))"

definition first_entry :: "hex_state \<Rightarrow> plan_info \<Rightarrow> int \<Rightarrow> int list \<Rightarrow> nat \<Rightarrow> bool" where
  "first_entry st pl i ss j =
     (j < currentExprNum (level_st st) \<and> entry_matches st pl i ss j \<and> (\<forall>k<j. \<not> entry_matches st pl i ss k))"

lemma expr_list_match_entry:
  assumes "hex_inv st" and "j < currentExprNum (level_st st)"
  shows "expr_list_match st pl i (calculate_hash ss) (length ss) (the (currentExprList st ! j)) =
         Inr (entry_matches st pl i ss j)"
  unfolding entry_matches_def Let_def
  using assms by (intro expr_list_match_ok) (auto simp: hex_inv_def)

lemma expr_list_index_found:
  assumes "hex_inv st" and "first_entry st pl i ss j"
  shows "expr_list_index tm pl i ss st = Inr (st, j)"
proof -
  have "slot_search (currentExprList st) (expr_list_match st pl i (calculate_hash ss) (length ss))
      (currentExprNum (level_st st)) 0 = Inr (True, j)"
  proof (rule slot_search_hit)
    show "filled (currentExprList st) (currentExprNum (level_st st))" using assms(1) by (simp add: hex_inv_def)
    show "j < currentExprNum (level_st st)" using assms(2) by (simp add: first_entry_def)
    fix k assume "k \<le> j"
    moreover from this have "entry_matches st pl i ss k \<longleftrightarrow> k = j"
      using assms(2) by (cases "k = j") (auto simp: first_entry_def)
    ultimately show "expr_list_match st pl i (calculate_hash ss) (length ss) (the (currentExprList st ! k)) = Inr (k = j)"
      using expr_list_match_entry [OF assms(1), of k] assms(2) by (simp add: first_entry_def)
  qed
  then show ?thesis by (simp add: expr_list_index_def)
qed

lemma expr_list_index_ok:
  assumes inv: "hex_inv st" and room: "currentExprNum (level_st st) < EXPR_MAX_NUM"
    and known: "\<exists>j < allOptInfoNum (op_tab st). same_plan pl (the (currentSQLOpts (op_tab st) ! j))"
  shows "\<exists>st' j. expr_list_index tm pl i ss st = Inr (st', j) \<and> hex_inv st' \<and> first_entry st' pl i ss j \<and>
    same_ops st st' \<and> expr_tab st' = expr_tab st \<and> allExprInfoNum st' = allExprInfoNum st \<and>
    currentSQLExprs st' = currentSQLExprs st \<and> jit_glob st' = jit_glob st \<and> es_jit_flags st' = es_jit_flags st \<and>
    currentStatement (level_st st') = currentStatement (level_st st) \<and>
    currentStatementExecNum (level_st st') = currentStatementExecNum (level_st st)"
proof -
  let ?n = "currentExprNum (level_st st)"
  have f: "filled (currentExprList st) ?n" and L: "length (currentExprList st) = EXPR_MAX_NUM"
    and fo: "filled (currentSQLOpts (op_tab st)) (allOptInfoNum (op_tab st))"
    and lv: "levels_ok EXPR_MAX_NUM in_range (currentExprJITLevels (level_st st))"
    using inv by (auto simp: hex_inv_def)
  from slot_search_spec [where P = "expr_list_match st pl i (calculate_hash ss) (length ss)"
      and Q = "entry_matches st pl i ss", OF f le0 expr_list_match_entry [OF inv]]
  obtain k where k: "slot_search (currentExprList st) (expr_list_match st pl i (calculate_hash ss) (length ss)) ?n 0 =
      Inr (k < ?n, k)" "k \<le> ?n" "k < ?n \<longrightarrow> entry_matches st pl i ss k" "\<forall>j<k. \<not> entry_matches st pl i ss j" by auto
  obtain p where r: "find_op_ptr st pl = Inr (Some p)" "ptr_ok st (Some p)"
    "same_plan pl (the (currentSQLOpts (op_tab st) ! snd p))"
    using find_op_ptr_ok [OF fo, of pl] known by (metis not_Some_eq)
  show ?thesis
  proof (cases "k < ?n")
    case True
    then have "first_entry st pl i ss k" using k by (simp add: first_entry_def)
    with expr_list_index_found [OF inv this, of tm] inv show ?thesis
      by (intro exI [of _ st] exI [of _ k]) (simp add: same_ops_def)
  next
    case False
    then have kn: "k = ?n" using k(2) by simp
    let ?e = "\<lparr>ee_expression_id = i, ee_hash = calculate_hash ss, ee_step_lens = length ss, ee_op = Some p\<rparr>"
    let ?L = "if tm then currentExprJITLevels (level_st st) else (currentExprJITLevels (level_st st))[k := Some 0]"
    define st' where "st' = st\<lparr>currentExprList := (currentExprList st)[k := Some ?e],
      level_st := (level_st st)\<lparr>currentExprJITLevels := ?L, currentExprNum := Suc k\<rparr>\<rparr>"
    have so: "same_ops st st'" by (simp add: same_ops_def st'_def)
    have "expr_list_index tm pl i ss st = Inr (st', k)"
    proof -
      have "slot_search (currentExprList st) (expr_list_match st pl i (calculate_hash ss) (length ss)) ?n 0 = Inr (False, ?n)"
        using k(1) kn by simp
      moreover have "?n < length (currentExprList st)" "?n < length (currentExprJITLevels (level_st st))"
        using room L levels_ok_length [OF lv] by simp_all
      ultimately show ?thesis
        unfolding expr_list_index_def Let_def st'_def kn by (cases tm) (simp_all add: r(1))
    qed
    moreover have "hex_inv st'"
    proof -
      have "ptr_ok st' (ee_op (the (currentExprList st' ! j)))" if "j < Suc k" for j
        using that inv r(2) room L ptr_ok_same [OF so]
        by (cases "j = k") (auto simp: st'_def hex_inv_def kn)
      moreover have "levels_ok EXPR_MAX_NUM in_range ?L"
        using lv levels_ok_update [OF lv, of k 0] by (simp add: in_range_def)
      ultimately show ?thesis
        using inv filled_snoc [OF f] room L ptr_ok_same [OF so] by (simp add: hex_inv_def st'_def kn)
    qed
    moreover have "first_entry st' pl i ss k"
    proof -
      have "entry_matches st' pl i ss k"
        using r(3) room L by (simp add: entry_matches_def st'_def kn op_matches_def)
      moreover have "\<not> entry_matches st' pl i ss j" if "j < k" for j
      proof -
        have "currentExprList st' ! j = currentExprList st ! j" using that by (simp add: st'_def)
        then have "entry_matches st' pl i ss j = entry_matches st pl i ss j"
          by (simp only: entry_matches_def op_matches_same [OF so])
        then show ?thesis using k(4) that by simp
      qed
      ultimately show ?thesis by (simp add: first_entry_def st'_def)
    qed
    ultimately show ?thesis using so by (intro exI [of _ st'] exI [of _ k]) (simp add: st'_def)
  qed
qed

text \<open>The hook on an expression that is known or for which the table has room.\<close>

definition can_register :: "hex_state \<Rightarrow> int list \<Rightarrow> bool" where
  "can_register st ss =
     (hashable ss \<and> (ids (expr_tab st) (expr_key ss) \<noteq> None \<or> exprNum (expr_tab st) < 256))"

lemma register_ok:
  assumes "table_ok (expr_tab st)" and "can_register st ss"
  shows "\<exists>tab i es e. add_expression True (expr_tab st) ss = Inr (tab, Some i) \<and> table_ok tab \<and>
    exprTypes tab = Some es \<and> arr_get es (int i) = Inr e \<and> ids tab (expr_key ss) = Some (es_expression_id e)"
proof -
  have h: "hashable ss" using assms(2) by (simp add: can_register_def)
  from add_id_spec [OF assms(1) h] obtain tab where
    a: "add_id (expr_tab st) ss = Inr (tab, snd (reg_add (reg_of (expr_tab st)) (expr_key ss)))" "table_ok tab"
    "reg_of tab = fst (reg_add (reg_of (expr_tab st)) (expr_key ss))" by blast
  then obtain r where r: "add_expression True (expr_tab st) ss = Inr (tab, r)"
    "id_at tab r = snd (reg_add (reg_of (expr_tab st)) (expr_key ss))"
    by (auto simp: add_id_def)
  have n: "\<exists>n. id_at tab r = Some n \<and> ids tab (expr_key ss) = Some n"
    using a(3) r(2) assms(2) by (auto simp: reg_add_def reg_of_def can_register_def split: option.splits)
  then obtain i es where i: "r = Some i" "exprTypes tab = Some es"
    "ids tab (expr_key ss) = Some (es_expression_id (es ! i))"
    "i < length es"
    by (auto simp: id_at_def split: option.splits if_splits)
  with r(1) a(2) show ?thesis by (auto simp: arr_get_nat)
qed


definition known_plan :: "hex_state \<Rightarrow> plan_info \<Rightarrow> bool" where
  "known_plan st pl = (\<exists>j < allOptInfoNum (op_tab st). same_plan pl (the (currentSQLOpts (op_tab st) ! j)))"

lemma jit_hook_run:
  assumes "add_expression fo (expr_tab st) ss = Inr (tab, Some i)" and "exprTypes tab = Some es"
    and "arr_get es (int i) = Inr e" and "ps_plan ps = Some pl"
    and "record_sql_expr pl (es_expression_id e) ss (st\<lparr>expr_tab := tab\<rparr>) = Inr st2"
    and "expr_list_index tm pl (es_expression_id e) ss st2 = Inr (st3, j)"
    and "read_slot (currentExprJITLevels (level_st st3)) j = Inr l"
  shows "jit_hook tm fo ss ps st =
    (if l = 0 then Inr (st3, ps\<lparr>ps_jit_level := 0, ps_list_index := j\<rparr>, False)
     else Inr (st3\<lparr>jit_glob := (jit_glob st3)\<lparr>jit_enabled := True\<rparr>, es_jit_flags := level_flags l (es_jit_flags st3)\<rparr>,
       ps\<lparr>ps_jit_level := l, ps_list_index := j\<rparr>, True))"
  by (simp del: bindE_eq_Inr add: jit_hook_def assms)

lemma level_flags_idem [simp]: "level_flags l (level_flags l f) = level_flags l f"
  by (simp add: level_flags_def Let_def or.assoc or.left_commute or.commute)

text \<open>What one run of the hook leaves behind: a second run finds everything it needs.\<close>

definition registered :: "hex_state \<Rightarrow> plan_info \<Rightarrow> int list \<Rightarrow> nat \<Rightarrow> int \<Rightarrow> bool" where
  "registered st pl ss j l =
     (hex_inv st \<and> hashable ss \<and>
      (\<exists>n. ids (expr_tab st) (expr_key ss) = Some n \<and> first_entry st pl n ss j) \<and>
      (\<exists>k < allExprInfoNum st. sql_matches st pl ss k) \<and>
      j < EXPR_MAX_NUM \<and> currentExprJITLevels (level_st st) ! j = Some l \<and> in_range j l)"

lemma ptr_ok_update [simp]:
  "ptr_ok (st\<lparr>expr_tab := tab\<rparr>) = ptr_ok st" "ptr_ok (st\<lparr>jit_glob := g\<rparr>) = ptr_ok st"
  "op_matches (st\<lparr>jit_glob := g\<rparr>) = op_matches st" "ptr_ok (st\<lparr>es_jit_flags := f\<rparr>) = ptr_ok st"
  "op_matches (st\<lparr>es_jit_flags := f\<rparr>) = op_matches st"
  by (auto simp: ptr_ok_def op_matches_def fun_eq_iff split: option.split)

lemma hex_inv_expr_tab: "hex_inv st \<Longrightarrow> table_ok tab \<Longrightarrow> hex_inv (st\<lparr>expr_tab := tab\<rparr>)"
  by (simp add: hex_inv_def)

lemma hex_inv_jit_glob [simp]:
  "hex_inv (st\<lparr>jit_glob := g\<rparr>) = hex_inv st" "hex_inv (st\<lparr>es_jit_flags := f\<rparr>) = hex_inv st"
  by (simp_all add: hex_inv_def)

lemma registered_jit_glob [simp]:
  "registered (st\<lparr>jit_glob := g\<rparr>) pl ss j l = registered st pl ss j l"
  "registered (st\<lparr>es_jit_flags := f\<rparr>) pl ss j l = registered st pl ss j l"
  by (simp_all add: registered_def first_entry_def entry_matches_def sql_matches_def)

lemma hex_inv_table: "hex_inv st \<Longrightarrow> table_ok (expr_tab st)"
  by (simp add: hex_inv_def)

lemma read_level:
  assumes "hex_inv st" and "j < EXPR_MAX_NUM"
  shows "\<exists>l. currentExprJITLevels (level_st st) ! j = Some l \<and> in_range j l \<and>
    read_slot (currentExprJITLevels (level_st st)) j = Inr l"
proof -
  have lv: "levels_ok EXPR_MAX_NUM in_range (currentExprJITLevels (level_st st))" using assms(1) by (simp add: hex_inv_def)
  from levels_okD [OF lv assms(2)] levels_ok_length [OF lv] assms(2) show ?thesis
    by (auto simp: read_slot_Inr)
qed

lemma registered_hook:
  assumes "registered st pl ss j l" and "ps_plan ps = Some pl"
  shows "jit_hook tm fo ss ps st =
    (if l = 0 then Inr (st, ps\<lparr>ps_jit_level := 0, ps_list_index := j\<rparr>, False)
     else Inr (st\<lparr>jit_glob := (jit_glob st)\<lparr>jit_enabled := True\<rparr>, es_jit_flags := level_flags l (es_jit_flags st)\<rparr>,
       ps\<lparr>ps_jit_level := l, ps_list_index := j\<rparr>, True))"
proof -
  from assms(1) obtain n k where
    n: "hex_inv st" "hashable ss" "ids (expr_tab st) (expr_key ss) = Some n" "first_entry st pl n ss j"
    and k: "k < allExprInfoNum st" "sql_matches st pl ss k" and j: "j < EXPR_MAX_NUM"
      "currentExprJITLevels (level_st st) ! j = Some l"
    by (auto simp: registered_def)
  from add_hit [OF hex_inv_table [OF n(1)] n(2,3), of fo] obtain i where
    i: "add_expression fo (expr_tab st) ss = Inr (expr_tab st, Some i)" "id_at (expr_tab st) (Some i) = Some n" by auto
  then obtain es e where e: "exprTypes (expr_tab st) = Some es" "arr_get es (int i) = Inr e" "es_expression_id e = n"
    by (auto simp: id_at_def arr_get_nat split: option.splits if_splits)
  have l: "read_slot (currentExprJITLevels (level_st st)) j = Inr l"
    using read_level [OF n(1) j(1)] j(2) by auto
  show ?thesis
    using record_sql_expr_found [OF n(1) k] expr_list_index_found [OF n(1,4)]
    by (intro jit_hook_run [OF i(1) e(1,2) assms(2) _ _ l]) (simp_all add: e(3))
qed

lemma jit_hook_registers:
  assumes inv: "hex_inv st" and reg: "can_register st ss" and pl: "ps_plan ps = Some pl" and known: "known_plan st pl"
    and room: "allExprInfoNum st < EXPR_MAX_NUM" "currentExprNum (level_st st) < EXPR_MAX_NUM"
  shows "\<exists>st3 j l. registered st3 pl ss j l \<and> jit_glob st3 = jit_glob st \<and> es_jit_flags st3 = es_jit_flags st \<and>
    currentStatement (level_st st3) = currentStatement (level_st st) \<and>
    currentStatementExecNum (level_st st3) = currentStatementExecNum (level_st st) \<and>
    jit_hook tm True ss ps st = jit_hook tm True ss ps st3"
proof -
  from register_ok [OF hex_inv_table [OF inv] reg] obtain tab i es e where
    a: "add_expression True (expr_tab st) ss = Inr (tab, Some i)" "table_ok tab" "exprTypes tab = Some es"
    "arr_get es (int i) = Inr e" "ids tab (expr_key ss) = Some (es_expression_id e)" by blast
  let ?st1 = "st\<lparr>expr_tab := tab\<rparr>" and ?n = "es_expression_id e"
  have inv1: "hex_inv ?st1" using hex_inv_expr_tab [OF inv a(2)] .
  have h: "hashable ss" using reg by (simp add: can_register_def)
  then have len: "length ss \<le> EXPR_SIZE" by (simp add: hashable_def)
  have kn1: "\<exists>j < allOptInfoNum (op_tab ?st1). same_plan pl (the (currentSQLOpts (op_tab ?st1) ! j))"
    using known by (simp add: known_plan_def)
  from record_sql_expr_ok [OF inv1 len _ kn1, of ?n] room obtain st2 k where
    s2: "record_sql_expr pl ?n ss ?st1 = Inr st2" "hex_inv st2"
    "st2 = ?st1\<lparr>currentSQLExprs := currentSQLExprs st2, allExprInfoNum := allExprInfoNum st2\<rparr>"
    "k < allExprInfoNum st2" "sql_matches st2 pl ss k" by auto
  have e2: "op_tab st2 = op_tab st" "expr_tab st2 = tab" "level_st st2 = level_st st" "jit_glob st2 = jit_glob st"
    "es_jit_flags st2 = es_jit_flags st"
    using arg_cong [OF s2(3), of op_tab] arg_cong [OF s2(3), of expr_tab] arg_cong [OF s2(3), of level_st]
      arg_cong [OF s2(3), of jit_glob] arg_cong [OF s2(3), of es_jit_flags] by simp_all
  have kn2: "\<exists>j < allOptInfoNum (op_tab st2). same_plan pl (the (currentSQLOpts (op_tab st2) ! j))"
    using known by (simp add: known_plan_def e2)
  from expr_list_index_ok [OF s2(2) _ kn2, of tm ?n ss] room e2 obtain st3 j where
    s3: "expr_list_index tm pl ?n ss st2 = Inr (st3, j)" "hex_inv st3" "first_entry st3 pl ?n ss j" "same_ops st2 st3"
    "expr_tab st3 = tab" "allExprInfoNum st3 = allExprInfoNum st2" "currentSQLExprs st3 = currentSQLExprs st2"
    "jit_glob st3 = jit_glob st" "currentStatement (level_st st3) = currentStatement (level_st st)"
    "currentStatementExecNum (level_st st3) = currentStatementExecNum (level_st st)" "es_jit_flags st3 = es_jit_flags st" by auto
  have j: "j < EXPR_MAX_NUM"
    using s3(2,3) by (auto simp: first_entry_def hex_inv_def filled_def)
  from read_level [OF s3(2) j] obtain l where
    l: "currentExprJITLevels (level_st st3) ! j = Some l" "in_range j l"
    "read_slot (currentExprJITLevels (level_st st3)) j = Inr l" by auto
  have "sql_matches st3 pl ss k"
    using s2(5) s3(7) by (simp only: sql_matches_def op_matches_same [OF s3(4)])
  then have r: "registered st3 pl ss j l"
    using s3 s2(4) h a(5) l j by (auto simp: registered_def)
  then show ?thesis
    using jit_hook_run [OF a(1,3,4) pl s2(1) s3(1) l(3)] registered_hook [OF r pl] s3(8-11)
    by (intro exI [of _ st3] exI [of _ j] exI [of _ l]) simp
qed

lemma jit_hook_ok:
  assumes "hex_inv st" and "can_register st ss" and "ps_plan ps = Some pl" and "known_plan st pl"
    and "allExprInfoNum st < EXPR_MAX_NUM" and "currentExprNum (level_st st) < EXPR_MAX_NUM"
  shows "\<exists>st' ps' j l. jit_hook tm True ss ps st = Inr (st', ps', l \<noteq> 0) \<and> registered st' pl ss j l \<and>
    ps' = ps\<lparr>ps_jit_level := l, ps_list_index := j\<rparr> \<and>
    es_jit_flags st' = (if l = 0 then es_jit_flags st else level_flags l (es_jit_flags st)) \<and>
    jit_glob st' = (if l = 0 then jit_glob st else (jit_glob st)\<lparr>jit_enabled := True\<rparr>)"
proof -
  from jit_hook_registers [OF assms, of tm] obtain st3 j l where
    r: "registered st3 pl ss j l" "jit_glob st3 = jit_glob st" "es_jit_flags st3 = es_jit_flags st"
    "jit_hook tm True ss ps st = jit_hook tm True ss ps st3" by blast
  from registered_hook [OF r(1) assms(3), of tm True] r show ?thesis
    by (cases "l = 0") auto
qed


text \<open>Which bits \<open>level_flags\<close> sets.\<close>

lemma flag_bits [simp]:
  "bit PGJIT_PERFORM k \<longleftrightarrow> k = 0" "bit PGJIT_OPT3 k \<longleftrightarrow> k = 1" "bit PGJIT_INLINE k \<longleftrightarrow> k = 2" "bit PGJIT_EXPR k \<longleftrightarrow> k = 3"
  unfolding PGJIT_PERFORM_def PGJIT_OPT3_def PGJIT_INLINE_def PGJIT_EXPR_def bit_push_bit_iff bit_1_iff
  by auto

lemma level_flags_bits:
  "bit (level_flags l f) k \<longleftrightarrow>
     bit f k \<or> k = 0 \<or> k = 3 \<or> (k = 2 \<and> 2 \<le> l) \<or> (k = 1 \<and> l = 3)"
  by (auto simp: level_flags_def Let_def bit_or_iff)

lemma level_flags_perform:
  "level_flags l f AND PGJIT_PERFORM \<noteq> 0" "level_flags l f AND PGJIT_EXPR \<noteq> 0"
proof -
  have "bit (level_flags l f AND PGJIT_PERFORM) 0" "bit (level_flags l f AND PGJIT_EXPR) 3"
    by (simp_all add: bit_and_iff level_flags_bits)
  then show "level_flags l f AND PGJIT_PERFORM \<noteq> 0" "level_flags l f AND PGJIT_EXPR \<noteq> 0"
    by (metis bit_0_eq bot_apply bot_bool_def)+
qed

lemma provider_init_loaded:
  "provider_successfully_loaded g \<Longrightarrow> \<not> provider_failed_loading g \<Longrightarrow> jit_enabled g \<Longrightarrow> provider_init env g = (g, Some True)"
  by (simp add: provider_init_def)

definition provider_ready :: "hex_state \<Rightarrow> bool" where
  "provider_ready st = (provider_successfully_loaded (jit_glob st) \<and> \<not> provider_failed_loading (jit_glob st))"

lemma registered_compile:
  assumes "registered st pl ss j l" and "ps_plan ps = Some pl" and "provider_ready st"
    and "je_enableME env" and "je_containExpr env"
  shows "jit_compile_expr env compile_expr ss (Some ps) st =
    (if l = 0 then Inr (st, Some (ps\<lparr>ps_jit_level := 0, ps_list_index := j\<rparr>), Some False)
     else
       (let ps' = ps\<lparr>ps_jit_level := l, ps_list_index := j\<rparr>; f = level_flags l (es_jit_flags st)
        in Inr (st\<lparr>jit_glob := (jit_glob st)\<lparr>jit_enabled := True\<rparr>, es_jit_flags := f\<rparr>, Some ps', Some (compile_expr ps' f))))"
  using assms(3-5) registered_hook [OF assms(1,2), of "je_testME env" "je_fopen_ok env"]
  by (simp add: jit_compile_expr_def Let_def level_flags_perform provider_init_loaded provider_ready_def)

lemma jit_compile_registers:
  assumes "hex_inv st" and "can_register st ss" and "ps_plan ps = Some pl" and "known_plan st pl"
    and "allExprInfoNum st < EXPR_MAX_NUM" and "currentExprNum (level_st st) < EXPR_MAX_NUM"
    and "provider_ready st" and "je_enableME env" and "je_containExpr env" and "je_fopen_ok env"
  shows "\<exists>st3 j l. registered st3 pl ss j l \<and> jit_glob st3 = jit_glob st \<and> es_jit_flags st3 = es_jit_flags st \<and>
    jit_compile_expr env compile_expr ss (Some ps) st = jit_compile_expr env compile_expr ss (Some ps) st3"
proof -
  from jit_hook_registers [OF assms(1-6), of "je_testME env"] obtain st3 j l where
    r: "registered st3 pl ss j l" "jit_glob st3 = jit_glob st" "es_jit_flags st3 = es_jit_flags st"
    "jit_hook (je_testME env) True ss ps st = jit_hook (je_testME env) True ss ps st3" by blast
  with assms(8-10) show ?thesis
    by (intro exI [of _ st3] exI [of _ j] exI [of _ l]) (simp add: jit_compile_expr_def)
qed

section \<open>Statements that are run again\<close>

lemma slot_search_fault:
  assumes "filled xs n" and "k < n" and "P (the (xs ! k)) = Inl f" and "\<And>j. j < k \<Longrightarrow> P (the (xs ! j)) = Inr False"
  shows "slot_search xs P n 0 = Inl f"
proof -
  have r: "read_slot xs i = Inr (the (xs ! i))" if "i \<le> k" for i
    using assms(1,2) that by (auto simp: filled_def read_slot_Inr)
  have "slot_search xs P n i = Inl f" if "i \<le> k" for i
    using that
  proof (induction "k - i" arbitrary: i)
    case 0
    then show ?case using assms(2,3) r [of i] by (subst slot_search.simps) simp
  next
    case (Suc m)
    then have "m = k - Suc i" "Suc i \<le> k" by auto
    with Suc.hyps(1) r [of i] Suc.prems assms(2) assms(4) [of i] Suc.hyps(2) show ?case
      by (subst slot_search.simps) auto
  qed
  then show ?thesis by simp
qed

text \<open>
  When the operators were allocated anew, looking for a known expression follows a pointer into the
  old block.
\<close>

lemma expr_list_index_stale:
  assumes inv: "hex_inv st" and fe: "first_entry st pl n ss j" and ty: "pl_type pl \<noteq> 0"
    and st2: "currentExprList st2 = currentExprList st" "currentExprNum (level_st st2) = currentExprNum (level_st st)"
    and stale: "opts_addr st2 \<noteq> opts_addr st"
  shows "expr_list_index tm pl n ss st2 = Inl UseAfterFree"
proof -
  let ?e = "\<lambda>k. the (currentExprList st ! k)"
  let ?m = "\<lambda>k. ee_expression_id (?e k) = n \<and> ee_hash (?e k) = calculate_hash ss \<and> ee_step_lens (?e k) = length ss \<and> ee_op (?e k) \<noteq> None"
  have j: "j < currentExprNum (level_st st)" "?m j"
    using fe ty by (auto simp: first_entry_def entry_matches_def Let_def op_matches_def split: option.splits)
  define k where "k = (LEAST k. ?m k)"
  have k: "?m k" "k \<le> j" "\<And>i. i < k \<Longrightarrow> \<not> ?m i"
    unfolding k_def by (rule LeastI [of ?m, OF j(2)], rule Least_le [of ?m, OF j(2)], rule not_less_Least)
  then have kn: "k < currentExprNum (level_st st)" using j(1) by simp
  have f: "filled (currentExprList st) (currentExprNum (level_st st))" using inv by (simp add: hex_inv_def)
  have "ptr_ok st (ee_op (?e k))" using inv kn by (simp add: hex_inv_def)
  then have "expr_list_match st2 pl n (calculate_hash ss) (length ss) (?e k) = Inl UseAfterFree"
    using k(1) stale by (auto simp: expr_list_match_def ptr_ok_def deref_op_def split: option.splits)
  moreover have "expr_list_match st2 pl n (calculate_hash ss) (length ss) (?e i) = Inr False" if "i < k" for i
    using k(3) [OF that] ty by (auto simp: expr_list_match_def split: option.splits)
  ultimately have "slot_search (currentExprList st) (expr_list_match st2 pl n (calculate_hash ss) (length ss))
      (currentExprNum (level_st st)) 0 = Inl UseAfterFree"
    by (intro slot_search_fault [OF f kn])
  then show ?thesis by (simp add: expr_list_index_def st2)
qed

lemma record_sql_expr_first:
  assumes "allExprInfoNum st = 0" and "currentSQLExprs st = replicate EXPR_MAX_NUM None" and "length ss \<le> EXPR_SIZE"
    and "filled (currentSQLOpts (op_tab st)) (allOptInfoNum (op_tab st))"
  shows "\<exists>xs. record_sql_expr pl i ss st = Inr (st\<lparr>currentSQLExprs := xs, allExprInfoNum := 1\<rparr>)"
proof -
  from find_op_ptr_ok [OF assms(4), of pl] obtain r where r: "find_op_ptr st pl = Inr r" by auto
  have "slot_search xs P 0 0 = Inr (False, 0)" for xs :: "ExprInfo option list" and P
    by (simp add: slot_search.simps)
  then show ?thesis
    using assms(1-3) r by (simp add: record_sql_expr_def Let_def EXPR_MAX_NUM_def) blast
qed

lemma level_updates_exprNum:
  "set_all_levels v s = Inr s' \<Longrightarrow> currentExprNum s' = currentExprNum s"
  "set_level i v s = Inr s' \<Longrightarrow> currentExprNum s' = currentExprNum s"
  "load_levels src s = Inr s' \<Longrightarrow> currentExprNum s' = currentExprNum s"
  by (auto simp: set_all_levels_def set_level_def load_levels_def)

lemma opt3_step_exprNum: "opt3_step s = Inr s' \<Longrightarrow> currentExprNum s' = currentExprNum s"
  by (fastforce simp: opt3_step_def Let_def dest: level_updates_exprNum split: if_splits)

lemma plain_step_exprNum: "plain_step s = Inr s' \<Longrightarrow> currentExprNum s' = currentExprNum s"
  by (fastforce simp: plain_step_def Let_def dest: level_updates_exprNum split: if_splits)

lemma choose_levels_exprNum: "choose_levels cfg s = Inr s' \<Longrightarrow> currentExprNum s' = currentExprNum s"
  by (auto simp: choose_levels_def Let_def dest: level_updates_exprNum opt3_step_exprNum plain_step_exprNum split: if_splits)

lemma apply_best_exprNum: "apply_best s = Inr s' \<Longrightarrow> currentExprNum s' = currentExprNum s"
  by (auto simp: apply_best_def dest: level_updates_exprNum split: if_splits)

lemma next_levels_exprNum:
  assumes "next_levels cfg s = Inr s'"
  shows "currentExprNum s' = currentExprNum s"
  using assms
  by (auto simp: next_levels_def Let_def dest!: level_updates_exprNum choose_levels_exprNum apply_best_exprNum split: if_splits)

lemma restart_state:
  assumes "start_statement True cfg db fl q st = Inr (True, st1)" and "\<not> is_new_statement q (level_st st)" and "\<not> testME cfg"
  shows "expr_tab st1 = expr_tab st \<and> opts_addr st1 = Suc (opts_addr st) \<and> allExprInfoNum st1 = 0 \<and>
    currentSQLExprs st1 = replicate EXPR_MAX_NUM None \<and> currentExprList st1 = currentExprList st \<and>
    currentExprNum (level_st st1) = currentExprNum (level_st st)"
  using assms next_levels_exprNum
  by (auto simp: start_statement_def exec_simple_query_prologue_def set_levels_def is_new_statement_def Let_def
      split: option.splits if_splits)

text \<open>A statement with one plan node and one expression, whose level is 3.\<close>

definition demo_node :: plan_info where
  "demo_node = \<lparr>pl_type = 19, pl_startup_cost = 0, pl_total_cost = 3, pl_plan_node_id = 2, pl_input_rows = 50\<rparr>"

definition demo_ops :: op_table where
  "demo_ops = \<lparr>allOptInfoNum = 1, currentSQLOpts = Some (plan_operator demo_node) # replicate 63 None\<rparr>"

definition demo_hex :: hex_state where
  "demo_hex =
     \<lparr>expr_tab = \<lparr>exprTypes = Some initializeExprStepsList, exprNum = 0, updateExprList = False, eeops_file = []\<rparr>,
      op_tab = demo_ops, opts_addr = 1, allExprInfoNum = 0, currentSQLExprs = replicate EXPR_MAX_NUM None,
      currentExprList = replicate EXPR_MAX_NUM None,
      level_st = (new_statement demo_cfg ''select 1'' demo_state)
        \<lparr>currentExprJITLevels := replicate EXPR_MAX_NUM (Some 3)\<rparr>,
      jit_glob = \<lparr>jit_enabled = False, provider_successfully_loaded = True, provider_failed_loading = False\<rparr>,
      es_jit_flags = 0\<rparr>"

definition demo_parent :: PlanState where
  "demo_parent = \<lparr>ps_plan = Some demo_node, ps_jit_level = 0, ps_list_index = 0\<rparr>"

definition demo_env :: jit_env where
  "demo_env = \<lparr>je_enableME = True, je_containExpr = True, je_testME = True, je_fopen_ok = True,
     je_provider = \<lparr>pe_stat = Stat_file, pe_load_ok = True\<rparr>\<rparr>"

lemma demo_same_plan: "same_plan demo_node (plan_operator demo_node)"
  by (simp add: same_plan_def same_operator_def plan_operator_def initializeOperatorInfo_def)

lemma demo_filled: "filled (currentSQLOpts demo_ops) (allOptInfoNum demo_ops)"
  by (simp add: demo_ops_def filled_def)

lemma demo_hex_inv: "hex_inv demo_hex"
  using demo_filled table_ok_init
  by (simp add: hex_inv_def demo_hex_def levels_ok_def in_range_def new_statement_def filled_def)

lemma demo_premises:
  "can_register demo_hex [1, 2, 0]" "ps_plan demo_parent = Some demo_node" "known_plan demo_hex demo_node"
  "allExprInfoNum demo_hex < EXPR_MAX_NUM" "currentExprNum (level_st demo_hex) < EXPR_MAX_NUM"
  "provider_ready demo_hex" "je_enableME demo_env" "je_containExpr demo_env" "je_fopen_ok demo_env"
  using demo_same_plan hashable_short [of "[1, 2, 0]"]
  by (simp_all add: can_register_def demo_hex_def demo_parent_def known_plan_def demo_ops_def demo_env_def
      provider_ready_def new_statement_def EXPR_MAX_NUM_def)

section \<open>Properties\<close>

text \<open>
  C4. The provider is asked to compile an expression exactly when the level of the expression is not
  0. The level is the slot of the level array that \<open>list_index\<close> names and lies between 0 and 3. The
  flags of the \<open>EState\<close>, which the provider sees and which all expressions of the statement share,
  keep every bit they have; at level 0 nothing is added, otherwise the bits for performing and for
  expressions, the one for inlining from level 2 on and the one for OPT3 at level 3. So an
  expression of a low level is compiled with the bits of higher levels that were compiled before
  it. The invariant of the statement's lists is kept.
\<close>

theorem jit_compile_expr_level:
  assumes "hex_inv st" and "can_register st ss" and "ps_plan ps = Some pl" and "known_plan st pl"
    and "allExprInfoNum st < EXPR_MAX_NUM" and "currentExprNum (level_st st) < EXPR_MAX_NUM"
    and "provider_ready st" and "je_enableME env" and "je_containExpr env" and "je_fopen_ok env"
  shows "\<exists>st' ps' l. jit_compile_expr env compile_expr ss (Some ps) st =
      Inr (st', Some ps', Some (l \<noteq> 0 \<and> compile_expr ps' (es_jit_flags st'))) \<and>
    hex_inv st' \<and> ps_jit_level ps' = l \<and> 0 \<le> l \<and> l \<le> 3 \<and>
    currentExprJITLevels (level_st st') ! ps_list_index ps' = Some l \<and>
    (\<forall>k. bit (es_jit_flags st') k \<longleftrightarrow>
       bit (es_jit_flags st) k \<or>
       (l \<noteq> 0 \<and> (k = 0 \<or> k = 3 \<or> k = 2 \<and> 2 \<le> l \<or> k = 1 \<and> l = 3)))"
proof -
  from jit_compile_registers [OF assms, of compile_expr] obtain st3 j l where
    r: "registered st3 pl ss j l" "jit_glob st3 = jit_glob st"
    "jit_compile_expr env compile_expr ss (Some ps) st = jit_compile_expr env compile_expr ss (Some ps) st3"
    "es_jit_flags st3 = es_jit_flags st" by blast
  have "provider_ready st3" using assms(7) r(2) by (simp add: provider_ready_def)
  note c = registered_compile [OF r(1) assms(3) this assms(8,9), of compile_expr]
  have "hex_inv st3" "0 \<le> l" "l \<le> 3" "currentExprJITLevels (level_st st3) ! j = Some l"
    using r(1) by (auto simp: registered_def in_range_def)
  then show ?thesis
    using r(3,4) c by (cases "l = 0") (auto simp: Let_def level_flags_bits)
qed

theorem jit_compile_expr_level_witness:
  "\<exists>st' ps' l. jit_compile_expr demo_env (\<lambda>ps f. True) [1, 2, 0] (Some demo_parent) demo_hex =
      Inr (st', Some ps', Some (l \<noteq> 0 \<and> True)) \<and>
    hex_inv st' \<and> ps_jit_level ps' = l \<and> 0 \<le> l \<and> l \<le> 3 \<and>
    currentExprJITLevels (level_st st') ! ps_list_index ps' = Some l \<and>
    (\<forall>k. bit (es_jit_flags st') k \<longleftrightarrow>
       bit (es_jit_flags demo_hex) k \<or>
       (l \<noteq> 0 \<and> (k = 0 \<or> k = 3 \<or> k = 2 \<and> 2 \<le> l \<or> k = 1 \<and> l = 3)))"
  by (rule jit_compile_expr_level [OF demo_hex_inv demo_premises])

text \<open>
  C36. Compiling the same expression of the same plan node again changes nothing: the second call
  finds the table entry and the two list entries the first one left, so it returns the same index,
  level and flags and leaves all lists and counters as they are.
\<close>

theorem jit_compile_expr_idempotent:
  assumes "hex_inv st" and "can_register st ss" and "ps_plan ps = Some pl" and "known_plan st pl"
    and "allExprInfoNum st < EXPR_MAX_NUM" and "currentExprNum (level_st st) < EXPR_MAX_NUM"
    and "provider_ready st" and "je_enableME env" and "je_containExpr env" and "je_fopen_ok env"
    and "\<forall>ps f. compile_expr ps f = ok"
  shows "\<exists>st' ps' r. jit_compile_expr env compile_expr ss (Some ps) st = Inr (st', Some ps', r) \<and>
    jit_compile_expr env compile_expr ss (Some ps') st' = Inr (st', Some ps', r)"
proof -
  from jit_compile_registers [OF assms(1-10), of compile_expr] obtain st3 j l where
    r: "registered st3 pl ss j l" "jit_glob st3 = jit_glob st"
    "jit_compile_expr env compile_expr ss (Some ps) st = jit_compile_expr env compile_expr ss (Some ps) st3"
    "es_jit_flags st3 = es_jit_flags st" by blast
  have p: "provider_ready st3" using assms(7) r(2) by (simp add: provider_ready_def)
  note c1 = registered_compile [OF r(1) assms(3) p assms(8,9), of compile_expr]
  show ?thesis
  proof (cases "l = 0")
    case True
    then show ?thesis
      using r(3) c1 registered_compile [OF r(1) _ p assms(8,9), of "ps\<lparr>ps_jit_level := 0, ps_list_index := j\<rparr>" compile_expr]
        assms(3) by simp
  next
    case False
    let ?st = "st3\<lparr>jit_glob := (jit_glob st3)\<lparr>jit_enabled := True\<rparr>, es_jit_flags := level_flags l (es_jit_flags st3)\<rparr>"
    have "registered ?st pl ss j l" "provider_ready ?st" using r(1) p by (simp_all add: provider_ready_def)
    from registered_compile [OF this(1) _ this(2) assms(8,9), of
        "ps\<lparr>ps_jit_level := l, ps_list_index := j\<rparr>" compile_expr]
    show ?thesis using False r(3) c1 assms(3,11) by (simp add: Let_def)
  qed
qed


theorem jit_compile_expr_idempotent_witness:
  "\<exists>st' ps' r. jit_compile_expr demo_env (\<lambda>ps f. True) [1, 2, 0] (Some demo_parent) demo_hex = Inr (st', Some ps', r) \<and>
    jit_compile_expr demo_env (\<lambda>ps f. True) [1, 2, 0] (Some ps') st' = Inr (st', Some ps', r)"
  by (rule jit_compile_expr_idempotent [OF demo_hex_inv demo_premises]) simp

text \<open>
  C37. Running a statement again follows a dangling pointer. The entries of \<open>currentExprList\<close> survive
  the start of a repeated statement, but the operators they point to are freed there: the first
  expression of the repeated statement that was compiled in the previous run makes the hook read
  the freed block, whatever plan was recorded in the new one.
\<close>

theorem repeated_statement_use_after_free:
  assumes "registered st pl ss j l" and "pl_type pl \<noteq> 0" and "ps_plan ps = Some pl"
    and "start_statement True cfg db fl q st = Inr (True, st1)" and "\<not> is_new_statement q (level_st st)" and "\<not> testME cfg"
    and "filled (currentSQLOpts ops) (allOptInfoNum ops)"
  shows "jit_hook (testME cfg) True ss ps (st1\<lparr>op_tab := ops\<rparr>) = Inl UseAfterFree"
proof -
  let ?st2 = "st1\<lparr>op_tab := ops\<rparr>"
  note r = restart_state [OF assms(4-6)]
  from assms(1) obtain n where
    n: "hex_inv st" "hashable ss" "ids (expr_tab st) (expr_key ss) = Some n" "first_entry st pl n ss j"
    by (auto simp: registered_def)
  from add_hit [OF hex_inv_table [OF n(1)] n(2,3), of True] obtain i where
    i: "add_expression True (expr_tab st) ss = Inr (expr_tab st, Some i)" "id_at (expr_tab st) (Some i) = Some n" by auto
  then obtain es e where e: "exprTypes (expr_tab st) = Some es" "arr_get es (int i) = Inr e" "es_expression_id e = n"
    by (auto simp: id_at_def arr_get_nat split: option.splits if_splits)
  have tab: "?st2\<lparr>expr_tab := expr_tab st\<rparr> = ?st2" "expr_tab ?st2 = expr_tab st" 
    using r by (auto intro: hex_state.equality)
  from n(2) have "length ss \<le> EXPR_SIZE" by (simp add: hashable_def)
  with record_sql_expr_first [of ?st2 ss pl n] r assms(7) obtain xs where
    x: "record_sql_expr pl n ss ?st2 = Inr (?st2\<lparr>currentSQLExprs := xs, allExprInfoNum := 1\<rparr>)" by auto
  have "expr_list_index (testME cfg) pl n ss (?st2\<lparr>currentSQLExprs := xs, allExprInfoNum := 1\<rparr>) = Inl UseAfterFree"
    using r by (intro expr_list_index_stale [OF n(1,4) assms(2)]) simp_all
  with x show ?thesis
    by (simp del: bindE_eq_Inr add: jit_hook_def tab i(1) e assms(3))
qed

theorem repeated_statement_use_after_free_witness:
  "\<exists>st j l st1. registered st demo_node [1, 2, 0] j l \<and>
     start_statement True demo_cfg ''tpch'' None ''select 1'' st = Inr (True, st1) \<and>
     jit_hook False True [1, 2, 0] demo_parent (st1\<lparr>op_tab := demo_ops\<rparr>) = Inl UseAfterFree"
proof -
  from jit_hook_registers [OF demo_hex_inv demo_premises(1-5), of False] obtain st j l where
    r: "registered st demo_node [1, 2, 0] j l" "currentStatement (level_st st) = Some ''select 1''"
      "currentStatementExecNum (level_st st) = 0"
    by (auto simp: demo_hex_def new_statement_def)
  have h: "hex_inv st" using r(1) by (simp add: registered_def)
  then have "length (currentExprJITLevels (level_st st)) = EXPR_MAX_NUM" "currentExprNum (level_st st) \<le> EXPR_MAX_NUM"
    by (auto simp: hex_inv_def levels_ok_def filled_def)
  then have "\<exists>s'. next_levels demo_cfg (level_st st) = Inr s'"
    using r(3) set_all_levels_ok [of "level_st st\<lparr>countExpr := False, currentStatementExecNum := 1\<rparr>" 0]
    by (simp add: next_levels_def Let_def)
  moreover have new: "\<not> is_new_statement ''select 1'' (level_st st)"
    by (simp add: is_new_statement_def r(2)) code_simp
  moreover have "has_expr ''select 1''" by code_simp
  ultimately obtain st1 where
    s: "start_statement True demo_cfg ''tpch'' None ''select 1'' st = Inr (True, st1)"
    by (auto simp: start_statement_def exec_simple_query_prologue_def set_levels_def is_new_statement_def Let_def r(2) demo_cfg_def)
  have "jit_hook (testME demo_cfg) True [1, 2, 0] demo_parent (st1\<lparr>op_tab := demo_ops\<rparr>) = Inl UseAfterFree"
    by (rule repeated_statement_use_after_free [OF r(1) _ demo_premises(2) s new _ demo_filled])
      (simp_all add: demo_node_def demo_cfg_def)
  then have "jit_hook False True [1, 2, 0] demo_parent (st1\<lparr>op_tab := demo_ops\<rparr>) = Inl UseAfterFree"
    by (simp add: demo_cfg_def)
  with r(1) s show ?thesis by blast
qed

text \<open>
  Loading the provider is decided once: after a call with JIT enabled that got past the check of
  the library file, every later call returns the same answer whatever has become of the library,
  and a call that failed while loading is answered with false from then on.
\<close>

theorem provider_init_cached:
  assumes "provider_init env g = (g', r)" and "jit_enabled g" and "pe_stat env \<noteq> Stat_error"
  shows "provider_init env' g' = (g', Some (r = Some True))"
  using assms by (auto simp: provider_init_def file_exists_def Let_def split: if_splits stat_result.splits)

theorem provider_init_cached_witness:
  "provider_init \<lparr>pe_stat = Stat_missing, pe_load_ok = False\<rparr>
     \<lparr>jit_enabled = True, provider_successfully_loaded = True, provider_failed_loading = False\<rparr> =
   (\<lparr>jit_enabled = True, provider_successfully_loaded = True, provider_failed_loading = False\<rparr>, Some (Some True = Some True))"
  by (rule provider_init_cached [of "\<lparr>pe_stat = Stat_file, pe_load_ok = True\<rparr>"
        "\<lparr>jit_enabled = True, provider_successfully_loaded = False, provider_failed_loading = False\<rparr>"])
    (simp_all add: provider_init_def file_exists_def)

end
