(* ===== verification/ExprData.thy ===== *)
theory ExprData
  imports Prelude Eeop
begin

text \<open>
  Data of the expression engine: datums, tuple slots, expression trees and evaluation steps
  (\<open>src/include/postgres.h\<close>, \<open>src/include/executor/tuptable.h\<close>, \<open>src/include/executor/execExpr.h\<close>,
  \<open>src/include/nodes/primnodes.h\<close>).

  A step's result and its null flag always belong together, so a location is the number of a cell
  that holds both; cell \<open>RES\<close> stands for \<open>resvalue\<close>/\<open>resnull\<close> of the \<open>ExprState\<close>. A datum is a
  64-bit word. The union of a step is a datatype with one constructor per union member; \<open>step_op\<close>
  gives the operation code back.

  Left out of the trees and steps are whole-row variables, window functions, subscripts, field
  access, array and row construction, array and row type coercion and XML.
\<close>

section \<open>Datums\<close>

type_synonym Datum = "64 word"
type_synonym NullableDatum = "Datum \<times> bool"
type_synonym Oid = nat

definition DatumGetBool :: "Datum \<Rightarrow> bool" where
  "DatumGetBool X = (X \<noteq> 0)"

definition BoolGetDatum :: "bool \<Rightarrow> Datum" where
  "BoolGetDatum X = (if X then 1 else 0)"

definition DatumGetInt32 :: "Datum \<Rightarrow> int" where
  "DatumGetInt32 X = sint (ucast X :: 32 word)"

definition Int32GetDatum :: "int \<Rightarrow> Datum" where
  "Int32GetDatum X = of_int X"

text \<open>The value a datum and its null flag stand for.\<close>

definition nd :: "NullableDatum \<Rightarrow> Datum option" where
  "nd p = (if snd p then None else Some (fst p))"

lemma nd_simps [simp]: "nd (d, True) = None" "nd (d, False) = Some d"
  by (simp_all add: nd_def)

lemma nd_None_iff: "nd p = None \<longleftrightarrow> snd p"
  by (simp add: nd_def)

lemma nd_Some_iff: "nd p = Some d \<longleftrightarrow> \<not> snd p \<and> fst p = d"
  by (auto simp: nd_def)

lemma DatumGetBool_simps [simp]: "DatumGetBool 0 = False" "DatumGetBool 1 = True" "DatumGetBool (BoolGetDatum b) = b"
  by (simp_all add: DatumGetBool_def BoolGetDatum_def)

section \<open>Errors\<close>

text \<open>
  An evaluation ends with a C fault, with one of the errors the modelled code raises, or with an
  error of a called function. \<open>Unmodelled\<close> marks the one branch of a modelled function that is left
  out, whole-row variables.
\<close>

datatype err_code =
    ERRCODE_INSUFFICIENT_PRIVILEGE | ERRCODE_TOO_MANY_ARGUMENTS | ERRCODE_FEATURE_NOT_SUPPORTED
  | ERRCODE_UNDEFINED_FUNCTION | ERRCODE_UNDEFINED_OBJECT | ERRCODE_UNDEFINED_COLUMN
  | ERRCODE_DATATYPE_MISMATCH | ERRCODE_NOT_NULL_VIOLATION | ERRCODE_CHECK_VIOLATION
  | ERRCODE_INTERNAL_ERROR | ERRCODE_TOO_MANY_COLUMNS | ERRCODE_OF_FUNCTION nat

datatype exec_error = Fault fault | ERROR err_code | Unmodelled

type_synonym 'a eres = "exec_error + 'a"

section \<open>Tuple slots\<close>

datatype slot_kind = INNER | OUTER | SCAN

definition INNER_VAR :: nat where "INNER_VAR = 65000"
definition OUTER_VAR :: nat where "OUTER_VAR = 65001"

definition slot_of_varno :: "nat \<Rightarrow> slot_kind" where
  "slot_of_varno varno = (if varno = INNER_VAR then INNER else if varno = OUTER_VAR then OUTER else SCAN)"

text \<open>
  A slot with the attributes of its tuple (\<open>tts_tuple\<close>, as the deforming routine finds them), the
  arrays \<open>tts_values\<close>/\<open>tts_isnull\<close>, of which the first \<open>tts_nvalid\<close> entries are valid, and for each
  column of the descriptor whether it is dropped and its type. A virtual slot has no tuple.
\<close>

record TupleTableSlot =
  tts_nvalid :: nat
  tts_values :: "nat \<Rightarrow> NullableDatum"
  tts_tuple :: "NullableDatum list"
  tts_missing :: "(nat \<Rightarrow> NullableDatum) option"
  tts_attrs :: "(bool \<times> Oid) list"
  tts_virtual :: bool

definition getsomeattrs :: "TupleTableSlot \<Rightarrow> nat \<Rightarrow> TupleTableSlot eres" where
  "getsomeattrs slot attnum =
     (if tts_virtual slot then Inl (ERROR ERRCODE_INTERNAL_ERROR)
      else
        let n = min attnum (length (tts_tuple slot))
        in Inr (slot\<lparr>tts_values := (\<lambda>i. if tts_nvalid slot \<le> i \<and> i < n then tts_tuple slot ! i else tts_values slot i),
                     tts_nvalid := max (tts_nvalid slot) n\<rparr>))"

definition slot_getmissingattrs :: "TupleTableSlot \<Rightarrow> nat \<Rightarrow> nat \<Rightarrow> TupleTableSlot" where
  "slot_getmissingattrs slot startAttNum lastAttNum =
     slot\<lparr>tts_values := (\<lambda>i. if startAttNum \<le> i \<and> i < lastAttNum
            then (case tts_missing slot of None \<Rightarrow> (0, True) | Some attrmiss \<Rightarrow> attrmiss i)
            else tts_values slot i)\<rparr>"

definition slot_getsomeattrs_int :: "TupleTableSlot \<Rightarrow> nat \<Rightarrow> TupleTableSlot eres" where
  "slot_getsomeattrs_int slot attnum =
     (if length (tts_attrs slot) < attnum then Inl (ERROR ERRCODE_INTERNAL_ERROR)
      else
        bindE (getsomeattrs slot attnum) (\<lambda>slot1.
          if tts_nvalid slot1 < attnum
          then Inr ((slot_getmissingattrs slot1 (tts_nvalid slot1) attnum)\<lparr>tts_nvalid := attnum\<rparr>)
          else Inr slot1))"

definition slot_getsomeattrs :: "TupleTableSlot \<Rightarrow> nat \<Rightarrow> TupleTableSlot eres" where
  "slot_getsomeattrs slot attnum = (if tts_nvalid slot < attnum then slot_getsomeattrs_int slot attnum else Inr slot)"

text \<open>Reading an array entry: an entry that is not valid holds nothing.\<close>

definition slot_value :: "TupleTableSlot \<Rightarrow> nat \<Rightarrow> NullableDatum eres" where
  "slot_value slot attnum =
     (if attnum < tts_nvalid slot then Inr (tts_values slot attnum) else Inl (Fault UninitRead))"

definition slot_getattr :: "TupleTableSlot \<Rightarrow> nat \<Rightarrow> (TupleTableSlot \<times> NullableDatum) eres" where
  "slot_getattr slot attnum =
     bindE (if tts_nvalid slot < attnum then slot_getsomeattrs slot attnum else Inr slot) (\<lambda>slot1.
     bindE (slot_value slot1 (attnum - 1)) (\<lambda>v. Inr (slot1, v)))"

section \<open>Expression trees\<close>

datatype BoolExprType = AND_EXPR | OR_EXPR | NOT_EXPR
datatype ParamKind = PARAM_EXEC | PARAM_EXTERN | PARAM_SUBLINK | PARAM_MULTIEXPR
datatype NullTestType = IS_NULL | IS_NOT_NULL
datatype BoolTestType = IS_TRUE | IS_NOT_TRUE | IS_FALSE | IS_NOT_FALSE | IS_UNKNOWN | IS_NOT_UNKNOWN
datatype RowCompareType = ROWCOMPARE_LT | ROWCOMPARE_LE | ROWCOMPARE_EQ | ROWCOMPARE_GE | ROWCOMPARE_GT | ROWCOMPARE_NE
datatype MinMaxOp = IS_GREATEST | IS_LEAST

text \<open>
  The members of the nodes the code uses. An \<open>Aggref\<close> carries the number of its aggregate, a
  \<open>CoerceToDomain\<close> the constraints that are looked up for its type, a subplan its number and its
  test expression and arguments, which are evaluated by the subplan's own code.
\<close>

datatype (plugins only: code size) Expr =
    Var nat int Oid
  | Const Datum bool
  | Param ParamKind int Oid
  | Aggref nat
  | GroupingFunc "nat list"
  | FuncExpr Oid Oid "Expr list"
  | OpExpr Oid Oid "Expr list"
  | DistinctExpr Oid Oid "Expr list"
  | NullIfExpr Oid Oid "Expr list"
  | ScalarArrayOpExpr Oid Oid bool Expr Expr
  | BoolExpr BoolExprType "Expr list"
  | SubPlan nat "Expr list"
  | AlternativeSubPlan nat "Expr list"
  | RelabelType Expr
  | CoerceViaIO Expr Oid
  | CaseExpr "Expr option" "CaseWhen list" Expr
  | CaseTestExpr
  | RowCompareExpr RowCompareType "RowCompareColumn list"
  | CoalesceExpr "Expr list"
  | MinMaxExpr MinMaxOp Oid Oid "Expr list"
  | SQLValueFunction nat
  | NullTest NullTestType bool Expr
  | BooleanTest BoolTestType Expr
  | CoerceToDomain Expr Oid "DomainConstraint list"
  | CoerceToDomainValue
  | CurrentOfExpr
  | NextValueExpr Oid Oid
and CaseWhen = CaseWhen Expr Expr
and RowCompareColumn = RowCompareColumn Expr Expr Oid Oid Oid
and DomainConstraint = DOM_CONSTRAINT_NOTNULL string | DOM_CONSTRAINT_CHECK string Expr

section \<open>Evaluation steps\<close>

type_synonym loc = nat

definition RES :: loc where "RES = 0"

text \<open>What a call needs: the function, its collation, its argument cells and its strictness.\<close>

record func_data =
  fd_oid :: Oid
  fd_collation :: Oid
  fd_args :: loc
  fd_nargs :: nat
  fd_strict :: bool

datatype func_op = FUNCEXPR | FUNCEXPR_STRICT | FUNCEXPR_FUSAGE | FUNCEXPR_STRICT_FUSAGE | DISTINCT | NOT_DISTINCT | NULLIF
datatype bool_op = AND_STEP_FIRST | AND_STEP | AND_STEP_LAST | OR_STEP_FIRST | OR_STEP | OR_STEP_LAST | NOT_STEP
datatype jump_op = JUMP | JUMP_IF_NULL | JUMP_IF_NOT_NULL | JUMP_IF_NOT_TRUE

datatype (plugins only: code size) ExprEvalStep =
    SDone
  | SFetchsome slot_kind nat
  | SVar slot_kind nat Oid loc
  | SSysVar slot_kind int loc
  | SAssignVar slot_kind nat nat
  | SAssignTmp bool nat
  | SConst NullableDatum loc
  | SFunc func_op func_data loc
  | SBool bool_op loc int loc
  | SQual int loc
  | SJump jump_op int loc
  | SNullTest NullTestType bool loc
  | SBoolTest BoolTestType loc
  | SParam ParamKind int Oid loc
  | SCaseTestval "loc option" loc
  | SDomainTestval "loc option" loc
  | SMakeReadonly loc loc
  | SIOCoerce Oid Oid bool Oid loc
  | SSQLValueFunction nat loc
  | SCurrentOf loc
  | SNextValue Oid Oid loc
  | SRowCompareStep func_data int int loc
  | SRowCompareFinal RowCompareType loc
  | SMinMax MinMaxOp Oid Oid loc nat loc
  | SScalarArrayOp bool func_data loc
  | SDomainNotNull Oid loc
  | SDomainCheck Oid string loc loc
  | SAggref nat loc
  | SGroupingFunc "nat list" loc
  | SSubPlan nat loc
  | SAlternativeSubPlan nat loc

fun fetch_op :: "slot_kind \<Rightarrow> ExprEvalOp" where
  "fetch_op INNER = EEOP_INNER_FETCHSOME"
| "fetch_op OUTER = EEOP_OUTER_FETCHSOME"
| "fetch_op SCAN = EEOP_SCAN_FETCHSOME"

fun var_op :: "slot_kind \<Rightarrow> ExprEvalOp" where
  "var_op INNER = EEOP_INNER_VAR"
| "var_op OUTER = EEOP_OUTER_VAR"
| "var_op SCAN = EEOP_SCAN_VAR"

fun sysvar_op :: "slot_kind \<Rightarrow> ExprEvalOp" where
  "sysvar_op INNER = EEOP_INNER_SYSVAR"
| "sysvar_op OUTER = EEOP_OUTER_SYSVAR"
| "sysvar_op SCAN = EEOP_SCAN_SYSVAR"

fun assign_op :: "slot_kind \<Rightarrow> ExprEvalOp" where
  "assign_op INNER = EEOP_ASSIGN_INNER_VAR"
| "assign_op OUTER = EEOP_ASSIGN_OUTER_VAR"
| "assign_op SCAN = EEOP_ASSIGN_SCAN_VAR"

fun func_opcode :: "func_op \<Rightarrow> ExprEvalOp" where
  "func_opcode FUNCEXPR = EEOP_FUNCEXPR"
| "func_opcode FUNCEXPR_STRICT = EEOP_FUNCEXPR_STRICT"
| "func_opcode FUNCEXPR_FUSAGE = EEOP_FUNCEXPR_FUSAGE"
| "func_opcode FUNCEXPR_STRICT_FUSAGE = EEOP_FUNCEXPR_STRICT_FUSAGE"
| "func_opcode DISTINCT = EEOP_DISTINCT"
| "func_opcode NOT_DISTINCT = EEOP_NOT_DISTINCT"
| "func_opcode NULLIF = EEOP_NULLIF"

fun bool_opcode :: "bool_op \<Rightarrow> ExprEvalOp" where
  "bool_opcode AND_STEP_FIRST = EEOP_BOOL_AND_STEP_FIRST"
| "bool_opcode AND_STEP = EEOP_BOOL_AND_STEP"
| "bool_opcode AND_STEP_LAST = EEOP_BOOL_AND_STEP_LAST"
| "bool_opcode OR_STEP_FIRST = EEOP_BOOL_OR_STEP_FIRST"
| "bool_opcode OR_STEP = EEOP_BOOL_OR_STEP"
| "bool_opcode OR_STEP_LAST = EEOP_BOOL_OR_STEP_LAST"
| "bool_opcode NOT_STEP = EEOP_BOOL_NOT_STEP"

fun jump_opcode :: "jump_op \<Rightarrow> ExprEvalOp" where
  "jump_opcode JUMP = EEOP_JUMP"
| "jump_opcode JUMP_IF_NULL = EEOP_JUMP_IF_NULL"
| "jump_opcode JUMP_IF_NOT_NULL = EEOP_JUMP_IF_NOT_NULL"
| "jump_opcode JUMP_IF_NOT_TRUE = EEOP_JUMP_IF_NOT_TRUE"

fun nulltest_op :: "NullTestType \<Rightarrow> bool \<Rightarrow> ExprEvalOp" where
  "nulltest_op IS_NULL argisrow = (if argisrow then EEOP_NULLTEST_ROWISNULL else EEOP_NULLTEST_ISNULL)"
| "nulltest_op IS_NOT_NULL argisrow = (if argisrow then EEOP_NULLTEST_ROWISNOTNULL else EEOP_NULLTEST_ISNOTNULL)"

fun booltest_op :: "BoolTestType \<Rightarrow> ExprEvalOp" where
  "booltest_op IS_TRUE = EEOP_BOOLTEST_IS_TRUE"
| "booltest_op IS_NOT_TRUE = EEOP_BOOLTEST_IS_NOT_TRUE"
| "booltest_op IS_FALSE = EEOP_BOOLTEST_IS_FALSE"
| "booltest_op IS_NOT_FALSE = EEOP_BOOLTEST_IS_NOT_FALSE"
| "booltest_op IS_UNKNOWN = EEOP_NULLTEST_ISNULL"
| "booltest_op IS_NOT_UNKNOWN = EEOP_NULLTEST_ISNOTNULL"

fun step_op :: "ExprEvalStep \<Rightarrow> ExprEvalOp" where
  "step_op SDone = EEOP_DONE"
| "step_op (SFetchsome k _) = fetch_op k"
| "step_op (SVar k _ _ _) = var_op k"
| "step_op (SSysVar k _ _) = sysvar_op k"
| "step_op (SAssignVar k _ _) = assign_op k"
| "step_op (SAssignTmp ro _) = (if ro then EEOP_ASSIGN_TMP_MAKE_RO else EEOP_ASSIGN_TMP)"
| "step_op (SConst _ _) = EEOP_CONST"
| "step_op (SFunc f _ _) = func_opcode f"
| "step_op (SBool b _ _ _) = bool_opcode b"
| "step_op (SQual _ _) = EEOP_QUAL"
| "step_op (SJump j _ _) = jump_opcode j"
| "step_op (SNullTest t r _) = nulltest_op t r"
| "step_op (SBoolTest t _) = booltest_op t"
| "step_op (SParam k _ _ _) = (if k = PARAM_EXEC then EEOP_PARAM_EXEC else EEOP_PARAM_EXTERN)"
| "step_op (SCaseTestval _ _) = EEOP_CASE_TESTVAL"
| "step_op (SDomainTestval _ _) = EEOP_DOMAIN_TESTVAL"
| "step_op (SMakeReadonly _ _) = EEOP_MAKE_READONLY"
| "step_op (SIOCoerce _ _ _ _ _) = EEOP_IOCOERCE"
| "step_op (SSQLValueFunction _ _) = EEOP_SQLVALUEFUNCTION"
| "step_op (SCurrentOf _) = EEOP_CURRENTOFEXPR"
| "step_op (SNextValue _ _ _) = EEOP_NEXTVALUEEXPR"
| "step_op (SRowCompareStep _ _ _ _) = EEOP_ROWCOMPARE_STEP"
| "step_op (SRowCompareFinal _ _) = EEOP_ROWCOMPARE_FINAL"
| "step_op (SMinMax _ _ _ _ _ _) = EEOP_MINMAX"
| "step_op (SScalarArrayOp _ _ _) = EEOP_SCALARARRAYOP"
| "step_op (SDomainNotNull _ _) = EEOP_DOMAIN_NOTNULL"
| "step_op (SDomainCheck _ _ _ _) = EEOP_DOMAIN_CHECK"
| "step_op (SAggref _ _) = EEOP_AGGREF"
| "step_op (SGroupingFunc _ _) = EEOP_GROUPING_FUNC"
| "step_op (SSubPlan _ _) = EEOP_SUBPLAN"
| "step_op (SAlternativeSubPlan _ _) = EEOP_ALTERNATIVE_SUBPLAN"

end
