(* ===== verification/ExprInit.thy ===== *)
theory ExprInit
  imports ExprData
begin

text \<open>
  Translating an expression tree to evaluation steps: \<open>ExecInitExprRec\<close> and its helpers in
  \<open>src/backend/executor/execExpr.c\<close>.

  The steps are appended to \<open>steps\<close>, workspace is taken from \<open>next_cell\<close>, and jump targets that are
  not known yet are \<open>-1\<close> and set afterwards, as in the source. Constant arguments of functions are
  stored at translation time (\<open>preload\<close>). What the code looks up in the catalogs is the record
  \<open>cenv\<close>; a hook for external parameters (\<open>paramCompile\<close>) is not installed.
\<close>

section \<open>State and environment\<close>

record ExprState =
  steps :: "ExprEvalStep list"
  steps_alloc :: nat
  next_cell :: loc
  preload :: "(loc \<times> NullableDatum) list"
  innermost_caseval :: "loc option"
  innermost_domainval :: "loc option"
  numaggs :: nat
  subPlan_list :: "nat list"

record FmgrInfo =
  fn_strict :: bool
  fn_retset :: bool
  fn_stats :: nat

record cenv =
  ce_fmgr :: "Oid \<Rightarrow> FmgrInfo"
  ce_acl_ok :: "Oid \<Rightarrow> bool"
  ce_track_functions :: nat
  ce_parent :: bool
  ce_agg_parent :: bool
  ce_grouping_sets :: bool
  ce_varlena :: "Expr \<Rightarrow> bool"
  ce_typ_varlena :: "Oid \<Rightarrow> bool"
  ce_output_func :: "Expr \<Rightarrow> Oid"
  ce_input_func :: "Oid \<Rightarrow> Oid \<times> Oid"
  ce_row_proc :: "Oid \<Rightarrow> Oid \<Rightarrow> Oid"
  ce_cmp_proc :: "Oid \<Rightarrow> Oid"

definition FUNC_MAX_ARGS :: nat where "FUNC_MAX_ARGS = 100"

definition ExprEvalPushStep :: "ExprEvalStep \<Rightarrow> ExprState \<Rightarrow> ExprState" where
  "ExprEvalPushStep s es =
     (let n = (if steps_alloc es = 0 then 16
               else if steps_alloc es = length (steps es) then steps_alloc es * 2 else steps_alloc es)
      in es\<lparr>steps := steps es @ [s], steps_alloc := n\<rparr>)"

definition palloc_cells :: "nat \<Rightarrow> ExprState \<Rightarrow> loc \<times> ExprState" where
  "palloc_cells n es = (next_cell es, es\<lparr>next_cell := next_cell es + n\<rparr>)"

definition set_jump :: "int \<Rightarrow> ExprEvalStep \<Rightarrow> ExprEvalStep" where
  "set_jump t s =
     (case s of
        SBool b f _ r \<Rightarrow> SBool b f t r
      | SQual _ r \<Rightarrow> SQual t r
      | SJump j _ r \<Rightarrow> SJump j t r
      | SRowCompareStep f _ _ r \<Rightarrow> SRowCompareStep f t (t - 1) r
      | _ \<Rightarrow> s)"

text \<open>\<open>foreach(lc, adjust_jumps)\<close>: the steps at the listed positions get the current end as target.\<close>

definition adjust_jumps :: "nat list \<Rightarrow> ExprState \<Rightarrow> ExprState" where
  "adjust_jumps js es =
     es\<lparr>steps := fold (\<lambda>j ss. ss[j := set_jump (int (length (steps es))) (ss ! j)]) js (steps es)\<rparr>"

section \<open>Parts without recursion\<close>

definition init_var :: "nat \<Rightarrow> int \<Rightarrow> Oid \<Rightarrow> loc \<Rightarrow> ExprState \<Rightarrow> ExprState eres" where
  "init_var varno varattno vartype resv es =
     (if varattno = 0 then Inl Unmodelled
      else if varattno < 0 then Inr (ExprEvalPushStep (SSysVar (slot_of_varno varno) varattno resv) es)
      else Inr (ExprEvalPushStep (SVar (slot_of_varno varno) (nat varattno - 1) vartype resv) es))"

definition init_param :: "ParamKind \<Rightarrow> int \<Rightarrow> Oid \<Rightarrow> loc \<Rightarrow> ExprState \<Rightarrow> ExprState eres" where
  "init_param paramkind paramid paramtype resv es =
     (if paramkind = PARAM_EXEC \<or> paramkind = PARAM_EXTERN
      then Inr (ExprEvalPushStep (SParam paramkind paramid paramtype resv) es)
      else Inl (ERROR ERRCODE_INTERNAL_ERROR))"

definition init_aggref :: "cenv \<Rightarrow> nat \<Rightarrow> loc \<Rightarrow> ExprState \<Rightarrow> ExprState eres" where
  "init_aggref ce aggno resv es =
     (if ce_agg_parent ce
      then Inr (ExprEvalPushStep (SAggref aggno resv) (es\<lparr>numaggs := numaggs es + 1\<rparr>))
      else Inl (ERROR ERRCODE_INTERNAL_ERROR))"

definition init_grouping_func :: "cenv \<Rightarrow> nat list \<Rightarrow> loc \<Rightarrow> ExprState \<Rightarrow> ExprState eres" where
  "init_grouping_func ce cols resv es =
     (if ce_agg_parent ce
      then Inr (ExprEvalPushStep (SGroupingFunc (if ce_grouping_sets ce then cols else []) resv) es)
      else Inl (ERROR ERRCODE_INTERNAL_ERROR))"

definition init_subplan :: "cenv \<Rightarrow> nat \<Rightarrow> loc \<Rightarrow> ExprState \<Rightarrow> ExprState eres" where
  "init_subplan ce subplan resv es =
     (if ce_parent ce
      then Inr (ExprEvalPushStep (SSubPlan subplan resv) (es\<lparr>subPlan_list := subPlan_list es @ [subplan]\<rparr>))
      else Inl (ERROR ERRCODE_INTERNAL_ERROR))"

definition init_alternative_subplan :: "cenv \<Rightarrow> nat \<Rightarrow> loc \<Rightarrow> ExprState \<Rightarrow> ExprState eres" where
  "init_alternative_subplan ce asplan resv es =
     (if ce_parent ce then Inr (ExprEvalPushStep (SAlternativeSubPlan asplan resv) es)
      else Inl (ERROR ERRCODE_INTERNAL_ERROR))"

text \<open>\<open>ExecInitFunc\<close> up to the arguments, and the choice of the operation after them.\<close>

definition ExecInitFunc :: "cenv \<Rightarrow> Oid \<Rightarrow> Oid \<Rightarrow> nat \<Rightarrow> ExprState \<Rightarrow> (func_data \<times> ExprState) eres" where
  "ExecInitFunc ce funcid inputcollid nargs es =
     (if \<not> ce_acl_ok ce funcid then Inl (ERROR ERRCODE_INSUFFICIENT_PRIVILEGE)
      else if nargs > FUNC_MAX_ARGS then Inl (ERROR ERRCODE_TOO_MANY_ARGUMENTS)
      else
        let flinfo = ce_fmgr ce funcid; (base, es1) = palloc_cells nargs es
        in if fn_retset flinfo then Inl (ERROR ERRCODE_FEATURE_NOT_SUPPORTED)
           else Inr (\<lparr>fd_oid = funcid, fd_collation = inputcollid, fd_args = base, fd_nargs = nargs,
                      fd_strict = fn_strict flinfo\<rparr>, es1))"

definition func_step_op :: "cenv \<Rightarrow> Oid \<Rightarrow> nat \<Rightarrow> func_op" where
  "func_step_op ce funcid nargs =
     (let flinfo = ce_fmgr ce funcid
      in if ce_track_functions ce \<le> fn_stats flinfo
         then (if fn_strict flinfo \<and> nargs > 0 then FUNCEXPR_STRICT else FUNCEXPR)
         else (if fn_strict flinfo \<and> nargs > 0 then FUNCEXPR_STRICT_FUSAGE else FUNCEXPR_FUSAGE))"

definition init_scalararrayop :: "cenv \<Rightarrow> Oid \<Rightarrow> Oid \<Rightarrow> ExprState \<Rightarrow> (func_data \<times> ExprState) eres" where
  "init_scalararrayop ce opfuncid inputcollid es =
     (if \<not> ce_acl_ok ce opfuncid then Inl (ERROR ERRCODE_INSUFFICIENT_PRIVILEGE)
      else
        let (base, es1) = palloc_cells 2 es
        in Inr (\<lparr>fd_oid = opfuncid, fd_collation = inputcollid, fd_args = base, fd_nargs = 2,
                 fd_strict = fn_strict (ce_fmgr ce opfuncid)\<rparr>, es1))"

definition bool_step_op :: "BoolExprType \<Rightarrow> nat \<Rightarrow> nat \<Rightarrow> bool_op" where
  "bool_step_op boolop off nargs =
     (case boolop of
        AND_EXPR \<Rightarrow> if off = 0 then AND_STEP_FIRST else if off + 1 = nargs then AND_STEP_LAST else AND_STEP
      | OR_EXPR \<Rightarrow> if off = 0 then OR_STEP_FIRST else if off + 1 = nargs then OR_STEP_LAST else OR_STEP
      | NOT_EXPR \<Rightarrow> NOT_STEP)"

definition init_io_coerce :: "cenv \<Rightarrow> Expr \<Rightarrow> Oid \<Rightarrow> loc \<Rightarrow> ExprState \<Rightarrow> ExprState" where
  "init_io_coerce ce arg resulttype resv es =
     (let (iofunc, typioparam) = ce_input_func ce resulttype
      in ExprEvalPushStep (SIOCoerce (ce_output_func ce arg) iofunc (fn_strict (ce_fmgr ce iofunc)) typioparam resv) es)"

definition init_row_column :: "cenv \<Rightarrow> Oid \<Rightarrow> Oid \<Rightarrow> Oid \<Rightarrow> ExprState \<Rightarrow> (func_data \<times> ExprState) eres" where
  "init_row_column ce opno opfamily inputcollid es =
     (let proc = ce_row_proc ce opno opfamily
      in if proc = 0 then Inl (ERROR ERRCODE_INTERNAL_ERROR)
         else
           let (base, es1) = palloc_cells 2 es
           in Inr (\<lparr>fd_oid = proc, fd_collation = inputcollid, fd_args = base, fd_nargs = 2,
                    fd_strict = fn_strict (ce_fmgr ce proc)\<rparr>, es1))"

definition init_row_final :: "RowCompareType \<Rightarrow> nat \<Rightarrow> loc \<Rightarrow> ExprState \<Rightarrow> ExprState" where
  "init_row_final rctype nopers resv es =
     ExprEvalPushStep (SRowCompareFinal rctype resv)
       (if nopers = 0 then ExprEvalPushStep (SConst (Int32GetDatum 0, False) resv) es else es)"

definition init_boolean_test :: "BoolTestType \<Rightarrow> loc \<Rightarrow> ExprEvalStep" where
  "init_boolean_test booltesttype resv =
     (case booltesttype of
        IS_UNKNOWN \<Rightarrow> SNullTest IS_NULL False resv
      | IS_NOT_UNKNOWN \<Rightarrow> SNullTest IS_NOT_NULL False resv
      | _ \<Rightarrow> SBoolTest booltesttype resv)"

text \<open>Where \<open>CoerceToDomainValue\<close> reads from, set up at the first check constraint.\<close>

definition init_domainval :: "cenv \<Rightarrow> Oid \<Rightarrow> loc \<Rightarrow> loc option \<Rightarrow> ExprState \<Rightarrow> loc \<times> ExprState" where
  "init_domainval ce resulttype resv domainval es =
     (case domainval of
        Some d \<Rightarrow> (d, es)
      | None \<Rightarrow>
          if ce_typ_varlena ce resulttype
          then let (d, es1) = palloc_cells 1 es in (d, ExprEvalPushStep (SMakeReadonly resv d) es1)
          else (resv, es))"

definition init_checkvalue :: "loc option \<Rightarrow> ExprState \<Rightarrow> loc \<times> ExprState" where
  "init_checkvalue checkvalue es = (case checkvalue of Some c \<Rightarrow> (c, es) | None \<Rightarrow> palloc_cells 1 es)"

definition const_value :: "Expr \<Rightarrow> NullableDatum option" where
  "const_value arg = (case arg of Const constvalue constisnull \<Rightarrow> Some (constvalue, constisnull) | _ \<Rightarrow> None)"

section \<open>The loops over sub-expressions\<close>

text \<open>
  The translation of a sub-expression is a function of the place for its result and of the state.
  Each loop of the source is a function over the translations of the list it runs over, and those
  that leave jumps open return the positions of these steps.
\<close>

type_synonym translation = "loc \<Rightarrow> ExprState \<Rightarrow> ExprState eres"

fun init_func_args :: "(NullableDatum option \<times> translation) list \<Rightarrow> loc \<Rightarrow> ExprState \<Rightarrow> ExprState eres" where
  "init_func_args [] base es = Inr es"
| "init_func_args ((con, arg) # args) base es =
     bindE (case con of
              Some v \<Rightarrow> Inr (es\<lparr>preload := preload es @ [(base, v)]\<rparr>)
            | None \<Rightarrow> arg base es) (\<lambda>es1.
       init_func_args args (Suc base) es1)"

fun init_cell_args :: "translation list \<Rightarrow> loc \<Rightarrow> ExprState \<Rightarrow> ExprState eres" where
  "init_cell_args [] base es = Inr es"
| "init_cell_args (arg # args) base es = bindE (arg base es) (\<lambda>es1. init_cell_args args (Suc base) es1)"

fun init_bool_args ::
  "BoolExprType \<Rightarrow> loc \<Rightarrow> loc \<Rightarrow> nat \<Rightarrow> nat \<Rightarrow> translation list \<Rightarrow> ExprState \<Rightarrow> (ExprState \<times> nat list) eres" where
  "init_bool_args boolop anynull resv off nargs [] es = Inr (es, [])"
| "init_bool_args boolop anynull resv off nargs (arg # args) es =
     bindE (arg resv es) (\<lambda>es1.
       let es2 = ExprEvalPushStep (SBool (bool_step_op boolop off nargs) anynull (- 1) resv) es1
       in bindE (init_bool_args boolop anynull resv (Suc off) nargs args es2) (\<lambda>(es3, js).
            Inr (es3, (length (steps es2) - 1) # js)))"

fun init_whens :: "loc option \<Rightarrow> loc \<Rightarrow> (translation \<times> translation) list \<Rightarrow> ExprState \<Rightarrow> (ExprState \<times> nat list) eres" where
  "init_whens caseval resv [] es = Inr (es, [])"
| "init_whens caseval resv ((e, result) # whens) es =
     bindE (e resv (es\<lparr>innermost_caseval := caseval\<rparr>)) (\<lambda>es1.
       let es2 = ExprEvalPushStep (SJump JUMP_IF_NOT_TRUE (- 1) resv) (es1\<lparr>innermost_caseval := innermost_caseval es\<rparr>);
           whenstep = length (steps es2) - 1
       in bindE (result resv es2) (\<lambda>es3.
            let es4 = ExprEvalPushStep (SJump JUMP (- 1) resv) es3;
                es5 = adjust_jumps [whenstep] es4
            in bindE (init_whens caseval resv whens es5) (\<lambda>(es6, js).
                 Inr (es6, (length (steps es4) - 1) # js))))"

fun init_columns ::
  "cenv \<Rightarrow> loc \<Rightarrow> (translation \<times> translation \<times> Oid \<times> Oid \<times> Oid) list \<Rightarrow> ExprState \<Rightarrow> (ExprState \<times> nat list) eres" where
  "init_columns ce resv [] es = Inr (es, [])"
| "init_columns ce resv ((left_expr, right_expr, opno, opfamily, coll) # cols) es =
     bindE (init_row_column ce opno opfamily coll es) (\<lambda>(fd, es1).
     bindE (left_expr (fd_args fd) es1) (\<lambda>es2.
     bindE (right_expr (Suc (fd_args fd)) es2) (\<lambda>es3.
       let es4 = ExprEvalPushStep (SRowCompareStep fd (- 1) (- 1) resv) es3
       in bindE (init_columns ce resv cols es4) (\<lambda>(es5, js).
            Inr (es5, (length (steps es4) - 1) # js)))))"

fun init_coalesce :: "loc \<Rightarrow> translation list \<Rightarrow> ExprState \<Rightarrow> (ExprState \<times> nat list) eres" where
  "init_coalesce resv [] es = Inr (es, [])"
| "init_coalesce resv (e # args) es =
     bindE (e resv es) (\<lambda>es1.
       let es2 = ExprEvalPushStep (SJump JUMP_IF_NOT_NULL (- 1) resv) es1
       in bindE (init_coalesce resv args es2) (\<lambda>(es3, js).
            Inr (es3, (length (steps es2) - 1) # js)))"

text \<open>A constraint is its name and, for a check constraint, the translation of its expression.\<close>

fun init_constraints ::
  "cenv \<Rightarrow> Oid \<Rightarrow> loc \<Rightarrow> loc option \<Rightarrow> loc option \<Rightarrow> (string \<times> translation option) list \<Rightarrow> ExprState \<Rightarrow> ExprState eres" where
  "init_constraints ce resulttype resv checkvalue domainval [] es = Inr es"
| "init_constraints ce resulttype resv checkvalue domainval ((name, None) # cons) es =
     init_constraints ce resulttype resv checkvalue domainval cons
       (ExprEvalPushStep (SDomainNotNull resulttype resv) es)"
| "init_constraints ce resulttype resv checkvalue domainval ((name, Some check_expr) # cons) es =
     (let (c, es1) = init_checkvalue checkvalue es;
          (d, es2) = init_domainval ce resulttype resv domainval es1
      in bindE (check_expr c (es2\<lparr>innermost_domainval := Some d\<rparr>)) (\<lambda>es3.
           init_constraints ce resulttype resv (Some c) (Some d) cons
             (ExprEvalPushStep (SDomainCheck resulttype name c resv)
               (es3\<lparr>innermost_domainval := innermost_domainval es\<rparr>))))"

section \<open>The node types with sub-expressions\<close>

definition init_func ::
  "cenv \<Rightarrow> func_op \<Rightarrow> Oid \<Rightarrow> Oid \<Rightarrow> (NullableDatum option \<times> translation) list \<Rightarrow> translation" where
  "init_func ce f funcid coll args resv es =
     bindE (ExecInitFunc ce funcid coll (length args) es) (\<lambda>(fd, es1).
     bindE (init_func_args args (fd_args fd) es1) (\<lambda>es2.
       Inr (ExprEvalPushStep (SFunc f fd resv) es2)))"

definition init_scalar_array :: "cenv \<Rightarrow> Oid \<Rightarrow> Oid \<Rightarrow> bool \<Rightarrow> translation \<Rightarrow> translation \<Rightarrow> translation" where
  "init_scalar_array ce opfuncid coll useOr scalararg arrayarg resv es =
     bindE (init_scalararrayop ce opfuncid coll es) (\<lambda>(fd, es1).
     bindE (scalararg (fd_args fd) es1) (\<lambda>es2.
     bindE (arrayarg resv es2) (\<lambda>es3.
       Inr (ExprEvalPushStep (SScalarArrayOp useOr fd resv) es3))))"

definition init_bool :: "BoolExprType \<Rightarrow> translation list \<Rightarrow> translation" where
  "init_bool boolop args resv es =
     (let (anynull, es1) = (if boolop \<noteq> NOT_EXPR then palloc_cells 1 es else (0, es))
      in bindE (init_bool_args boolop anynull resv 0 (length args) args es1) (\<lambda>(es2, js).
           Inr (adjust_jumps js es2)))"

definition init_case_arg :: "(bool \<times> translation) option \<Rightarrow> ExprState \<Rightarrow> (loc option \<times> ExprState) eres" where
  "init_case_arg arg es =
     (case arg of
        None \<Rightarrow> Inr (None, es)
      | Some (varlena, a) \<Rightarrow>
          let (caseval, es1) = palloc_cells 1 es
          in bindE (a caseval es1) (\<lambda>es2.
               Inr (Some caseval, if varlena then ExprEvalPushStep (SMakeReadonly caseval caseval) es2 else es2)))"

definition init_case ::
  "(bool \<times> translation) option \<Rightarrow> (translation \<times> translation) list \<Rightarrow> translation \<Rightarrow> translation" where
  "init_case arg whens defresult resv es =
     bindE (init_case_arg arg es) (\<lambda>(caseval, es3).
     bindE (init_whens caseval resv whens es3) (\<lambda>(es4, js).
     bindE (defresult resv es4) (\<lambda>es5. Inr (adjust_jumps js es5))))"

definition init_row_compare ::
  "cenv \<Rightarrow> RowCompareType \<Rightarrow> (translation \<times> translation \<times> Oid \<times> Oid \<times> Oid) list \<Rightarrow> translation" where
  "init_row_compare ce rctype cols resv es =
     bindE (init_columns ce resv cols es) (\<lambda>(es1, js).
       Inr (adjust_jumps js (init_row_final rctype (length cols) resv es1)))"

definition init_coalesce_expr :: "translation list \<Rightarrow> translation" where
  "init_coalesce_expr args resv es =
     bindE (init_coalesce resv args es) (\<lambda>(es1, js). Inr (adjust_jumps js es1))"

definition init_min_max :: "cenv \<Rightarrow> MinMaxOp \<Rightarrow> Oid \<Rightarrow> Oid \<Rightarrow> translation list \<Rightarrow> translation" where
  "init_min_max ce opr minmaxtype coll args resv es =
     (if ce_cmp_proc ce minmaxtype = 0 then Inl (ERROR ERRCODE_UNDEFINED_FUNCTION)
      else
        let (base, es1) = palloc_cells (length args) es
        in bindE (init_cell_args args base es1) (\<lambda>es2.
             Inr (ExprEvalPushStep (SMinMax opr (ce_cmp_proc ce minmaxtype) coll base (length args) resv) es2)))"

definition init_unary :: "(loc \<Rightarrow> ExprState \<Rightarrow> ExprState) \<Rightarrow> translation \<Rightarrow> translation" where
  "init_unary push arg resv es = bindE (arg resv es) (\<lambda>es1. Inr (push resv es1))"

definition init_coerce_to_domain :: "cenv \<Rightarrow> Oid \<Rightarrow> translation \<Rightarrow> (string \<times> translation option) list \<Rightarrow> translation" where
  "init_coerce_to_domain ce resulttype arg constraints resv es =
     bindE (arg resv es) (\<lambda>es1. init_constraints ce resulttype resv None None constraints es1)"

section \<open>The translation\<close>

primrec ExecInitExprRec :: "cenv \<Rightarrow> Expr \<Rightarrow> translation"
  and init_when :: "cenv \<Rightarrow> CaseWhen \<Rightarrow> translation \<times> translation"
  and init_column :: "cenv \<Rightarrow> RowCompareColumn \<Rightarrow> translation \<times> translation \<times> Oid \<times> Oid \<times> Oid"
  and init_constraint :: "cenv \<Rightarrow> DomainConstraint \<Rightarrow> string \<times> translation option" where
  "ExecInitExprRec ce (Var varno varattno vartype) = init_var varno varattno vartype"
| "ExecInitExprRec ce (Const constvalue constisnull) =
     (\<lambda>resv es. Inr (ExprEvalPushStep (SConst (constvalue, constisnull) resv) es))"
| "ExecInitExprRec ce (Param paramkind paramid paramtype) = init_param paramkind paramid paramtype"
| "ExecInitExprRec ce (Aggref aggno) = init_aggref ce aggno"
| "ExecInitExprRec ce (GroupingFunc cols) = init_grouping_func ce cols"
| "ExecInitExprRec ce (FuncExpr funcid coll args) =
     init_func ce (func_step_op ce funcid (length args)) funcid coll
       (zip (map const_value args) (map (ExecInitExprRec ce) args))"
| "ExecInitExprRec ce (OpExpr opfuncid coll args) =
     init_func ce (func_step_op ce opfuncid (length args)) opfuncid coll
       (zip (map const_value args) (map (ExecInitExprRec ce) args))"
| "ExecInitExprRec ce (DistinctExpr opfuncid coll args) =
     init_func ce DISTINCT opfuncid coll (zip (map const_value args) (map (ExecInitExprRec ce) args))"
| "ExecInitExprRec ce (NullIfExpr opfuncid coll args) =
     init_func ce NULLIF opfuncid coll (zip (map const_value args) (map (ExecInitExprRec ce) args))"
| "ExecInitExprRec ce (ScalarArrayOpExpr opfuncid coll useOr scalararg arrayarg) =
     init_scalar_array ce opfuncid coll useOr (ExecInitExprRec ce scalararg) (ExecInitExprRec ce arrayarg)"
| "ExecInitExprRec ce (BoolExpr boolop args) = init_bool boolop (map (ExecInitExprRec ce) args)"
| "ExecInitExprRec ce (SubPlan subplan args) = init_subplan ce subplan"
| "ExecInitExprRec ce (AlternativeSubPlan asplan args) = init_alternative_subplan ce asplan"
| "ExecInitExprRec ce (RelabelType arg) = ExecInitExprRec ce arg"
| "ExecInitExprRec ce (CoerceViaIO arg resulttype) =
     init_unary (init_io_coerce ce arg resulttype) (ExecInitExprRec ce arg)"
| "ExecInitExprRec ce (CaseExpr arg args defresult) =
     init_case
       (case map_option (ExecInitExprRec ce) arg of None \<Rightarrow> None | Some a \<Rightarrow> Some (ce_varlena ce (the arg), a))
       (map (init_when ce) args) (ExecInitExprRec ce defresult)"
| "ExecInitExprRec ce CaseTestExpr =
     (\<lambda>resv es. Inr (ExprEvalPushStep (SCaseTestval (innermost_caseval es) resv) es))"
| "ExecInitExprRec ce (RowCompareExpr rctype cols) = init_row_compare ce rctype (map (init_column ce) cols)"
| "ExecInitExprRec ce (CoalesceExpr args) = init_coalesce_expr (map (ExecInitExprRec ce) args)"
| "ExecInitExprRec ce (MinMaxExpr opr minmaxtype coll args) =
     init_min_max ce opr minmaxtype coll (map (ExecInitExprRec ce) args)"
| "ExecInitExprRec ce (SQLValueFunction svf) = (\<lambda>resv es. Inr (ExprEvalPushStep (SSQLValueFunction svf resv) es))"
| "ExecInitExprRec ce (NullTest nulltesttype argisrow arg) =
     init_unary (\<lambda>resv. ExprEvalPushStep (SNullTest nulltesttype argisrow resv)) (ExecInitExprRec ce arg)"
| "ExecInitExprRec ce (BooleanTest booltesttype arg) =
     init_unary (\<lambda>resv. ExprEvalPushStep (init_boolean_test booltesttype resv)) (ExecInitExprRec ce arg)"
| "ExecInitExprRec ce (CoerceToDomain arg resulttype constraints) =
     init_coerce_to_domain ce resulttype (ExecInitExprRec ce arg) (map (init_constraint ce) constraints)"
| "ExecInitExprRec ce CoerceToDomainValue =
     (\<lambda>resv es. Inr (ExprEvalPushStep (SDomainTestval (innermost_domainval es) resv) es))"
| "ExecInitExprRec ce CurrentOfExpr = (\<lambda>resv es. Inr (ExprEvalPushStep (SCurrentOf resv) es))"
| "ExecInitExprRec ce (NextValueExpr seqid seqtypid) =
     (\<lambda>resv es. Inr (ExprEvalPushStep (SNextValue seqid seqtypid resv) es))"
| "init_when ce (CaseWhen e result) = (ExecInitExprRec ce e, ExecInitExprRec ce result)"
| "init_column ce (RowCompareColumn left_expr right_expr opno opfamily coll) =
     (ExecInitExprRec ce left_expr, ExecInitExprRec ce right_expr, opno, opfamily, coll)"
| "init_constraint ce (DOM_CONSTRAINT_NOTNULL name) = (name, None)"
| "init_constraint ce (DOM_CONSTRAINT_CHECK name check_expr) = (name, Some (ExecInitExprRec ce check_expr))"

section \<open>The attributes an expression needs\<close>

record LastAttnumInfo =
  last_inner :: int
  last_outer :: int
  last_scan :: int

definition note_var :: "nat \<Rightarrow> int \<Rightarrow> LastAttnumInfo \<Rightarrow> LastAttnumInfo" where
  "note_var varno attnum info =
     (case slot_of_varno varno of
        INNER \<Rightarrow> info\<lparr>last_inner := max (last_inner info) attnum\<rparr>
      | OUTER \<Rightarrow> info\<lparr>last_outer := max (last_outer info) attnum\<rparr>
      | SCAN \<Rightarrow> info\<lparr>last_scan := max (last_scan info) attnum\<rparr>)"

text \<open>\<open>expression_tree_walker\<close> visits the sub-expressions in order; constraints are not part of the tree.\<close>

fun walk_all :: "(LastAttnumInfo \<Rightarrow> LastAttnumInfo) list \<Rightarrow> LastAttnumInfo \<Rightarrow> LastAttnumInfo" where
  "walk_all [] info = info"
| "walk_all (f # fs) info = walk_all fs (f info)"

primrec get_last_attnums_walker :: "Expr \<Rightarrow> LastAttnumInfo \<Rightarrow> LastAttnumInfo"
  and walk_when :: "CaseWhen \<Rightarrow> LastAttnumInfo \<Rightarrow> LastAttnumInfo"
  and walk_column :: "RowCompareColumn \<Rightarrow> LastAttnumInfo \<Rightarrow> LastAttnumInfo"
  and walk_constraint :: "DomainConstraint \<Rightarrow> LastAttnumInfo \<Rightarrow> LastAttnumInfo" where
  "get_last_attnums_walker (Var varno varattno vartype) = note_var varno varattno"
| "get_last_attnums_walker (Const constvalue constisnull) = (\<lambda>info. info)"
| "get_last_attnums_walker (Param paramkind paramid paramtype) = (\<lambda>info. info)"
| "get_last_attnums_walker (Aggref aggno) = (\<lambda>info. info)"
| "get_last_attnums_walker (GroupingFunc cols) = (\<lambda>info. info)"
| "get_last_attnums_walker (FuncExpr funcid coll args) = walk_all (map get_last_attnums_walker args)"
| "get_last_attnums_walker (OpExpr opfuncid coll args) = walk_all (map get_last_attnums_walker args)"
| "get_last_attnums_walker (DistinctExpr opfuncid coll args) = walk_all (map get_last_attnums_walker args)"
| "get_last_attnums_walker (NullIfExpr opfuncid coll args) = walk_all (map get_last_attnums_walker args)"
| "get_last_attnums_walker (ScalarArrayOpExpr opfuncid coll useOr scalararg arrayarg) =
     (\<lambda>info. get_last_attnums_walker arrayarg (get_last_attnums_walker scalararg info))"
| "get_last_attnums_walker (BoolExpr boolop args) = walk_all (map get_last_attnums_walker args)"
| "get_last_attnums_walker (SubPlan subplan args) = walk_all (map get_last_attnums_walker args)"
| "get_last_attnums_walker (AlternativeSubPlan asplan args) = walk_all (map get_last_attnums_walker args)"
| "get_last_attnums_walker (RelabelType arg) = get_last_attnums_walker arg"
| "get_last_attnums_walker (CoerceViaIO arg resulttype) = get_last_attnums_walker arg"
| "get_last_attnums_walker (CaseExpr arg args defresult) =
     (\<lambda>info. get_last_attnums_walker defresult (walk_all (map walk_when args)
        (case map_option get_last_attnums_walker arg of None \<Rightarrow> info | Some w \<Rightarrow> w info)))"
| "get_last_attnums_walker CaseTestExpr = (\<lambda>info. info)"
| "get_last_attnums_walker (RowCompareExpr rctype cols) = walk_all (map walk_column cols)"
| "get_last_attnums_walker (CoalesceExpr args) = walk_all (map get_last_attnums_walker args)"
| "get_last_attnums_walker (MinMaxExpr opr minmaxtype coll args) = walk_all (map get_last_attnums_walker args)"
| "get_last_attnums_walker (SQLValueFunction svf) = (\<lambda>info. info)"
| "get_last_attnums_walker (NullTest nulltesttype argisrow arg) = get_last_attnums_walker arg"
| "get_last_attnums_walker (BooleanTest booltesttype arg) = get_last_attnums_walker arg"
| "get_last_attnums_walker (CoerceToDomain arg resulttype constraints) = get_last_attnums_walker arg"
| "get_last_attnums_walker CoerceToDomainValue = (\<lambda>info. info)"
| "get_last_attnums_walker CurrentOfExpr = (\<lambda>info. info)"
| "get_last_attnums_walker (NextValueExpr seqid seqtypid) = (\<lambda>info. info)"
| "walk_when (CaseWhen e result) = (\<lambda>info. get_last_attnums_walker result (get_last_attnums_walker e info))"
| "walk_column (RowCompareColumn left_expr right_expr opno opfamily coll) =
     (\<lambda>info. get_last_attnums_walker right_expr (get_last_attnums_walker left_expr info))"
| "walk_constraint (DOM_CONSTRAINT_NOTNULL name) = (\<lambda>info. info)"
| "walk_constraint (DOM_CONSTRAINT_CHECK name check_expr) = (\<lambda>info. info)"

section \<open>Deforming steps\<close>

datatype TupleTableSlotOps = TTSOpsVirtual | TTSOpsHeapTuple | TTSOpsMinimalTuple | TTSOpsBufferHeapTuple

text \<open>
  What the parent plan node says about a slot: \<open>*opsset\<close>, \<open>*opsfixed\<close>, \<open>*ops\<close>, for the inner and the
  outer slot the child node's result slot, and for the scan slot whether its descriptor is known.
\<close>

record slot_info =
  si_opsset :: bool
  si_opsfixed :: bool
  si_ops :: "TupleTableSlotOps option"
  si_child :: "(TupleTableSlotOps \<times> bool) option"
  si_desc :: bool

definition ExecComputeSlotInfo :: "(slot_kind \<Rightarrow> slot_info) option \<Rightarrow> slot_kind \<Rightarrow> bool" where
  "ExecComputeSlotInfo parent k =
     (let (isfixed, desc, ops) =
        (case parent of
           None \<Rightarrow> (False, False, None)
         | Some f \<Rightarrow>
             let si = f k
             in if k = SCAN then (si_opsset si \<and> si_opsfixed si, si_desc si, si_ops si)
                else if si_opsset si \<and> \<not> si_opsfixed si then (False, False, None)
                else if si_opsset si \<and> si_ops si \<noteq> None then (True, True, si_ops si)
                else (case si_child si of None \<Rightarrow> (False, False, None) | Some (ops, fixed) \<Rightarrow> (fixed, True, Some ops)));
          fixed = (isfixed \<and> desc \<and> ops \<noteq> None)
      in \<not> (fixed \<and> ops = Some TTSOpsVirtual))"

definition push_fetch :: "(slot_kind \<Rightarrow> slot_info) option \<Rightarrow> slot_kind \<Rightarrow> int \<Rightarrow> ExprState \<Rightarrow> ExprState" where
  "push_fetch parent k last_var es =
     (if last_var > 0 \<and> ExecComputeSlotInfo parent k then ExprEvalPushStep (SFetchsome k (nat last_var)) es else es)"

definition ExecPushExprSlots :: "(slot_kind \<Rightarrow> slot_info) option \<Rightarrow> LastAttnumInfo \<Rightarrow> ExprState \<Rightarrow> ExprState" where
  "ExecPushExprSlots parent info es =
     push_fetch parent SCAN (last_scan info)
       (push_fetch parent OUTER (last_outer info)
         (push_fetch parent INNER (last_inner info) es))"

definition ExecInitExprSlots :: "(slot_kind \<Rightarrow> slot_info) option \<Rightarrow> Expr list \<Rightarrow> ExprState \<Rightarrow> ExprState" where
  "ExecInitExprSlots parent nodes es =
     ExecPushExprSlots parent
       (fold get_last_attnums_walker nodes \<lparr>last_inner = 0, last_outer = 0, last_scan = 0\<rparr>) es"

section \<open>Entry points\<close>

definition new_ExprState :: ExprState where
  "new_ExprState = \<lparr>steps = [], steps_alloc = 0, next_cell = Suc RES, preload = [], innermost_caseval = None,
     innermost_domainval = None, numaggs = 0, subPlan_list = []\<rparr>"

text \<open>The steps of the entry points, up to \<open>ExecReadyExpr\<close>.\<close>

definition ExecInitExpr :: "cenv \<Rightarrow> (slot_kind \<Rightarrow> slot_info) option \<Rightarrow> Expr option \<Rightarrow> ExprState option eres" where
  "ExecInitExpr ce parent node =
     (case node of
        None \<Rightarrow> Inr None
      | Some e \<Rightarrow>
          bindE (ExecInitExprRec ce e RES (ExecInitExprSlots parent [e] new_ExprState)) (\<lambda>es.
            Inr (Some (ExprEvalPushStep SDone es))))"

fun init_quals :: "translation list \<Rightarrow> ExprState \<Rightarrow> (ExprState \<times> nat list) eres" where
  "init_quals [] es = Inr (es, [])"
| "init_quals (node # quals) es =
     bindE (node RES es) (\<lambda>es1.
       let es2 = ExprEvalPushStep (SQual (- 1) RES) es1
       in bindE (init_quals quals es2) (\<lambda>(es3, js). Inr (es3, (length (steps es2) - 1) # js)))"

definition ExecInitQual :: "cenv \<Rightarrow> (slot_kind \<Rightarrow> slot_info) option \<Rightarrow> Expr list \<Rightarrow> ExprState option eres" where
  "ExecInitQual ce parent qual =
     (if qual = [] then Inr None
      else
        bindE (init_quals (map (ExecInitExprRec ce) qual) (ExecInitExprSlots parent qual new_ExprState)) (\<lambda>(es, js).
          Inr (Some (ExprEvalPushStep SDone (adjust_jumps js es)))))"

definition make_ands_explicit :: "Expr list \<Rightarrow> Expr" where
  "make_ands_explicit andclauses = (case andclauses of [] \<Rightarrow> Const (BoolGetDatum True) False | [e] \<Rightarrow> e | _ \<Rightarrow> BoolExpr AND_EXPR andclauses)"

definition ExecInitCheck :: "cenv \<Rightarrow> (slot_kind \<Rightarrow> slot_info) option \<Rightarrow> Expr list \<Rightarrow> ExprState option eres" where
  "ExecInitCheck ce parent qual =
     (if qual = [] then Inr None else ExecInitExpr ce parent (Some (make_ands_explicit qual)))"

record TargetEntry =
  te_expr :: Expr
  te_resno :: nat
  te_resjunk :: bool

definition is_safe_var :: "bool \<Rightarrow> (bool \<times> Oid) list option \<Rightarrow> TargetEntry \<Rightarrow> bool" where
  "is_safe_var assignJunkEntries inputDesc tle =
     (case te_expr tle of
        Var varno attnum vartype \<Rightarrow>
          attnum > 0 \<and> (assignJunkEntries \<or> \<not> te_resjunk tle) \<and>
          (case inputDesc of
             None \<Rightarrow> True
           | Some attrs \<Rightarrow>
               attnum \<le> int (length attrs) \<and> \<not> fst (attrs ! (nat attnum - 1)) \<and> vartype = snd (attrs ! (nat attnum - 1)))
      | _ \<Rightarrow> False)"

definition assign_step :: "TargetEntry \<Rightarrow> ExprEvalStep" where
  "assign_step tle =
     (case te_expr tle of
        Var varno attnum vartype \<Rightarrow> SAssignVar (slot_of_varno varno) (te_resno tle - 1) (nat attnum - 1)
      | _ \<Rightarrow> SDone)"

fun init_targets ::
  "cenv \<Rightarrow> bool \<Rightarrow> (bool \<times> Oid) list option \<Rightarrow> TargetEntry list \<Rightarrow> ExprState \<Rightarrow> ExprState eres" where
  "init_targets ce assignJunkEntries inputDesc [] es = Inr es"
| "init_targets ce assignJunkEntries inputDesc (tle # tlist) es =
     bindE (if is_safe_var assignJunkEntries inputDesc tle then Inr (ExprEvalPushStep (assign_step tle) es)
            else
              bindE (ExecInitExprRec ce (te_expr tle) RES es) (\<lambda>es1.
                if \<not> assignJunkEntries \<and> te_resjunk tle then Inr es1
                else Inr (ExprEvalPushStep (SAssignTmp (ce_varlena ce (te_expr tle)) (te_resno tle - 1)) es1)))
       (init_targets ce assignJunkEntries inputDesc tlist)"

definition ExecBuildProjectionInfoExt ::
  "cenv \<Rightarrow> (slot_kind \<Rightarrow> slot_info) option \<Rightarrow> bool \<Rightarrow> (bool \<times> Oid) list option \<Rightarrow> TargetEntry list \<Rightarrow> ExprState eres" where
  "ExecBuildProjectionInfoExt ce parent assignJunkEntries inputDesc targetList =
     bindE (init_targets ce assignJunkEntries inputDesc targetList
             (ExecInitExprSlots parent (map te_expr targetList) new_ExprState)) (\<lambda>es.
       Inr (ExprEvalPushStep SDone es))"

end
