(* ===== verification/ExprInterp.thy ===== *)
theory ExprInterp
  imports ExprInit
begin

text \<open>
  The interpreter: \<open>ExecInterpExpr\<close> and the out-of-line evaluation functions of
  \<open>src/backend/executor/execExprInterp.c\<close>.

  Everything a step calls outside this file is a member of the record \<open>fenv\<close>: the functions of
  the function manager, the array and row access, parameters, subplans and sequences. They may
  change the world \<open>'w\<close> and raise errors. A function is given its arguments as optional values: the
  datum of an argument whose null flag is set is never looked at. The usage statistics of the
  \<open>FUSAGE\<close> operations are left out.
\<close>

unbundle bit_operations_syntax

section \<open>Run-time state\<close>

record 'w fenv =
  fe_call :: "Oid \<Rightarrow> Oid \<Rightarrow> Datum option list \<Rightarrow> 'w \<Rightarrow> (NullableDatum \<times> 'w) eres"
  fe_make_ro :: "Datum \<Rightarrow> Datum"
  fe_array_items :: "Datum \<Rightarrow> 'w \<Rightarrow> Datum option list"
  fe_row_nulls :: "Datum \<Rightarrow> 'w \<Rightarrow> bool list eres"
  fe_sysattr :: "slot_kind \<Rightarrow> int \<Rightarrow> 'w \<Rightarrow> NullableDatum eres"
  fe_param_exec :: "int \<Rightarrow> 'w \<Rightarrow> bool \<times> NullableDatum"
  fe_set_param_plan :: "int \<Rightarrow> 'w \<Rightarrow> 'w eres"
  fe_param_extern :: "int \<Rightarrow> 'w \<Rightarrow> (Oid \<times> NullableDatum) option"
  fe_subplan :: "nat \<Rightarrow> 'w \<Rightarrow> (NullableDatum \<times> 'w) eres"
  fe_alternative_subplan :: "nat \<Rightarrow> 'w \<Rightarrow> (NullableDatum \<times> 'w) eres"
  fe_sql_value :: "nat \<Rightarrow> 'w \<Rightarrow> (NullableDatum \<times> 'w) eres"
  fe_nextval :: "Oid \<Rightarrow> 'w \<Rightarrow> (64 word \<times> 'w) eres"
  fe_aggvalue :: "nat \<Rightarrow> 'w \<Rightarrow> NullableDatum"
  fe_grouped_cols :: "'w \<Rightarrow> nat list"
  fe_caseValue :: NullableDatum
  fe_domainValue :: NullableDatum

record 'w rstate =
  cells :: "loc \<Rightarrow> NullableDatum"
  flags :: "loc \<Rightarrow> bool"
  slots :: "slot_kind \<Rightarrow> TupleTableSlot"
  resultslot :: "NullableDatum list"
  world :: 'w

text \<open>How a step ends: \<open>EEO_NEXT\<close>, \<open>EEO_JUMP\<close> or \<open>goto out\<close>.\<close>

datatype control = Next | Goto int | Out

definition set_res :: "loc \<Rightarrow> NullableDatum \<Rightarrow> 'w rstate \<Rightarrow> 'w rstate" where
  "set_res r v s = s\<lparr>cells := (cells s)(r := v)\<rparr>"

definition next_with :: "loc \<Rightarrow> NullableDatum \<Rightarrow> 'w rstate \<Rightarrow> (control \<times> 'w rstate) eres" where
  "next_with r v s = Inr (Next, set_res r v s)"

definition next_call :: "loc \<Rightarrow> (NullableDatum \<times> 'w) eres \<Rightarrow> 'w rstate \<Rightarrow> (control \<times> 'w rstate) eres" where
  "next_call r c s = bindE c (\<lambda>(v, w). next_with r v (s\<lparr>world := w\<rparr>))"

section \<open>Variables and the result slot\<close>

definition exec_fetchsome :: "slot_kind \<Rightarrow> nat \<Rightarrow> 'w rstate \<Rightarrow> (control \<times> 'w rstate) eres" where
  "exec_fetchsome k last_var s =
     bindE (slot_getsomeattrs (slots s k) last_var) (\<lambda>slot. Inr (Next, s\<lparr>slots := (slots s)(k := slot)\<rparr>))"

definition exec_var :: "slot_kind \<Rightarrow> nat \<Rightarrow> loc \<Rightarrow> 'w rstate \<Rightarrow> (control \<times> 'w rstate) eres" where
  "exec_var k attnum r s = bindE (slot_value (slots s k) attnum) (\<lambda>v. next_with r v s)"

definition ExecEvalSysVar :: "'w fenv \<Rightarrow> slot_kind \<Rightarrow> int \<Rightarrow> loc \<Rightarrow> 'w rstate \<Rightarrow> (control \<times> 'w rstate) eres" where
  "ExecEvalSysVar fe k attnum r s =
     bindE (fe_sysattr fe k attnum (world s)) (\<lambda>v.
       if snd v then Inl (ERROR ERRCODE_INTERNAL_ERROR) else next_with r v s)"

definition assign_result :: "nat \<Rightarrow> NullableDatum \<Rightarrow> 'w rstate \<Rightarrow> (control \<times> 'w rstate) eres" where
  "assign_result resultnum v s =
     (if resultnum < length (resultslot s) then Inr (Next, s\<lparr>resultslot := (resultslot s)[resultnum := v]\<rparr>)
      else Inl (Fault OutOfBounds))"

definition exec_assign_var :: "slot_kind \<Rightarrow> nat \<Rightarrow> nat \<Rightarrow> 'w rstate \<Rightarrow> (control \<times> 'w rstate) eres" where
  "exec_assign_var k resultnum attnum s = bindE (slot_value (slots s k) attnum) (\<lambda>v. assign_result resultnum v s)"

definition exec_assign_tmp :: "'w fenv \<Rightarrow> bool \<Rightarrow> nat \<Rightarrow> 'w rstate \<Rightarrow> (control \<times> 'w rstate) eres" where
  "exec_assign_tmp fe make_ro resultnum s =
     (let (resvalue, resnull) = cells s RES
      in assign_result resultnum
           (if make_ro \<and> \<not> resnull then fe_make_ro fe resvalue else resvalue, resnull) s)"

section \<open>Function calls\<close>

definition fcinfo_args :: "func_data \<Rightarrow> 'w rstate \<Rightarrow> Datum option list" where
  "fcinfo_args fd s = map (\<lambda>i. nd (cells s (fd_args fd + i))) [0..<fd_nargs fd]"

definition invoke :: "'w fenv \<Rightarrow> func_data \<Rightarrow> 'w rstate \<Rightarrow> (NullableDatum \<times> 'w) eres" where
  "invoke fe fd s = fe_call fe (fd_oid fd) (fd_collation fd) (fcinfo_args fd s) (world s)"

definition exec_funcexpr :: "'w fenv \<Rightarrow> func_data \<Rightarrow> loc \<Rightarrow> 'w rstate \<Rightarrow> (control \<times> 'w rstate) eres" where
  "exec_funcexpr fe fd r s = next_call r (invoke fe fd s) s"

definition exec_funcexpr_strict :: "'w fenv \<Rightarrow> func_data \<Rightarrow> loc \<Rightarrow> 'w rstate \<Rightarrow> (control \<times> 'w rstate) eres" where
  "exec_funcexpr_strict fe fd r s =
     (if None \<in> set (fcinfo_args fd s) then next_with r (fst (cells s r), True) s
      else next_call r (invoke fe fd s) s)"

definition arg_null :: "func_data \<Rightarrow> nat \<Rightarrow> 'w rstate \<Rightarrow> bool" where
  "arg_null fd i s = snd (cells s (fd_args fd + i))"

definition exec_distinct :: "'w fenv \<Rightarrow> func_data \<Rightarrow> loc \<Rightarrow> 'w rstate \<Rightarrow> (control \<times> 'w rstate) eres" where
  "exec_distinct fe fd r s =
     (if arg_null fd 0 s \<and> arg_null fd 1 s then next_with r (BoolGetDatum False, False) s
      else if arg_null fd 0 s \<or> arg_null fd 1 s then next_with r (BoolGetDatum True, False) s
      else
        bindE (invoke fe fd s) (\<lambda>((eqresult, isnull), w).
          next_with r (BoolGetDatum (\<not> DatumGetBool eqresult), isnull) (s\<lparr>world := w\<rparr>)))"

definition exec_not_distinct :: "'w fenv \<Rightarrow> func_data \<Rightarrow> loc \<Rightarrow> 'w rstate \<Rightarrow> (control \<times> 'w rstate) eres" where
  "exec_not_distinct fe fd r s =
     (if arg_null fd 0 s \<and> arg_null fd 1 s then next_with r (BoolGetDatum True, False) s
      else if arg_null fd 0 s \<or> arg_null fd 1 s then next_with r (BoolGetDatum False, False) s
      else next_call r (invoke fe fd s) s)"

definition exec_nullif :: "'w fenv \<Rightarrow> func_data \<Rightarrow> loc \<Rightarrow> 'w rstate \<Rightarrow> (control \<times> 'w rstate) eres" where
  "exec_nullif fe fd r s =
     (if \<not> arg_null fd 0 s \<and> \<not> arg_null fd 1 s then
        bindE (invoke fe fd s) (\<lambda>((result, isnull), w).
          let s1 = s\<lparr>world := w\<rparr>
          in if \<not> isnull \<and> DatumGetBool result then next_with r (0, True) s1
             else next_with r (cells s1 (fd_args fd)) s1)
      else next_with r (cells s (fd_args fd)) s)"

fun exec_func :: "'w fenv \<Rightarrow> func_op \<Rightarrow> func_data \<Rightarrow> loc \<Rightarrow> 'w rstate \<Rightarrow> (control \<times> 'w rstate) eres" where
  "exec_func fe FUNCEXPR fd r s = exec_funcexpr fe fd r s"
| "exec_func fe FUNCEXPR_STRICT fd r s = exec_funcexpr_strict fe fd r s"
| "exec_func fe FUNCEXPR_FUSAGE fd r s = exec_funcexpr fe fd r s"
| "exec_func fe FUNCEXPR_STRICT_FUSAGE fd r s = exec_funcexpr_strict fe fd r s"
| "exec_func fe DISTINCT fd r s = exec_distinct fe fd r s"
| "exec_func fe NOT_DISTINCT fd r s = exec_not_distinct fe fd r s"
| "exec_func fe NULLIF fd r s = exec_nullif fe fd r s"

section \<open>Boolean operators, quals and jumps\<close>

definition set_anynull :: "loc \<Rightarrow> bool \<Rightarrow> 'w rstate \<Rightarrow> 'w rstate" where
  "set_anynull f b s = s\<lparr>flags := (flags s)(f := b)\<rparr>"

definition exec_and_step :: "loc \<Rightarrow> int \<Rightarrow> loc \<Rightarrow> 'w rstate \<Rightarrow> (control \<times> 'w rstate) eres" where
  "exec_and_step anynull jumpdone r s =
     (if snd (cells s r) then Inr (Next, set_anynull anynull True s)
      else if \<not> DatumGetBool (fst (cells s r)) then Inr (Goto jumpdone, s)
      else Inr (Next, s))"

definition exec_and_last :: "loc \<Rightarrow> loc \<Rightarrow> 'w rstate \<Rightarrow> (control \<times> 'w rstate) eres" where
  "exec_and_last anynull r s =
     (if snd (cells s r) then Inr (Next, s)
      else if \<not> DatumGetBool (fst (cells s r)) then Inr (Next, s)
      else if flags s anynull then next_with r (0, True) s
      else Inr (Next, s))"

definition exec_or_step :: "loc \<Rightarrow> int \<Rightarrow> loc \<Rightarrow> 'w rstate \<Rightarrow> (control \<times> 'w rstate) eres" where
  "exec_or_step anynull jumpdone r s =
     (if snd (cells s r) then Inr (Next, set_anynull anynull True s)
      else if DatumGetBool (fst (cells s r)) then Inr (Goto jumpdone, s)
      else Inr (Next, s))"

definition exec_or_last :: "loc \<Rightarrow> loc \<Rightarrow> 'w rstate \<Rightarrow> (control \<times> 'w rstate) eres" where
  "exec_or_last anynull r s =
     (if snd (cells s r) then Inr (Next, s)
      else if DatumGetBool (fst (cells s r)) then Inr (Next, s)
      else if flags s anynull then next_with r (0, True) s
      else Inr (Next, s))"

definition exec_not_step :: "loc \<Rightarrow> 'w rstate \<Rightarrow> (control \<times> 'w rstate) eres" where
  "exec_not_step r s = next_with r (BoolGetDatum (\<not> DatumGetBool (fst (cells s r))), snd (cells s r)) s"

fun exec_bool :: "bool_op \<Rightarrow> loc \<Rightarrow> int \<Rightarrow> loc \<Rightarrow> 'w rstate \<Rightarrow> (control \<times> 'w rstate) eres" where
  "exec_bool AND_STEP_FIRST f j r s = exec_and_step f j r (set_anynull f False s)"
| "exec_bool AND_STEP f j r s = exec_and_step f j r s"
| "exec_bool AND_STEP_LAST f j r s = exec_and_last f r s"
| "exec_bool OR_STEP_FIRST f j r s = exec_or_step f j r (set_anynull f False s)"
| "exec_bool OR_STEP f j r s = exec_or_step f j r s"
| "exec_bool OR_STEP_LAST f j r s = exec_or_last f r s"
| "exec_bool NOT_STEP f j r s = exec_not_step r s"

definition exec_qual :: "int \<Rightarrow> loc \<Rightarrow> 'w rstate \<Rightarrow> (control \<times> 'w rstate) eres" where
  "exec_qual jumpdone r s =
     (if snd (cells s r) \<or> \<not> DatumGetBool (fst (cells s r))
      then Inr (Goto jumpdone, set_res r (BoolGetDatum False, False) s)
      else Inr (Next, s))"

fun exec_jump :: "jump_op \<Rightarrow> int \<Rightarrow> loc \<Rightarrow> 'w rstate \<Rightarrow> (control \<times> 'w rstate) eres" where
  "exec_jump JUMP j r s = Inr (Goto j, s)"
| "exec_jump JUMP_IF_NULL j r s = Inr (if snd (cells s r) then Goto j else Next, s)"
| "exec_jump JUMP_IF_NOT_NULL j r s = Inr (if \<not> snd (cells s r) then Goto j else Next, s)"
| "exec_jump JUMP_IF_NOT_TRUE j r s =
     Inr (if snd (cells s r) \<or> \<not> DatumGetBool (fst (cells s r)) then Goto j else Next, s)"

section \<open>Null and boolean tests\<close>

definition ExecEvalRowNullInt :: "'w fenv \<Rightarrow> bool \<Rightarrow> loc \<Rightarrow> 'w rstate \<Rightarrow> (control \<times> 'w rstate) eres" where
  "ExecEvalRowNullInt fe checkisnull r s =
     (let (v, isnull) = cells s r
      in if isnull then next_with r (BoolGetDatum checkisnull, False) s
         else
           bindE (fe_row_nulls fe v (world s)) (\<lambda>nulls.
             next_with r (BoolGetDatum (\<forall>n \<in> set nulls. n = checkisnull), False) s))"

fun exec_nulltest :: "'w fenv \<Rightarrow> NullTestType \<Rightarrow> bool \<Rightarrow> loc \<Rightarrow> 'w rstate \<Rightarrow> (control \<times> 'w rstate) eres" where
  "exec_nulltest fe IS_NULL argisrow r s =
     (if argisrow then ExecEvalRowNullInt fe True r s else next_with r (BoolGetDatum (snd (cells s r)), False) s)"
| "exec_nulltest fe IS_NOT_NULL argisrow r s =
     (if argisrow then ExecEvalRowNullInt fe False r s else next_with r (BoolGetDatum (\<not> snd (cells s r)), False) s)"

fun exec_booltest :: "BoolTestType \<Rightarrow> loc \<Rightarrow> 'w rstate \<Rightarrow> (control \<times> 'w rstate) eres" where
  "exec_booltest IS_TRUE r s =
     (if snd (cells s r) then next_with r (BoolGetDatum False, False) s else Inr (Next, s))"
| "exec_booltest IS_NOT_TRUE r s =
     (if snd (cells s r) then next_with r (BoolGetDatum True, False) s
      else next_with r (BoolGetDatum (\<not> DatumGetBool (fst (cells s r))), snd (cells s r)) s)"
| "exec_booltest IS_FALSE r s =
     (if snd (cells s r) then next_with r (BoolGetDatum False, False) s
      else next_with r (BoolGetDatum (\<not> DatumGetBool (fst (cells s r))), snd (cells s r)) s)"
| "exec_booltest IS_NOT_FALSE r s =
     (if snd (cells s r) then next_with r (BoolGetDatum True, False) s else Inr (Next, s))"
| "exec_booltest IS_UNKNOWN r s = next_with r (BoolGetDatum (snd (cells s r)), False) s"
| "exec_booltest IS_NOT_UNKNOWN r s = next_with r (BoolGetDatum (\<not> snd (cells s r)), False) s"

section \<open>Parameters and test values\<close>

definition ExecEvalParamExec :: "'w fenv \<Rightarrow> int \<Rightarrow> loc \<Rightarrow> 'w rstate \<Rightarrow> (control \<times> 'w rstate) eres" where
  "ExecEvalParamExec fe paramid r s =
     bindE (if fst (fe_param_exec fe paramid (world s)) then fe_set_param_plan fe paramid (world s) else Inr (world s)) (\<lambda>w.
       next_with r (snd (fe_param_exec fe paramid w)) (s\<lparr>world := w\<rparr>))"

definition ExecEvalParamExtern :: "'w fenv \<Rightarrow> int \<Rightarrow> Oid \<Rightarrow> loc \<Rightarrow> 'w rstate \<Rightarrow> (control \<times> 'w rstate) eres" where
  "ExecEvalParamExtern fe paramId paramtype r s =
     (case fe_param_extern fe paramId (world s) of
        Some (ptype, prm) \<Rightarrow>
          if ptype = 0 then Inl (ERROR ERRCODE_UNDEFINED_OBJECT)
          else if ptype \<noteq> paramtype then Inl (ERROR ERRCODE_DATATYPE_MISMATCH)
          else next_with r prm s
      | None \<Rightarrow> Inl (ERROR ERRCODE_UNDEFINED_OBJECT))"

definition exec_param :: "'w fenv \<Rightarrow> ParamKind \<Rightarrow> int \<Rightarrow> Oid \<Rightarrow> loc \<Rightarrow> 'w rstate \<Rightarrow> (control \<times> 'w rstate) eres" where
  "exec_param fe paramkind paramid paramtype r s =
     (if paramkind = PARAM_EXEC then ExecEvalParamExec fe paramid r s
      else ExecEvalParamExtern fe paramid paramtype r s)"

definition exec_testval :: "NullableDatum \<Rightarrow> loc option \<Rightarrow> loc \<Rightarrow> 'w rstate \<Rightarrow> (control \<times> 'w rstate) eres" where
  "exec_testval econtext_value src r s =
     next_with r (case src of Some c \<Rightarrow> cells s c | None \<Rightarrow> econtext_value) s"

definition exec_make_readonly :: "'w fenv \<Rightarrow> loc \<Rightarrow> loc \<Rightarrow> 'w rstate \<Rightarrow> (control \<times> 'w rstate) eres" where
  "exec_make_readonly fe src r s =
     (let (v, isnull) = cells s src
      in next_with r (if \<not> isnull then fe_make_ro fe v else fst (cells s r), isnull) s)"

section \<open>Coercion through the text form\<close>

text \<open>\<open>op->resnull\<close> is left as it is, whatever the two functions return in \<open>isnull\<close>.\<close>

definition exec_iocoerce ::
  "'w fenv \<Rightarrow> Oid \<Rightarrow> Oid \<Rightarrow> bool \<Rightarrow> Oid \<Rightarrow> loc \<Rightarrow> 'w rstate \<Rightarrow> (control \<times> 'w rstate) eres" where
  "exec_iocoerce fe outfunc infunc in_strict typioparam r s =
     (let (resvalue, resnull) = cells s r
      in bindE (if resnull then Inr ((0, True), world s) else fe_call fe outfunc 0 [Some resvalue] (world s)) (\<lambda>((str, _), w).
           if \<not> in_strict \<or> str \<noteq> 0 then
             bindE (fe_call fe infunc 0 [nd (str, resnull), Some (of_nat typioparam), Some (Int32GetDatum (- 1))] w)
               (\<lambda>((d, _), w1). next_with r (d, resnull) (s\<lparr>world := w1\<rparr>))
           else Inr (Next, s\<lparr>world := w\<rparr>)))"

section \<open>Row comparison\<close>

definition exec_rowcompare_step ::
  "'w fenv \<Rightarrow> func_data \<Rightarrow> int \<Rightarrow> int \<Rightarrow> loc \<Rightarrow> 'w rstate \<Rightarrow> (control \<times> 'w rstate) eres" where
  "exec_rowcompare_step fe fd jumpnull jumpdone r s =
     (if fd_strict fd \<and> (arg_null fd 0 s \<or> arg_null fd 1 s)
      then Inr (Goto jumpnull, set_res r (fst (cells s r), True) s)
      else
        bindE (invoke fe fd s) (\<lambda>((d, isnull), w).
          let s1 = set_res r (d, isnull) (s\<lparr>world := w\<rparr>)
          in if isnull then Inr (Goto jumpnull, s1)
             else if DatumGetInt32 d \<noteq> 0 then Inr (Goto jumpdone, s1)
             else Inr (Next, s1)))"

definition row_compare_result :: "RowCompareType \<Rightarrow> Datum \<Rightarrow> Datum" where
  "row_compare_result rctype d =
     (case rctype of
        ROWCOMPARE_LT \<Rightarrow> BoolGetDatum (DatumGetInt32 d < 0)
      | ROWCOMPARE_LE \<Rightarrow> BoolGetDatum (DatumGetInt32 d \<le> 0)
      | ROWCOMPARE_GE \<Rightarrow> BoolGetDatum (DatumGetInt32 d \<ge> 0)
      | ROWCOMPARE_GT \<Rightarrow> BoolGetDatum (DatumGetInt32 d > 0)
      | _ \<Rightarrow> d)"

definition exec_rowcompare_final :: "RowCompareType \<Rightarrow> loc \<Rightarrow> 'w rstate \<Rightarrow> (control \<times> 'w rstate) eres" where
  "exec_rowcompare_final rctype r s = next_with r (row_compare_result rctype (fst (cells s r)), False) s"

section \<open>\<open>GREATEST\<close> and \<open>LEAST\<close>\<close>

fun minmax_loop ::
  "'w fenv \<Rightarrow> MinMaxOp \<Rightarrow> Oid \<Rightarrow> Oid \<Rightarrow> Datum option list \<Rightarrow> NullableDatum \<Rightarrow> 'w \<Rightarrow> (NullableDatum \<times> 'w) eres" where
  "minmax_loop fe opr fn coll [] res w = Inr (res, w)"
| "minmax_loop fe opr fn coll (None # vs) res w = minmax_loop fe opr fn coll vs res w"
| "minmax_loop fe opr fn coll (Some v # vs) res w =
     (if snd res then minmax_loop fe opr fn coll vs (v, False) w
      else
        bindE (fe_call fe fn coll [Some (fst res), Some v] w) (\<lambda>((c, isnull), w1).
          minmax_loop fe opr fn coll vs
            (if isnull then res
             else if DatumGetInt32 c > 0 \<and> opr = IS_LEAST then (v, False)
             else if DatumGetInt32 c < 0 \<and> opr = IS_GREATEST then (v, False)
             else res) w1))"

definition ExecEvalMinMax ::
  "'w fenv \<Rightarrow> MinMaxOp \<Rightarrow> Oid \<Rightarrow> Oid \<Rightarrow> loc \<Rightarrow> nat \<Rightarrow> loc \<Rightarrow> 'w rstate \<Rightarrow> (control \<times> 'w rstate) eres" where
  "ExecEvalMinMax fe opr fn coll base nelems r s =
     next_call r
       (minmax_loop fe opr fn coll (map (\<lambda>i. nd (cells s (base + i))) [0..<nelems]) (fst (cells s r), True) (world s)) s"

section \<open>\<open>op ANY\<close> and \<open>op ALL\<close>\<close>

fun scalararray_loop ::
  "'w fenv \<Rightarrow> bool \<Rightarrow> func_data \<Rightarrow> Datum option \<Rightarrow> Datum option list \<Rightarrow> NullableDatum \<Rightarrow> 'w \<Rightarrow> (NullableDatum \<times> 'w) eres" where
  "scalararray_loop fe useOr fd scalar [] res w = Inr (res, w)"
| "scalararray_loop fe useOr fd scalar (elt # elts) res w =
     bindE (if elt = None \<and> fd_strict fd then Inr ((0, True), w)
            else fe_call fe (fd_oid fd) (fd_collation fd) [scalar, elt] w) (\<lambda>((thisresult, isnull), w1).
       if isnull then scalararray_loop fe useOr fd scalar elts (fst res, True) w1
       else if useOr then
         if DatumGetBool thisresult then Inr ((BoolGetDatum True, False), w1)
         else scalararray_loop fe useOr fd scalar elts res w1
       else
         if \<not> DatumGetBool thisresult then Inr ((BoolGetDatum False, False), w1)
         else scalararray_loop fe useOr fd scalar elts res w1)"

definition ExecEvalScalarArrayOp :: "'w fenv \<Rightarrow> bool \<Rightarrow> func_data \<Rightarrow> loc \<Rightarrow> 'w rstate \<Rightarrow> (control \<times> 'w rstate) eres" where
  "ExecEvalScalarArrayOp fe useOr fd r s =
     (if snd (cells s r) then Inr (Next, s)
      else
        let items = fe_array_items fe (fst (cells s r)) (world s)
        in if items = [] then next_with r (BoolGetDatum (\<not> useOr), False) s
           else if arg_null fd 0 s \<and> fd_strict fd then next_with r (fst (cells s r), True) s
           else next_call r
                  (scalararray_loop fe useOr fd (nd (cells s (fd_args fd))) items (BoolGetDatum (\<not> useOr), False) (world s)) s)"

section \<open>Domain constraints\<close>

definition ExecEvalConstraintNotNull :: "loc \<Rightarrow> 'w rstate \<Rightarrow> (control \<times> 'w rstate) eres" where
  "ExecEvalConstraintNotNull r s =
     (if snd (cells s r) then Inl (ERROR ERRCODE_NOT_NULL_VIOLATION) else Inr (Next, s))"

definition ExecEvalConstraintCheck :: "loc \<Rightarrow> 'w rstate \<Rightarrow> (control \<times> 'w rstate) eres" where
  "ExecEvalConstraintCheck check s =
     (if \<not> snd (cells s check) \<and> \<not> DatumGetBool (fst (cells s check)) then Inl (ERROR ERRCODE_CHECK_VIOLATION)
      else Inr (Next, s))"

section \<open>Sequences, grouping and the remaining values\<close>

definition INT8OID :: Oid where "INT8OID = 20"
definition INT2OID :: Oid where "INT2OID = 21"
definition INT4OID :: Oid where "INT4OID = 23"

definition ExecEvalNextValueExpr :: "'w fenv \<Rightarrow> Oid \<Rightarrow> Oid \<Rightarrow> loc \<Rightarrow> 'w rstate \<Rightarrow> (control \<times> 'w rstate) eres" where
  "ExecEvalNextValueExpr fe seqid seqtypid r s =
     bindE (fe_nextval fe seqid (world s)) (\<lambda>(newval, w).
       if seqtypid = INT2OID then next_with r (scast (ucast newval :: 16 word), False) (s\<lparr>world := w\<rparr>)
       else if seqtypid = INT4OID then next_with r (scast (ucast newval :: 32 word), False) (s\<lparr>world := w\<rparr>)
       else if seqtypid = INT8OID then next_with r (newval, False) (s\<lparr>world := w\<rparr>)
       else Inl (ERROR ERRCODE_INTERNAL_ERROR))"

definition grouping_bits :: "nat list \<Rightarrow> nat list \<Rightarrow> 32 word" where
  "grouping_bits clauses grouped_cols =
     fold (\<lambda>attnum result. if attnum \<notin> set grouped_cols then push_bit 1 result OR 1 else push_bit 1 result) clauses 0"

definition ExecEvalGroupingFunc :: "'w fenv \<Rightarrow> nat list \<Rightarrow> loc \<Rightarrow> 'w rstate \<Rightarrow> (control \<times> 'w rstate) eres" where
  "ExecEvalGroupingFunc fe clauses r s =
     next_with r (Int32GetDatum (sint (grouping_bits clauses (fe_grouped_cols fe (world s)))), False) s"

definition exec_aggref :: "'w fenv \<Rightarrow> nat \<Rightarrow> loc \<Rightarrow> 'w rstate \<Rightarrow> (control \<times> 'w rstate) eres" where
  "exec_aggref fe aggno r s = next_with r (fe_aggvalue fe aggno (world s)) s"

definition ExecEvalSubPlan :: "'w fenv \<Rightarrow> nat \<Rightarrow> loc \<Rightarrow> 'w rstate \<Rightarrow> (control \<times> 'w rstate) eres" where
  "ExecEvalSubPlan fe subplan r s = next_call r (fe_subplan fe subplan (world s)) s"

definition ExecEvalAlternativeSubPlan :: "'w fenv \<Rightarrow> nat \<Rightarrow> loc \<Rightarrow> 'w rstate \<Rightarrow> (control \<times> 'w rstate) eres" where
  "ExecEvalAlternativeSubPlan fe asplan r s = next_call r (fe_alternative_subplan fe asplan (world s)) s"

definition exec_sql_value_function :: "'w fenv \<Rightarrow> nat \<Rightarrow> loc \<Rightarrow> 'w rstate \<Rightarrow> (control \<times> 'w rstate) eres" where
  "exec_sql_value_function fe svf r s = next_call r (fe_sql_value fe svf (world s)) s"

definition ExecEvalCurrentOfExpr :: "'w rstate \<Rightarrow> (control \<times> 'w rstate) eres" where
  "ExecEvalCurrentOfExpr s = Inl (ERROR ERRCODE_FEATURE_NOT_SUPPORTED)"

section \<open>The dispatch loop\<close>

fun exec_step :: "'w fenv \<Rightarrow> ExprEvalStep \<Rightarrow> 'w rstate \<Rightarrow> (control \<times> 'w rstate) eres" where
  "exec_step fe SDone s = Inr (Out, s)"
| "exec_step fe (SFetchsome k last_var) s = exec_fetchsome k last_var s"
| "exec_step fe (SVar k attnum vartype r) s = exec_var k attnum r s"
| "exec_step fe (SSysVar k attnum r) s = ExecEvalSysVar fe k attnum r s"
| "exec_step fe (SAssignVar k resultnum attnum) s = exec_assign_var k resultnum attnum s"
| "exec_step fe (SAssignTmp make_ro resultnum) s = exec_assign_tmp fe make_ro resultnum s"
| "exec_step fe (SConst v r) s = next_with r v s"
| "exec_step fe (SFunc f fd r) s = exec_func fe f fd r s"
| "exec_step fe (SBool b anynull jumpdone r) s = exec_bool b anynull jumpdone r s"
| "exec_step fe (SQual jumpdone r) s = exec_qual jumpdone r s"
| "exec_step fe (SJump j jumpdone r) s = exec_jump j jumpdone r s"
| "exec_step fe (SNullTest t argisrow r) s = exec_nulltest fe t argisrow r s"
| "exec_step fe (SBoolTest t r) s = exec_booltest t r s"
| "exec_step fe (SParam paramkind paramid paramtype r) s = exec_param fe paramkind paramid paramtype r s"
| "exec_step fe (SCaseTestval c r) s = exec_testval (fe_caseValue fe) c r s"
| "exec_step fe (SDomainTestval c r) s = exec_testval (fe_domainValue fe) c r s"
| "exec_step fe (SMakeReadonly src r) s = exec_make_readonly fe src r s"
| "exec_step fe (SIOCoerce outfunc infunc in_strict typioparam r) s = exec_iocoerce fe outfunc infunc in_strict typioparam r s"
| "exec_step fe (SSQLValueFunction svf r) s = exec_sql_value_function fe svf r s"
| "exec_step fe (SCurrentOf r) s = ExecEvalCurrentOfExpr s"
| "exec_step fe (SNextValue seqid seqtypid r) s = ExecEvalNextValueExpr fe seqid seqtypid r s"
| "exec_step fe (SRowCompareStep fd jumpnull jumpdone r) s = exec_rowcompare_step fe fd jumpnull jumpdone r s"
| "exec_step fe (SRowCompareFinal rctype r) s = exec_rowcompare_final rctype r s"
| "exec_step fe (SMinMax opr fn coll base nelems r) s = ExecEvalMinMax fe opr fn coll base nelems r s"
| "exec_step fe (SScalarArrayOp useOr fd r) s = ExecEvalScalarArrayOp fe useOr fd r s"
| "exec_step fe (SDomainNotNull resulttype r) s = ExecEvalConstraintNotNull r s"
| "exec_step fe (SDomainCheck resulttype name check r) s = ExecEvalConstraintCheck check s"
| "exec_step fe (SAggref aggno r) s = exec_aggref fe aggno r s"
| "exec_step fe (SGroupingFunc clauses r) s = ExecEvalGroupingFunc fe clauses r s"
| "exec_step fe (SSubPlan subplan r) s = ExecEvalSubPlan fe subplan r s"
| "exec_step fe (SAlternativeSubPlan asplan r) s = ExecEvalAlternativeSubPlan fe asplan r s"

text \<open>
  The loop over the steps. A jump may lead backwards, so the loop need not end; \<open>None\<close> is a run that
  does not end. A position outside the steps is a fault.
\<close>

partial_function (option) run :: "'w fenv \<Rightarrow> ExprEvalStep list \<Rightarrow> int \<Rightarrow> 'w rstate \<Rightarrow> 'w rstate eres option" where
  "run fe ss pc s =
     (if pc < 0 \<or> int (length ss) \<le> pc then Some (Inl (Fault OutOfBounds))
      else
        case exec_step fe (ss ! nat pc) s of
          Inl e \<Rightarrow> Some (Inl e)
        | Inr (Next, s1) \<Rightarrow> run fe ss (pc + 1) s1
        | Inr (Goto j, s1) \<Rightarrow> run fe ss j s1
        | Inr (Out, s1) \<Rightarrow> Some (Inr s1))"

definition ExecInterpExpr :: "'w fenv \<Rightarrow> ExprEvalStep list \<Rightarrow> 'w rstate \<Rightarrow> (NullableDatum \<times> 'w rstate) eres option" where
  "ExecInterpExpr fe ss s =
     map_option (\<lambda>r. bindE r (\<lambda>s1. Inr (cells s1 RES, s1))) (run fe ss 0 s)"

definition ExecQual :: "'w fenv \<Rightarrow> ExprState option \<Rightarrow> 'w rstate \<Rightarrow> (bool \<times> 'w rstate) eres option" where
  "ExecQual fe state s =
     (case state of
        None \<Rightarrow> Some (Inr (True, s))
      | Some es \<Rightarrow> map_option (\<lambda>r. bindE r (\<lambda>((ret, _), s1). Inr (DatumGetBool ret, s1))) (ExecInterpExpr fe (steps es) s))"

definition ExecCheck :: "'w fenv \<Rightarrow> ExprState option \<Rightarrow> 'w rstate \<Rightarrow> (bool \<times> 'w rstate) eres option" where
  "ExecCheck fe state s =
     (case state of
        None \<Rightarrow> Some (Inr (True, s))
      | Some es \<Rightarrow>
          map_option (\<lambda>r. bindE r (\<lambda>((ret, isnull), s1). Inr (isnull \<or> DatumGetBool ret, s1)))
            (ExecInterpExpr fe (steps es) s))"

end
