(* ===== verification/ExprSem.thy ===== *)
theory ExprSem
  imports ExprInterp
begin

text \<open>
  What an expression means, independent of steps, cells and jumps: a value or null, the changed
  world, or an error. It is defined on the tree and follows the descriptions of the node types in
  \<open>src/include/nodes/primnodes.h\<close>: which sub-expressions are evaluated, in which order, and how
  null is treated. The theory \<open>ExprCorrect\<close> shows that the steps compute it.
\<close>

section \<open>Meanings and their combinators\<close>

text \<open>Attributes are read by \<open>rd\<close>; \<open>tv\<close> has the values of \<open>CaseTestExpr\<close> and \<open>CoerceToDomainValue\<close>.\<close>

type_synonym reader = "slot_kind \<Rightarrow> nat \<Rightarrow> NullableDatum eres"
type_synonym testvals = "Datum option \<times> Datum option"
type_synonym 'w answer = "(Datum option \<times> 'w) eres"
type_synonym 'w meaning = "reader \<Rightarrow> testvals \<Rightarrow> 'w \<Rightarrow> 'w answer"

definition istrue :: "Datum option \<Rightarrow> bool" where
  "istrue v = (case v of None \<Rightarrow> False | Some d \<Rightarrow> DatumGetBool d)"

definition isfalse :: "Datum option \<Rightarrow> bool" where
  "isfalse v = (case v of None \<Rightarrow> False | Some d \<Rightarrow> \<not> DatumGetBool d)"

definition sbool :: "bool \<Rightarrow> Datum option" where "sbool b = Some (BoolGetDatum b)"

definition sem_call :: "'w fenv \<Rightarrow> Oid \<Rightarrow> Oid \<Rightarrow> Datum option list \<Rightarrow> 'w \<Rightarrow> 'w answer" where
  "sem_call fe f coll vs w = bindE (fe_call fe f coll vs w) (\<lambda>(v, w1). Inr (nd v, w1))"

fun sem_args :: "('w \<Rightarrow> 'w answer) list \<Rightarrow> 'w \<Rightarrow> (Datum option list \<times> 'w) eres" where
  "sem_args [] w = Inr ([], w)"
| "sem_args (m # ms) w = bindE (m w) (\<lambda>(v, w1). bindE (sem_args ms w1) (\<lambda>(vs, w2). Inr (v # vs, w2)))"

definition sem_funcexpr :: "'w fenv \<Rightarrow> bool \<Rightarrow> Oid \<Rightarrow> Oid \<Rightarrow> Datum option list \<Rightarrow> 'w \<Rightarrow> 'w answer" where
  "sem_funcexpr fe strict f coll vs w = (if strict \<and> None \<in> set vs then Inr (None, w) else sem_call fe f coll vs w)"

definition sem_distinct :: "'w fenv \<Rightarrow> Oid \<Rightarrow> Oid \<Rightarrow> Datum option list \<Rightarrow> 'w \<Rightarrow> 'w answer" where
  "sem_distinct fe f coll vs w =
     (if hd vs = None \<or> vs ! 1 = None then Inr (sbool (hd vs \<noteq> vs ! 1), w)
      else bindE (sem_call fe f coll vs w) (\<lambda>(v, w1). Inr (map_option (\<lambda>d. BoolGetDatum (\<not> DatumGetBool d)) v, w1)))"

definition sem_nullif :: "'w fenv \<Rightarrow> Oid \<Rightarrow> Oid \<Rightarrow> Datum option list \<Rightarrow> 'w \<Rightarrow> 'w answer" where
  "sem_nullif fe f coll vs w =
     (if hd vs = None \<or> vs ! 1 = None then Inr (hd vs, w)
      else bindE (sem_call fe f coll vs w) (\<lambda>(v, w1). Inr (if istrue v then None else hd vs, w1)))"

text \<open>
  Three-valued \<open>AND\<close> and \<open>OR\<close>: the arguments are evaluated from the left until one decides the
  result; \<open>anynull\<close> says whether an argument was null.
\<close>

fun sem_and :: "bool \<Rightarrow> ('w \<Rightarrow> 'w answer) list \<Rightarrow> 'w \<Rightarrow> 'w answer" where
  "sem_and anynull [] w = Inr (if anynull then None else sbool True, w)"
| "sem_and anynull [m] w = bindE (m w) (\<lambda>(v, w1). Inr (if istrue v \<and> anynull then None else v, w1))"
| "sem_and anynull (m # ms) w =
     bindE (m w) (\<lambda>(v, w1). if isfalse v then Inr (v, w1) else sem_and (anynull \<or> v = None) ms w1)"

fun sem_or :: "bool \<Rightarrow> ('w \<Rightarrow> 'w answer) list \<Rightarrow> 'w \<Rightarrow> 'w answer" where
  "sem_or anynull [] w = Inr (if anynull then None else sbool False, w)"
| "sem_or anynull [m] w = bindE (m w) (\<lambda>(v, w1). Inr (if isfalse v \<and> anynull then None else v, w1))"
| "sem_or anynull (m # ms) w =
     bindE (m w) (\<lambda>(v, w1). if istrue v then Inr (v, w1) else sem_or (anynull \<or> v = None) ms w1)"

definition sem_not :: "Datum option \<Rightarrow> Datum option" where
  "sem_not v = map_option (\<lambda>d. BoolGetDatum (\<not> DatumGetBool d)) v"

definition sem_bool :: "BoolExprType \<Rightarrow> ('w \<Rightarrow> 'w answer) list \<Rightarrow> 'w \<Rightarrow> 'w answer" where
  "sem_bool boolop ms w =
     (case boolop of
        AND_EXPR \<Rightarrow> sem_and False ms w
      | OR_EXPR \<Rightarrow> sem_or False ms w
      | NOT_EXPR \<Rightarrow> bindE (hd ms w) (\<lambda>(v, w1). Inr (sem_not v, w1)))"

fun sem_whens :: "(('w \<Rightarrow> 'w answer) \<times> ('w \<Rightarrow> 'w answer)) list \<Rightarrow> ('w \<Rightarrow> 'w answer) \<Rightarrow> 'w \<Rightarrow> 'w answer" where
  "sem_whens [] d w = d w"
| "sem_whens ((c, m) # whens) d w = bindE (c w) (\<lambda>(v, w1). if istrue v then m w1 else sem_whens whens d w1)"

fun sem_coalesce :: "('w \<Rightarrow> 'w answer) list \<Rightarrow> 'w \<Rightarrow> 'w answer" where
  "sem_coalesce [] w = Inr (None, w)"
| "sem_coalesce (m # ms) w = bindE (m w) (\<lambda>(v, w1). if v = None then sem_coalesce ms w1 else Inr (v, w1))"

text \<open>Columns are compared until one differs or a comparison is null.\<close>

fun sem_columns ::
  "'w fenv \<Rightarrow> (('w \<Rightarrow> 'w answer) \<times> ('w \<Rightarrow> 'w answer) \<times> Oid \<times> bool \<times> Oid) list \<Rightarrow> 'w \<Rightarrow> 'w answer" where
  "sem_columns fe [] w = Inr (Some (Int32GetDatum 0), w)"
| "sem_columns fe ((ml, mr, f, strict, coll) # cols) w =
     bindE (ml w) (\<lambda>(l, w1). bindE (mr w1) (\<lambda>(r, w2).
       bindE (sem_funcexpr fe strict f coll [l, r] w2) (\<lambda>(v, w3).
         case v of
           None \<Rightarrow> Inr (None, w3)
         | Some d \<Rightarrow> if DatumGetInt32 d \<noteq> 0 \<or> cols = [] then Inr (v, w3) else sem_columns fe cols w3)))"

fun sem_minmax :: "'w fenv \<Rightarrow> MinMaxOp \<Rightarrow> Oid \<Rightarrow> Oid \<Rightarrow> Datum option list \<Rightarrow> Datum option \<Rightarrow> 'w \<Rightarrow> 'w answer" where
  "sem_minmax fe opr f coll [] best w = Inr (best, w)"
| "sem_minmax fe opr f coll (None # vs) best w = sem_minmax fe opr f coll vs best w"
| "sem_minmax fe opr f coll (Some v # vs) None w = sem_minmax fe opr f coll vs (Some v) w"
| "sem_minmax fe opr f coll (Some v # vs) (Some b) w =
     bindE (sem_call fe f coll [Some b, Some v] w) (\<lambda>(c, w1).
       sem_minmax fe opr f coll vs
         (case c of
            None \<Rightarrow> Some b
          | Some c \<Rightarrow>
              if (opr = IS_LEAST \<and> DatumGetInt32 c > 0) \<or> (opr = IS_GREATEST \<and> DatumGetInt32 c < 0) then Some v else Some b) w1)"

text \<open>\<open>scalar op ANY (array)\<close> is the disjunction, \<open>ALL\<close> the conjunction, over the elements.\<close>

definition sem_element :: "'w fenv \<Rightarrow> bool \<Rightarrow> Oid \<Rightarrow> Oid \<Rightarrow> Datum option \<Rightarrow> Datum option \<Rightarrow> 'w \<Rightarrow> 'w answer" where
  "sem_element fe strict f coll scalar elt w =
     bindE (if strict \<and> elt = None then Inr (None, w) else sem_call fe f coll [scalar, elt] w)
       (\<lambda>(v, w1). Inr (map_option (\<lambda>d. BoolGetDatum (DatumGetBool d)) v, w1))"

definition sem_scalararray ::
  "'w fenv \<Rightarrow> bool \<Rightarrow> bool \<Rightarrow> Oid \<Rightarrow> Oid \<Rightarrow> Datum option \<Rightarrow> Datum option \<Rightarrow> 'w \<Rightarrow> 'w answer" where
  "sem_scalararray fe useOr strict f coll scalar arr w =
     (case arr of
        None \<Rightarrow> Inr (None, w)
      | Some a \<Rightarrow>
          let items = fe_array_items fe a w
          in if items \<noteq> [] \<and> scalar = None \<and> strict then Inr (None, w)
             else
               let ms = map (sem_element fe strict f coll scalar) items
               in if useOr then sem_or False ms w else sem_and False ms w)"

definition sem_iocoerce :: "'w fenv \<Rightarrow> Oid \<Rightarrow> Oid \<Rightarrow> bool \<Rightarrow> Oid \<Rightarrow> Datum option \<Rightarrow> 'w \<Rightarrow> 'w answer" where
  "sem_iocoerce fe outfunc infunc in_strict typioparam v w =
     (let in_args = (\<lambda>str. [str, Some (of_nat typioparam), Some (Int32GetDatum (- 1))])
      in case v of
           None \<Rightarrow>
             if in_strict then Inr (None, w)
             else bindE (fe_call fe infunc 0 (in_args None) w) (\<lambda>(_, w1). Inr (None, w1))
         | Some d \<Rightarrow>
             bindE (fe_call fe outfunc 0 [Some d] w) (\<lambda>((str, _), w1).
               if in_strict \<and> str = 0 then Inr (v, w1)
               else bindE (fe_call fe infunc 0 (in_args (Some str)) w1) (\<lambda>((d1, _), w2). Inr (Some d1, w2))))"

definition sem_nulltest :: "'w fenv \<Rightarrow> NullTestType \<Rightarrow> bool \<Rightarrow> Datum option \<Rightarrow> 'w \<Rightarrow> 'w answer" where
  "sem_nulltest fe t argisrow v w =
     (case v of
        None \<Rightarrow> Inr (sbool (t = IS_NULL), w)
      | Some d \<Rightarrow>
          if argisrow
          then bindE (fe_row_nulls fe d w) (\<lambda>nulls. Inr (sbool (\<forall>n \<in> set nulls. n = (t = IS_NULL)), w))
          else Inr (sbool (t = IS_NOT_NULL), w))"

definition sem_booltest :: "BoolTestType \<Rightarrow> Datum option \<Rightarrow> Datum option" where
  "sem_booltest t v =
     (case t of
        IS_TRUE \<Rightarrow> if v = None then sbool False else v
      | IS_NOT_TRUE \<Rightarrow> sbool (\<not> istrue v)
      | IS_FALSE \<Rightarrow> sbool (isfalse v)
      | IS_NOT_FALSE \<Rightarrow> if v = None then sbool True else v
      | IS_UNKNOWN \<Rightarrow> sbool (v = None)
      | IS_NOT_UNKNOWN \<Rightarrow> sbool (v \<noteq> None))"

fun sem_constraints :: "Datum option \<Rightarrow> ('w \<Rightarrow> 'w answer) option list \<Rightarrow> 'w \<Rightarrow> 'w answer" where
  "sem_constraints v [] w = Inr (v, w)"
| "sem_constraints v (None # cons) w =
     (if v = None then Inl (ERROR ERRCODE_NOT_NULL_VIOLATION) else sem_constraints v cons w)"
| "sem_constraints v (Some check # cons) w =
     bindE (check w) (\<lambda>(c, w1).
       if isfalse c then Inl (ERROR ERRCODE_CHECK_VIOLATION) else sem_constraints v cons w1)"

definition sem_param :: "'w fenv \<Rightarrow> ParamKind \<Rightarrow> int \<Rightarrow> Oid \<Rightarrow> 'w \<Rightarrow> 'w answer" where
  "sem_param fe paramkind paramid paramtype w =
     (if paramkind = PARAM_EXEC then
        bindE (if fst (fe_param_exec fe paramid w) then fe_set_param_plan fe paramid w else Inr w) (\<lambda>w1.
          Inr (nd (snd (fe_param_exec fe paramid w1)), w1))
      else
        case fe_param_extern fe paramid w of
          None \<Rightarrow> Inl (ERROR ERRCODE_UNDEFINED_OBJECT)
        | Some (ptype, prm) \<Rightarrow>
            if ptype = 0 then Inl (ERROR ERRCODE_UNDEFINED_OBJECT)
            else if ptype \<noteq> paramtype then Inl (ERROR ERRCODE_DATATYPE_MISMATCH)
            else Inr (nd prm, w))"

definition sem_nextval :: "'w fenv \<Rightarrow> Oid \<Rightarrow> Oid \<Rightarrow> 'w \<Rightarrow> 'w answer" where
  "sem_nextval fe seqid seqtypid w =
     bindE (fe_nextval fe seqid w) (\<lambda>(newval, w1).
       if seqtypid = INT2OID then Inr (Some (scast (ucast newval :: 16 word)), w1)
       else if seqtypid = INT4OID then Inr (Some (scast (ucast newval :: 32 word)), w1)
       else if seqtypid = INT8OID then Inr (Some newval, w1)
       else Inl (ERROR ERRCODE_INTERNAL_ERROR))"

definition sem_var :: "'w fenv \<Rightarrow> nat \<Rightarrow> int \<Rightarrow> 'w meaning" where
  "sem_var fe varno varattno rd tv w =
     (if varattno = 0 then Inl Unmodelled
      else if varattno < 0 then
        bindE (fe_sysattr fe (slot_of_varno varno) varattno w) (\<lambda>v.
          if snd v then Inl (ERROR ERRCODE_INTERNAL_ERROR) else Inr (nd v, w))
      else bindE (rd (slot_of_varno varno) (nat varattno - 1)) (\<lambda>v. Inr (nd v, w)))"

definition sem_lift :: "((NullableDatum \<times> 'w) eres) \<Rightarrow> 'w answer" where
  "sem_lift c = bindE c (\<lambda>(v, w). Inr (nd v, w))"

definition make_ro_opt :: "'w fenv \<Rightarrow> bool \<Rightarrow> Datum option \<Rightarrow> Datum option" where
  "make_ro_opt fe varlena v = (if varlena then map_option (fe_make_ro fe) v else v)"

definition sem_case ::
  "'w fenv \<Rightarrow> (bool \<times> 'w meaning) option \<Rightarrow> ('w meaning \<times> 'w meaning) list \<Rightarrow> 'w meaning \<Rightarrow> 'w meaning" where
  "sem_case fe arg whens d rd tv w =
     bindE (case arg of
              None \<Rightarrow> Inr (nd (fe_caseValue fe), w)
            | Some (varlena, m) \<Rightarrow> bindE (m rd tv w) (\<lambda>(v, w1). Inr (make_ro_opt fe varlena v, w1))) (\<lambda>(cv, w1).
       sem_whens (map (\<lambda>(c, m). (c rd (cv, snd tv), m rd tv)) whens) (d rd tv) w1)"

section \<open>The meaning of an expression\<close>

primrec sem :: "'w fenv \<Rightarrow> cenv \<Rightarrow> Expr \<Rightarrow> 'w meaning"
  and sem_when :: "'w fenv \<Rightarrow> cenv \<Rightarrow> CaseWhen \<Rightarrow> 'w meaning \<times> 'w meaning"
  and sem_column :: "'w fenv \<Rightarrow> cenv \<Rightarrow> RowCompareColumn \<Rightarrow> 'w meaning \<times> 'w meaning \<times> Oid \<times> bool \<times> Oid"
  and sem_constraint :: "'w fenv \<Rightarrow> cenv \<Rightarrow> DomainConstraint \<Rightarrow> 'w meaning option" where
  "sem fe ce (Var varno varattno vartype) = sem_var fe varno varattno"
| "sem fe ce (Const constvalue constisnull) = (\<lambda>rd tv w. Inr (nd (constvalue, constisnull), w))"
| "sem fe ce (Param paramkind paramid paramtype) = (\<lambda>rd tv. sem_param fe paramkind paramid paramtype)"
| "sem fe ce (Aggref aggno) = (\<lambda>rd tv w. Inr (nd (fe_aggvalue fe aggno w), w))"
| "sem fe ce (GroupingFunc cols) =
     (\<lambda>rd tv w. Inr (Some (Int32GetDatum (sint (grouping_bits (if ce_grouping_sets ce then cols else []) (fe_grouped_cols fe w)))), w))"
| "sem fe ce (FuncExpr funcid coll args) =
     (\<lambda>rd tv w. bindE (sem_args (map (\<lambda>m. m rd tv) (map (sem fe ce) args)) w) (\<lambda>(vs, w1).
        sem_funcexpr fe (fn_strict (ce_fmgr ce funcid)) funcid coll vs w1))"
| "sem fe ce (OpExpr opfuncid coll args) =
     (\<lambda>rd tv w. bindE (sem_args (map (\<lambda>m. m rd tv) (map (sem fe ce) args)) w) (\<lambda>(vs, w1).
        sem_funcexpr fe (fn_strict (ce_fmgr ce opfuncid)) opfuncid coll vs w1))"
| "sem fe ce (DistinctExpr opfuncid coll args) =
     (\<lambda>rd tv w. bindE (sem_args (map (\<lambda>m. m rd tv) (map (sem fe ce) args)) w) (\<lambda>(vs, w1).
        sem_distinct fe opfuncid coll vs w1))"
| "sem fe ce (NullIfExpr opfuncid coll args) =
     (\<lambda>rd tv w. bindE (sem_args (map (\<lambda>m. m rd tv) (map (sem fe ce) args)) w) (\<lambda>(vs, w1).
        sem_nullif fe opfuncid coll vs w1))"
| "sem fe ce (ScalarArrayOpExpr opfuncid coll useOr scalararg arrayarg) =
     (\<lambda>rd tv w. bindE (sem fe ce scalararg rd tv w) (\<lambda>(v, w1). bindE (sem fe ce arrayarg rd tv w1) (\<lambda>(a, w2).
        sem_scalararray fe useOr (fn_strict (ce_fmgr ce opfuncid)) opfuncid coll v a w2)))"
| "sem fe ce (BoolExpr boolop args) = (\<lambda>rd tv. sem_bool boolop (map (\<lambda>m. m rd tv) (map (sem fe ce) args)))"
| "sem fe ce (SubPlan subplan args) = (\<lambda>rd tv w. sem_lift (fe_subplan fe subplan w))"
| "sem fe ce (AlternativeSubPlan asplan args) = (\<lambda>rd tv w. sem_lift (fe_alternative_subplan fe asplan w))"
| "sem fe ce (RelabelType arg) = sem fe ce arg"
| "sem fe ce (CoerceViaIO arg resulttype) =
     (\<lambda>rd tv w. bindE (sem fe ce arg rd tv w) (\<lambda>(v, w1).
        case ce_input_func ce resulttype of
          (iofunc, typioparam) \<Rightarrow> sem_iocoerce fe (ce_output_func ce arg) iofunc (fn_strict (ce_fmgr ce iofunc)) typioparam v w1))"
| "sem fe ce (CaseExpr arg args defresult) =
     sem_case fe (case map_option (sem fe ce) arg of None \<Rightarrow> None | Some m \<Rightarrow> Some (ce_varlena ce (the arg), m))
       (map (sem_when fe ce) args) (sem fe ce defresult)"
| "sem fe ce CaseTestExpr = (\<lambda>rd tv w. Inr (fst tv, w))"
| "sem fe ce (RowCompareExpr rctype cols) =
     (\<lambda>rd tv w. bindE (sem_columns fe (map (\<lambda>(l, r, c). (l rd tv, r rd tv, c)) (map (sem_column fe ce) cols)) w)
        (\<lambda>(v, w1). Inr (map_option (row_compare_result rctype) v, w1)))"
| "sem fe ce (CoalesceExpr args) = (\<lambda>rd tv. sem_coalesce (map (\<lambda>m. m rd tv) (map (sem fe ce) args)))"
| "sem fe ce (MinMaxExpr opr minmaxtype coll args) =
     (\<lambda>rd tv w. bindE (sem_args (map (\<lambda>m. m rd tv) (map (sem fe ce) args)) w) (\<lambda>(vs, w1).
        sem_minmax fe opr (ce_cmp_proc ce minmaxtype) coll vs None w1))"
| "sem fe ce (SQLValueFunction svf) = (\<lambda>rd tv w. sem_lift (fe_sql_value fe svf w))"
| "sem fe ce (NullTest nulltesttype argisrow arg) =
     (\<lambda>rd tv w. bindE (sem fe ce arg rd tv w) (\<lambda>(v, w1). sem_nulltest fe nulltesttype argisrow v w1))"
| "sem fe ce (BooleanTest booltesttype arg) =
     (\<lambda>rd tv w. bindE (sem fe ce arg rd tv w) (\<lambda>(v, w1). Inr (sem_booltest booltesttype v, w1)))"
| "sem fe ce (CoerceToDomain arg resulttype constraints) =
     (\<lambda>rd tv w. bindE (sem fe ce arg rd tv w) (\<lambda>(v, w1).
        sem_constraints v
          (map (map_option (\<lambda>m. m rd (fst tv, make_ro_opt fe (ce_typ_varlena ce resulttype) v))) (map (sem_constraint fe ce) constraints)) w1))"
| "sem fe ce CoerceToDomainValue = (\<lambda>rd tv w. Inr (snd tv, w))"
| "sem fe ce CurrentOfExpr = (\<lambda>rd tv w. Inl (ERROR ERRCODE_FEATURE_NOT_SUPPORTED))"
| "sem fe ce (NextValueExpr seqid seqtypid) = (\<lambda>rd tv. sem_nextval fe seqid seqtypid)"
| "sem_when fe ce (CaseWhen e result) = (sem fe ce e, sem fe ce result)"
| "sem_column fe ce (RowCompareColumn left_expr right_expr opno opfamily coll) =
     (sem fe ce left_expr, sem fe ce right_expr, ce_row_proc ce opno opfamily,
      fn_strict (ce_fmgr ce (ce_row_proc ce opno opfamily)), coll)"
| "sem_constraint fe ce (DOM_CONSTRAINT_NOTNULL name) = None"
| "sem_constraint fe ce (DOM_CONSTRAINT_CHECK name check_expr) = Some (sem fe ce check_expr)"

section \<open>Well-formed trees\<close>

text \<open>The argument counts the code asserts or relies on.\<close>

primrec wf_expr :: "Expr \<Rightarrow> bool"
  and wf_when :: "CaseWhen \<Rightarrow> bool"
  and wf_column :: "RowCompareColumn \<Rightarrow> bool"
  and wf_constraint :: "DomainConstraint \<Rightarrow> bool" where
  "wf_expr (Var varno varattno vartype) = True"
| "wf_expr (Const constvalue constisnull) = True"
| "wf_expr (Param paramkind paramid paramtype) = True"
| "wf_expr (Aggref aggno) = True"
| "wf_expr (GroupingFunc cols) = True"
| "wf_expr (FuncExpr funcid coll args) = list_all id (map wf_expr args)"
| "wf_expr (OpExpr opfuncid coll args) = list_all id (map wf_expr args)"
| "wf_expr (DistinctExpr opfuncid coll args) = (length args = 2 \<and> list_all id (map wf_expr args))"
| "wf_expr (NullIfExpr opfuncid coll args) = (length args = 2 \<and> list_all id (map wf_expr args))"
| "wf_expr (ScalarArrayOpExpr opfuncid coll useOr scalararg arrayarg) = (wf_expr scalararg \<and> wf_expr arrayarg)"
| "wf_expr (BoolExpr boolop args) =
     ((if boolop = NOT_EXPR then length args = 1 else length args \<ge> 2) \<and> list_all id (map wf_expr args))"
| "wf_expr (SubPlan subplan args) = True"
| "wf_expr (AlternativeSubPlan asplan args) = True"
| "wf_expr (RelabelType arg) = wf_expr arg"
| "wf_expr (CoerceViaIO arg resulttype) = wf_expr arg"
| "wf_expr (CaseExpr arg args defresult) =
     ((case map_option wf_expr arg of None \<Rightarrow> True | Some b \<Rightarrow> b) \<and> list_all id (map wf_when args) \<and> wf_expr defresult)"
| "wf_expr CaseTestExpr = True"
| "wf_expr (RowCompareExpr rctype cols) = list_all id (map wf_column cols)"
| "wf_expr (CoalesceExpr args) = (args \<noteq> [] \<and> list_all id (map wf_expr args))"
| "wf_expr (MinMaxExpr opr minmaxtype coll args) = list_all id (map wf_expr args)"
| "wf_expr (SQLValueFunction svf) = True"
| "wf_expr (NullTest nulltesttype argisrow arg) = wf_expr arg"
| "wf_expr (BooleanTest booltesttype arg) = wf_expr arg"
| "wf_expr (CoerceToDomain arg resulttype constraints) = (wf_expr arg \<and> list_all id (map wf_constraint constraints))"
| "wf_expr CoerceToDomainValue = True"
| "wf_expr CurrentOfExpr = True"
| "wf_expr (NextValueExpr seqid seqtypid) = True"
| "wf_when (CaseWhen e result) = (wf_expr e \<and> wf_expr result)"
| "wf_column (RowCompareColumn left_expr right_expr opno opfamily coll) = (wf_expr left_expr \<and> wf_expr right_expr)"
| "wf_constraint (DOM_CONSTRAINT_NOTNULL name) = True"
| "wf_constraint (DOM_CONSTRAINT_CHECK name check_expr) = wf_expr check_expr"

end
