(* ===== verification/ExprCorrect.thy ===== *)
theory ExprCorrect
  imports ExprSem
begin

text \<open>
  The steps produced by the translation of \<open>execExpr.c\<close>, run by the interpreter of
  \<open>execExprInterp.c\<close>, compute the meaning of the expression. One lemma per loop and per node type
  of the translation is combined by induction on the tree.
\<close>

section \<open>Extending a program\<close>

abbreviation len :: "ExprState \<Rightarrow> nat" where "len es \<equiv> length (steps es)"

definition precells :: "ExprState \<Rightarrow> loc set" where "precells es = fst ` set (preload es)"

text \<open>
  The step array: the steps fit into the allocated \<open>steps_alloc\<close> entries, of which no more than half
  are unused once the array has outgrown its first 16 entries.
\<close>

definition alloc_ok :: "ExprState \<Rightarrow> bool" where
  "alloc_ok es \<longleftrightarrow> len es \<le> steps_alloc es \<and> steps_alloc es \<le> max 16 (2 * len es)"

definition ext :: "ExprState \<Rightarrow> ExprState \<Rightarrow> bool" where
  "ext es es' \<longleftrightarrow>
     (\<exists>new. steps es' = steps es @ new) \<and> next_cell es \<le> next_cell es' \<and>
     (\<exists>p. preload es' = preload es @ p \<and> fst ` set p \<subseteq> {next_cell es..<next_cell es'}) \<and>
     innermost_caseval es' = innermost_caseval es \<and> innermost_domainval es' = innermost_domainval es \<and>
     (alloc_ok es \<longrightarrow> alloc_ok es')"

lemma ext_refl [simp, intro]: "ext es es"
  by (auto simp: ext_def)

lemma ext_trans: assumes "ext a b" "ext b c" shows "ext a c"
proof -
  obtain p q where p: "preload b = preload a @ p" "fst ` set p \<subseteq> {next_cell a..<next_cell b}"
    and q: "preload c = preload b @ q" "fst ` set q \<subseteq> {next_cell b..<next_cell c}"
    using assms by (auto simp: ext_def)
  have n: "next_cell a \<le> next_cell b" "next_cell b \<le> next_cell c" using assms by (auto simp: ext_def)
  have "preload c = preload a @ (p @ q)" using p q by simp
  moreover have "fst ` set (p @ q) \<subseteq> {next_cell a..<next_cell c}" using p(2) q(2) n by (force simp: image_Un)
  ultimately show ?thesis using assms n by (auto simp: ext_def)
qed

lemma extD:
  assumes "ext es es'"
  shows "len es \<le> len es'" "next_cell es \<le> next_cell es'"
    "innermost_caseval es' = innermost_caseval es" "innermost_domainval es' = innermost_domainval es"
    "precells es \<subseteq> precells es'" "set (preload es) \<subseteq> set (preload es')"
  using assms by (auto simp: ext_def precells_def)

lemma ext_precells: "ext es es' \<Longrightarrow> c \<in> precells es' \<Longrightarrow> c \<in> precells es \<or> next_cell es \<le> c \<and> c < next_cell es'"
  unfolding ext_def precells_def by (auto simp del: atLeastLessThan_iff) (fastforce simp: image_iff)+

text \<open>The part of \<open>ext\<close> that concerns cells.\<close>

definition cext :: "ExprState \<Rightarrow> ExprState \<Rightarrow> bool" where
  "cext es es' \<longleftrightarrow>
     next_cell es \<le> next_cell es' \<and>
     (\<exists>p. preload es' = preload es @ p \<and> fst ` set p \<subseteq> {next_cell es..<next_cell es'})"

lemma ext_cext: "ext es es' \<Longrightarrow> cext es es'"
  by (auto simp: ext_def cext_def)

lemma cext_precells: "cext es es' \<Longrightarrow> c \<in> precells es' \<Longrightarrow> c \<in> precells es \<or> next_cell es \<le> c \<and> c < next_cell es'"
  unfolding cext_def precells_def by (auto simp del: atLeastLessThan_iff) (fastforce simp: image_iff)+

lemma cext_trans: "cext a b \<Longrightarrow> cext b c \<Longrightarrow> cext a c"
  by (fastforce simp: cext_def image_Un)

lemma cext_same: "next_cell a = next_cell a' \<Longrightarrow> preload a = preload a' \<Longrightarrow> next_cell b = next_cell b' \<Longrightarrow>
    preload b = preload b' \<Longrightarrow> cext a b = cext a' b'"
  by (simp add: cext_def)

lemma push_simps [simp]:
  "steps (ExprEvalPushStep x es) = steps es @ [x]"
  "next_cell (ExprEvalPushStep x es) = next_cell es"
  "preload (ExprEvalPushStep x es) = preload es"
  "innermost_caseval (ExprEvalPushStep x es) = innermost_caseval es"
  "innermost_domainval (ExprEvalPushStep x es) = innermost_domainval es"
  by (simp_all add: ExprEvalPushStep_def Let_def)

lemma alloc_ok_push: "alloc_ok es \<Longrightarrow> alloc_ok (ExprEvalPushStep x es)"
  by (auto simp: alloc_ok_def ExprEvalPushStep_def Let_def max_def Suc_le_eq split: if_splits)

lemma alloc_ok_update [simp]:
  "alloc_ok (es\<lparr>preload := p\<rparr>) = alloc_ok es" "alloc_ok (es\<lparr>next_cell := n\<rparr>) = alloc_ok es"
  "alloc_ok (es\<lparr>innermost_caseval := x\<rparr>) = alloc_ok es" "alloc_ok (es\<lparr>innermost_domainval := y\<rparr>) = alloc_ok es"
  by (simp_all add: alloc_ok_def)

lemma ext_push [simp, intro]: "ext es (ExprEvalPushStep x es)"
  by (simp add: ext_def alloc_ok_push)

lemma ext_palloc: "palloc_cells n es = (c, es') \<Longrightarrow> ext es es'"
  by (auto simp: ext_def palloc_cells_def)

lemma palloc_simps:
  "palloc_cells n es = (c, es') \<Longrightarrow>
     c = next_cell es \<and> next_cell es' = next_cell es + n \<and> steps es' = steps es \<and> preload es' = preload es \<and>
     innermost_caseval es' = innermost_caseval es \<and> innermost_domainval es' = innermost_domainval es"
  by (auto simp: palloc_cells_def)

lemma ext_caseval: "ext (es\<lparr>innermost_caseval := x\<rparr>) es1 \<Longrightarrow> ext es (es1\<lparr>innermost_caseval := innermost_caseval es\<rparr>)"
  by (simp add: ext_def)

lemma ext_domainval: "ext (es\<lparr>innermost_domainval := x\<rparr>) es1 \<Longrightarrow> ext es (es1\<lparr>innermost_domainval := innermost_domainval es\<rparr>)"
  by (simp add: ext_def)

section \<open>Where a program has the steps of a translation\<close>

text \<open>
  \<open>code P es es' f\<close>: the program \<open>P\<close> has the steps added between \<open>es\<close> and \<open>es'\<close>, where the steps at
  the positions in \<open>f\<close> have got their jump target.
\<close>

fun settle :: "int option \<Rightarrow> ExprEvalStep \<Rightarrow> ExprEvalStep" where
  "settle None x = x"
| "settle (Some t) x = set_jump t x"

definition code :: "ExprEvalStep list \<Rightarrow> ExprState \<Rightarrow> ExprState \<Rightarrow> (nat \<Rightarrow> int option) \<Rightarrow> bool" where
  "code P es es' f \<longleftrightarrow>
     (\<forall>i. len es \<le> i \<and> i < len es' \<longrightarrow>
        i < length P \<and> P ! i = settle (f i) (steps es' ! i))"

definition jmap :: "nat list \<Rightarrow> nat \<Rightarrow> nat \<Rightarrow> int option" where
  "jmap js t i = (if i \<in> set js then Some (int t) else None)"

definition grows :: "ExprState \<Rightarrow> ExprState \<Rightarrow> bool" where
  "grows es es' \<longleftrightarrow> (\<exists>new. steps es' = steps es @ new)"

lemma ext_grows [intro]: "ext es es' \<Longrightarrow> grows es es'"
  by (auto simp: ext_def grows_def)

lemma code_grows:
  assumes "grows a b" "grows b c"
  shows "code P a c f \<longleftrightarrow> code P a b f \<and> code P b c f"
proof -
  have "len a \<le> len b" "len b \<le> len c" using assms by (auto simp: grows_def)
  moreover have "i < len b \<Longrightarrow> steps c ! i = steps b ! i" for i using assms(2) by (auto simp: grows_def nth_append)
  ultimately have "code P a c f \<longleftrightarrow> (\<forall>i. len a \<le> i \<and> i < len b \<or> len b \<le> i \<and> i < len c \<longrightarrow>
      i < length P \<and> P ! i = settle (f i) (steps (if i < len b then b else c) ! i))"
    unfolding code_def by (intro arg_cong [where f = All] ext) auto
  then show ?thesis unfolding code_def by fastforce
qed

lemma code_trans: "ext a b \<Longrightarrow> ext b c \<Longrightarrow> code P a c f \<longleftrightarrow> code P a b f \<and> code P b c f"
  by (intro code_grows ext_grows)

lemma code_refl [simp]: "code P es es f"
  by (auto simp: code_def)

lemma code_cong: "(\<And>i. len es \<le> i \<Longrightarrow> i < len es' \<Longrightarrow> f i = g i) \<Longrightarrow> code P es es' f = code P es es' g"
  by (auto simp: code_def)

lemma code_same: "steps a = steps a' \<Longrightarrow> steps b = steps b' \<Longrightarrow> code P a b f = code P a' b' f"
  by (simp add: code_def)

lemma code_push [simp]:
  "code P es (ExprEvalPushStep x es) f \<longleftrightarrow>
     len es < length P \<and> P ! len es = settle (f (len es)) x"
  by (auto simp: code_def nth_append less_Suc_eq)

lemma set_jump_set_jump [simp]: "set_jump t (set_jump u s) = set_jump t s"
  by (cases s) (simp_all add: set_jump_def)

lemma fold_patch:
  "i < length ss \<Longrightarrow>
   fold (\<lambda>j ss. ss[j := set_jump t (ss ! j)]) js ss ! i = (if i \<in> set js then set_jump t (ss ! i) else ss ! i)"
proof (induction js arbitrary: ss)
  case (Cons j js)
  then show ?case by (cases "i = j") (auto simp: nth_list_update)
qed simp

lemma length_fold_patch [simp]: "length (fold (\<lambda>j ss. ss[j := set_jump t (ss ! j)]) js ss) = length ss"
  by (induction js arbitrary: ss) auto

lemma adjust_simps [simp]:
  "len (adjust_jumps js es) = len es"
  "next_cell (adjust_jumps js es) = next_cell es"
  "preload (adjust_jumps js es) = preload es"
  "innermost_caseval (adjust_jumps js es) = innermost_caseval es"
  "innermost_domainval (adjust_jumps js es) = innermost_domainval es"
  by (simp_all add: adjust_jumps_def)

lemma adjust_nth:
  "i < len es \<Longrightarrow> steps (adjust_jumps js es) ! i = (if i \<in> set js then set_jump (int (len es)) (steps es ! i) else steps es ! i)"
  by (simp add: adjust_jumps_def fold_patch)

lemma alloc_ok_adjust [simp]: "alloc_ok (adjust_jumps js es) = alloc_ok es"
  by (simp add: alloc_ok_def) (simp add: adjust_jumps_def)

lemma ext_adjust: assumes "ext a es" "set js \<subseteq> {len a..}" shows "ext a (adjust_jumps js es)"
proof -
  obtain new where new: "steps es = steps a @ new" using assms(1) by (auto simp: ext_def)
  have "take (len a) (steps (adjust_jumps js es)) = steps a"
    by (rule nth_equalityI) (use assms(2) new in \<open>auto simp: adjust_nth nth_append\<close>)
  then have "steps (adjust_jumps js es) = steps a @ drop (len a) (steps (adjust_jumps js es))"
    by (metis append_take_drop_id)
  then show ?thesis using assms(1) unfolding ext_def by auto
qed

lemma code_adjust:
  "code P a (adjust_jumps js es) f \<longleftrightarrow>
     code P a es (\<lambda>i. if f i = None then jmap js (len es) i else f i)"
proof -
  have "i < len es \<Longrightarrow> settle (f i) (steps (adjust_jumps js es) ! i) =
      settle (if f i = None then jmap js (len es) i else f i) (steps es ! i)" for i
    by (cases "f i") (auto simp: adjust_nth jmap_def)
  then show ?thesis by (auto simp: code_def)
qed

section \<open>Running part of a program\<close>

definition sim ::
  "'w fenv \<Rightarrow> ExprEvalStep list \<Rightarrow> nat \<Rightarrow> 'w rstate \<Rightarrow> 'x eres \<Rightarrow> nat \<Rightarrow> ('x \<Rightarrow> 'w rstate \<Rightarrow> bool) \<Rightarrow> bool" where
  "sim fe P a s R b Q \<longleftrightarrow>
     (case R of
        Inl e \<Rightarrow> run fe P (int a) s = Some (Inl e)
      | Inr x \<Rightarrow> \<exists>s'. run fe P (int a) s = run fe P (int b) s' \<and> Q x s')"

lemma sim_ret: "Q x s \<Longrightarrow> sim fe P a s (Inr x) a Q"
  by (auto simp: sim_def)

lemma sim_bind:
  assumes "sim fe P a s R b Q" and "\<And>x s'. R = Inr x \<Longrightarrow> Q x s' \<Longrightarrow> sim fe P b s' (k x) c Q'"
  shows "sim fe P a s (bindE R k) c Q'"
proof (cases R)
  case (Inr x)
  then obtain s' where s': "run fe P (int a) s = run fe P (int b) s'" "Q x s'" using assms(1) by (auto simp: sim_def)
  show ?thesis using assms(2) [OF Inr s'(2)] s'(1) Inr by (simp add: sim_def split: sum.splits)
qed (use assms(1) in \<open>simp add: sim_def\<close>)

lemma sim_conseq:
  assumes "sim fe P a s R b Q" and "\<And>x s'. R = Inr x \<Longrightarrow> Q x s' \<Longrightarrow> Q' x s'"
  shows "sim fe P a s R b Q'"
  using assms by (auto simp: sim_def split: sum.splits)

text \<open>One step: what \<open>exec_step\<close> returns decides how the run goes on.\<close>

lemma run_step:
  assumes "a < length P"
  shows "exec_step fe (P ! a) s = Inl e \<Longrightarrow> run fe P (int a) s = Some (Inl e)"
    "exec_step fe (P ! a) s = Inr (Next, s1) \<Longrightarrow> run fe P (int a) s = run fe P (int (Suc a)) s1"
    "exec_step fe (P ! a) s = Inr (Goto j, s1) \<Longrightarrow> run fe P (int a) s = run fe P j s1"
    "exec_step fe (P ! a) s = Inr (Out, s1) \<Longrightarrow> run fe P (int a) s = Some (Inr s1)"
  by (subst run.simps, use assms in \<open>simp add: add.commute\<close>)+

lemma sim_next:
  "a < length P \<Longrightarrow> exec_step fe (P ! a) s = Inr (Next, s1) \<Longrightarrow> sim fe P (Suc a) s1 R b Q \<Longrightarrow> sim fe P a s R b Q"
  by (simp add: sim_def run_step(2) split: sum.splits)

lemma sim_goto:
  "a < length P \<Longrightarrow> exec_step fe (P ! a) s = Inr (Goto (int c), s1) \<Longrightarrow> sim fe P c s1 R b Q \<Longrightarrow> sim fe P a s R b Q"
  by (simp add: sim_def run_step(3) split: sum.splits)

text \<open>A last step whose result is given by \<open>R\<close>.\<close>

lemma sim_last:
  assumes "a < length P"
    and "exec_step fe (P ! a) s = bindE R (\<lambda>x. Inr (Next, g x))"
    and "\<And>x. R = Inr x \<Longrightarrow> Q x (g x)"
  shows "sim fe P a s R (Suc a) Q"
  using assms by (cases R) (auto simp: sim_def run_step(1,2))

section \<open>What an evaluation leaves alone\<close>

definition keep :: "loc set \<Rightarrow> 'w rstate \<Rightarrow> 'w rstate \<Rightarrow> bool" where
  "keep W s s' \<longleftrightarrow>
     (\<forall>c. c \<notin> W \<longrightarrow> cells s' c = cells s c \<and> flags s' c = flags s c) \<and>
     slots s' = slots s \<and> resultslot s' = resultslot s"

definition scope :: "loc \<Rightarrow> ExprState \<Rightarrow> ExprState \<Rightarrow> loc set" where
  "scope r es es' = insert r ({next_cell es..<next_cell es'} - precells es')"

definition holds :: "ExprState \<Rightarrow> 'w rstate \<Rightarrow> bool" where
  "holds es s \<longleftrightarrow> (\<forall>(c, v) \<in> set (preload es). cells s c = v)"

definition place :: "loc \<Rightarrow> ExprState \<Rightarrow> bool" where
  "place r es \<longleftrightarrow>
     r < next_cell es \<and> r \<notin> precells es \<and> (\<forall>c \<in> precells es. c < next_cell es) \<and>
     (\<forall>c. innermost_caseval es = Some c \<longrightarrow> c < next_cell es \<and> c \<noteq> r) \<and>
     (\<forall>c. innermost_domainval es = Some c \<longrightarrow> c < next_cell es \<and> c \<noteq> r)"

definition rd_of :: "'w rstate \<Rightarrow> reader" where
  "rd_of s k i = slot_value (slots s k) i"

definition tv_of :: "'w fenv \<Rightarrow> ExprState \<Rightarrow> 'w rstate \<Rightarrow> testvals" where
  "tv_of fe es s =
     (case innermost_caseval es of Some c \<Rightarrow> nd (cells s c) | None \<Rightarrow> nd (fe_caseValue fe),
      case innermost_domainval es of Some c \<Rightarrow> nd (cells s c) | None \<Rightarrow> nd (fe_domainValue fe))"

lemma keep_refl [simp, intro]: "keep W s s"
  by (simp add: keep_def)

lemma keep_trans: "keep W s s1 \<Longrightarrow> keep W s1 s2 \<Longrightarrow> keep W s s2"
  by (simp add: keep_def)

lemma keep_mono: "keep W s s1 \<Longrightarrow> W \<subseteq> W' \<Longrightarrow> keep W' s s1"
  by (auto simp: keep_def)

lemma keep_set_res [simp]: "keep W s (set_res r v s1) \<longleftrightarrow> keep W s s1" if "r \<in> W"
  using that by (auto simp: keep_def set_res_def)

lemma keep_set_anynull [simp]: "keep W s (set_anynull f b s1) \<longleftrightarrow> keep W s s1" if "f \<in> W"
  using that by (auto simp: keep_def set_anynull_def)

lemma keep_world [simp]: "keep W s (s1\<lparr>world := w\<rparr>) \<longleftrightarrow> keep W s s1"
  by (simp add: keep_def)

lemma keep_rd: "keep W s s1 \<Longrightarrow> rd_of s1 = rd_of s"
  by (auto simp: keep_def rd_of_def fun_eq_iff)

lemma keep_cell: "keep W s s1 \<Longrightarrow> c \<notin> W \<Longrightarrow> cells s1 c = cells s c"
  by (simp add: keep_def)

lemma keep_flag: "keep W s s1 \<Longrightarrow> c \<notin> W \<Longrightarrow> flags s1 c = flags s c"
  by (simp add: keep_def)

lemma state_simps [simp]:
  "cells (set_res r v s) = (cells s)(r := v)" "world (set_res r v s) = world s" "flags (set_res r v s) = flags s"
  "slots (set_res r v s) = slots s" "resultslot (set_res r v s) = resultslot s"
  "cells (set_anynull f b s) = cells s" "world (set_anynull f b s) = world s"
  "flags (set_anynull f b s) = (flags s)(f := b)" "slots (set_anynull f b s) = slots s"
  by (simp_all add: set_res_def set_anynull_def)

lemma holds_cext: "cext es es' \<Longrightarrow> holds es' s \<Longrightarrow> holds es s"
  by (auto simp: holds_def cext_def ball_Un)

lemmas holds_ext = holds_cext [OF ext_cext]

lemma holds_keep: assumes "holds es s" "keep W s s1" "W \<inter> precells es = {}" shows "holds es s1"
  unfolding holds_def
proof clarify
  fix c a b assume i: "(c, a, b) \<in> set (preload es)"
  then have "c \<notin> W" using assms(3) by (force simp: precells_def)
  then show "cells s1 c = (a, b)" using i assms(1,2) by (auto simp: holds_def keep_def)
qed

lemma place_ext: assumes "place r es" "ext es es'" shows "place r es'"
proof -
  have "c \<in> precells es' \<Longrightarrow> c < next_cell es' \<and> c \<noteq> r" for c
    using ext_precells [OF assms(2), of c] assms(1) extD(2) [OF assms(2)] by (auto simp: place_def)
  then show ?thesis using assms(1) extD [OF assms(2)] by (fastforce simp: place_def)
qed

lemma scope_precells: "place r es \<Longrightarrow> ext es es' \<Longrightarrow> scope r es es' \<inter> precells es' = {}"
  using place_ext [of r es es'] by (auto simp: scope_def place_def)

lemma scope_self [simp]: "r \<in> scope r es es'"
  by (simp add: scope_def)

lemma scope_csub:
  assumes "cext a b" "cext b c" "cext c d" "r1 \<in> scope r a d"
  shows "scope r1 b c \<subseteq> scope r a d"
proof -
  have "x \<in> precells d \<Longrightarrow> x < next_cell c \<Longrightarrow> x \<in> precells c" for x
    using cext_precells [OF assms(3), of x] by auto
  then show ?thesis using assms by (auto simp: scope_def cext_def)
qed

lemmas scope_sub = scope_csub [OF ext_cext ext_cext ext_cext]

lemma tv_keep:
  assumes "keep (scope r es es') s s1" "place r es"
  shows "tv_of fe es s1 = tv_of fe es s"
proof -
  have "innermost_caseval es = Some c \<Longrightarrow> c \<notin> scope r es es'" "innermost_domainval es = Some c \<Longrightarrow> c \<notin> scope r es es'" for c
    using assms(2) by (auto simp: scope_def place_def)
  then show ?thesis using assms(1) by (auto simp: tv_of_def keep_def split: option.splits)
qed

lemma tv_ext: "ext es es' \<Longrightarrow> tv_of fe es' s = tv_of fe es s"
  by (simp add: tv_of_def extD)

section \<open>Correct translations\<close>

text \<open>
  The result of a correct translation is in its place afterwards, and apart from it only cells taken
  during the translation, but no preloaded one, are changed.
\<close>

definition done_at :: "loc \<Rightarrow> loc set \<Rightarrow> 'w rstate \<Rightarrow> Datum option \<times> 'w \<Rightarrow> 'w rstate \<Rightarrow> bool" where
  "done_at r W s x s' \<longleftrightarrow> nd (cells s' r) = fst x \<and> world s' = snd x \<and> keep W s s'"

definition correct :: "'w fenv \<Rightarrow> translation \<Rightarrow> 'w meaning \<Rightarrow> bool" where
  "correct fe t m \<longleftrightarrow>
     (\<forall>r es es'. t r es = Inr es' \<longrightarrow> place r es \<longrightarrow>
        ext es es' \<and>
        (\<forall>P s. code P es es' Map.empty \<longrightarrow> holds es' s \<longrightarrow>
           sim fe P (len es) s (m (rd_of s) (tv_of fe es s) (world s)) (len es') (done_at r (scope r es es') s)))"

lemma correctI:
  assumes "\<And>r es es'. t r es = Inr es' \<Longrightarrow> place r es \<Longrightarrow> ext es es'"
    and "\<And>r es es' P s. t r es = Inr es' \<Longrightarrow> place r es \<Longrightarrow> ext es es' \<Longrightarrow> code P es es' Map.empty \<Longrightarrow> holds es' s \<Longrightarrow>
           sim fe P (len es) s (m (rd_of s) (tv_of fe es s) (world s)) (len es') (done_at r (scope r es es') s)"
  shows "correct fe t m"
  using assms unfolding correct_def by blast

lemma correct_ext: "correct fe t m \<Longrightarrow> t r es = Inr es' \<Longrightarrow> place r es \<Longrightarrow> ext es es'"
  by (simp add: correct_def)

text \<open>
  A correct translation inside a larger one: between \<open>a\<close> and \<open>d\<close>, with the place \<open>r0\<close>, started after
  part of it has run.
\<close>

lemma correct_within:
  assumes c: "correct fe t m" "t r es = Inr es'" "place r es"
    and x: "cext a es" "cext es' d" "r \<in> scope r0 a d"
    and p: "code P es es' f" "\<And>i. len es \<le> i \<Longrightarrow> i < len es' \<Longrightarrow> f i = None" "holds d s" "keep (scope r0 a d) s0 s"
  shows "sim fe P (len es) s (m (rd_of s0) (tv_of fe es s) (world s)) (len es')
    (\<lambda>x s'. done_at r (scope r0 a d) s0 x s' \<and> keep (scope r es es') s s')"
proof -
  have e: "ext es es'" by (rule correct_ext [OF c])
  have "code P es es' Map.empty" using p(1) by (rule code_cong [THEN iffD1, rotated]) (use p(2) in auto)
  moreover have "holds es' s" by (rule holds_cext [OF x(2) p(3)])
  ultimately have "sim fe P (len es) s (m (rd_of s) (tv_of fe es s) (world s)) (len es') (done_at r (scope r es es') s)"
    using c unfolding correct_def by blast
  moreover have "done_at r (scope r es es') s x s' \<Longrightarrow> done_at r (scope r0 a d) s0 x s' \<and> keep (scope r es es') s s'" for x s'
    using keep_trans [OF p(4) keep_mono [OF _ scope_csub [OF x(1) ext_cext [OF e] x(2,3)]], of s'] by (simp add: done_at_def)
  ultimately show ?thesis unfolding keep_rd [OF p(4), symmetric] by (blast intro: sim_conseq)
qed

lemma correct_part_keep:
  assumes "correct fe t m" "t r es = Inr es'" "place r es"
    and x: "ext a es" "ext es' d" "r \<in> scope r0 a d" "place r0 a"
    and p: "code P es es' f" "\<And>i. len es \<le> i \<Longrightarrow> i < len es' \<Longrightarrow> f i = None" "holds d s" "keep (scope r0 a d) s0 s"
  shows "sim fe P (len es) s (m (rd_of s0) (tv_of fe a s0) (world s)) (len es')
    (\<lambda>x s'. done_at r (scope r0 a d) s0 x s' \<and> keep (scope r es es') s s')"
  using correct_within [OF assms(1-3) ext_cext [OF x(1)] ext_cext [OF x(2)] x(3) p]
  unfolding tv_ext [OF x(1)] tv_keep [OF p(4) x(4)] .

lemma correct_part:
  assumes "correct fe t m" "t r es = Inr es'" "place r es"
    and x: "ext a es" "ext es' d" "r \<in> scope r0 a d" "place r0 a"
    and p: "code P es es' f" "\<And>i. len es \<le> i \<Longrightarrow> i < len es' \<Longrightarrow> f i = None" "holds d s" "keep (scope r0 a d) s0 s"
  shows "sim fe P (len es) s (m (rd_of s0) (tv_of fe a s0) (world s)) (len es') (done_at r (scope r0 a d) s0)"
  by (rule sim_conseq [OF correct_part_keep [OF assms]]) auto

section \<open>Steps that compute a value\<close>

definition yields :: "loc \<Rightarrow> 'w rstate \<Rightarrow> (control \<times> 'w rstate) eres \<Rightarrow> 'w answer \<Rightarrow> bool" where
  "yields r s out R \<longleftrightarrow>
     (case R of
        Inl e \<Rightarrow> out = Inl e
      | Inr (v, w) \<Rightarrow> \<exists>d. nd d = v \<and> out = Inr (Next, set_res r d (s\<lparr>world := w\<rparr>)))"

lemma sim_yields:
  assumes "a < length P" "yields r s (exec_step fe (P ! a) s) R" "r \<in> W" "keep W s0 s"
  shows "sim fe P a s R (Suc a) (done_at r W s0)"
proof (cases R)
  case (Inl e) then show ?thesis using assms by (simp add: yields_def sim_def run_step(1))
next
  case (Inr x)
  then obtain d where d: "nd d = fst x" "exec_step fe (P ! a) s = Inr (Next, set_res r d (s\<lparr>world := snd x\<rparr>))"
    using assms(2) by (auto simp: yields_def split: prod.splits)
  have "done_at r W s0 x (set_res r d (s\<lparr>world := snd x\<rparr>))" using d(1) assms(3,4) by (simp add: done_at_def)
  then show ?thesis using Inr run_step(2) [OF assms(1) d(2)] by (auto simp: sim_def)
qed

lemma set_res_id [simp]: "set_res r (cells s r) s = s"
  by (simp add: set_res_def)

lemma world_id [simp]: "s\<lparr>world := world s\<rparr> = (s :: 'w rstate)"
  by simp

lemma yields_next_with: "nd v = x \<Longrightarrow> w = world s \<Longrightarrow> yields r s (next_with r v s) (Inr (x, w))"
  by (cases v) (auto simp: yields_def next_with_def)

lemma yields_same: "nd (cells s r) = x \<Longrightarrow> w = world s \<Longrightarrow> yields r s (Inr (Next, s)) (Inr (x, w))"
  using set_res_id [of r s] by (cases "cells s r") (force simp: yields_def)

lemma yields_same_world: "nd (cells s r) = x \<Longrightarrow> yields r s (Inr (Next, s\<lparr>world := w\<rparr>)) (Inr (x, w))"
  using set_res_id [of r "s\<lparr>world := w\<rparr>"] by (cases "cells s r") (force simp: yields_def)

lemma yields_error: "yields r s (Inl e) (Inl e)"
  by (simp add: yields_def)

lemma yields_bind:
  assumes "\<And>x. c = Inr x \<Longrightarrow> yields r s (g x) (h x)"
  shows "yields r s (bindE c g) (bindE c h)"
  using assms by (cases c) (auto simp: yields_def)

lemma yields_world: "nd v = x \<Longrightarrow> yields r s (next_with r v (s\<lparr>world := w\<rparr>)) (Inr (x, w))"
  by (cases v) (auto simp: yields_def next_with_def)

lemmas yields_intros = yields_same_world yields_next_with yields_same yields_error yields_bind yields_world

lemma yields_call: "yields r s (next_call r c s) (sem_lift c)"
  unfolding next_call_def sem_lift_def by (rule yields_bind) (auto intro: yields_world)

lemma sem_call_lift: "sem_call fe f coll vs w = sem_lift (fe_call fe f coll vs w)"
  by (simp add: sem_call_def sem_lift_def)

lemma yields_funcexpr:
  "fcinfo_args fd s = vs \<Longrightarrow> yields r s (exec_funcexpr fe fd r s) (sem_funcexpr fe False (fd_oid fd) (fd_collation fd) vs (world s))"
  by (auto simp: exec_funcexpr_def sem_funcexpr_def invoke_def sem_call_lift intro: yields_call)

lemma yields_funcexpr_strict:
  "fcinfo_args fd s = vs \<Longrightarrow> yields r s (exec_funcexpr_strict fe fd r s) (sem_funcexpr fe True (fd_oid fd) (fd_collation fd) vs (world s))"
  by (auto simp: exec_funcexpr_strict_def sem_funcexpr_def invoke_def sem_call_lift intro: yields_call yields_next_with)

lemma fcinfo_args_two:
  "fd_nargs fd = 2 \<Longrightarrow> fcinfo_args fd s = [nd (cells s (fd_args fd)), nd (cells s (Suc (fd_args fd)))]"
  by (simp add: fcinfo_args_def numeral_2_eq_2)

lemma arg_null_iff: "arg_null fd i s \<longleftrightarrow> nd (cells s (fd_args fd + i)) = None"
  by (simp add: arg_null_def nd_None_iff)

lemma yields_distinct:
  assumes "fd_nargs fd = 2" "fcinfo_args fd s = vs"
  shows "yields r s (exec_distinct fe fd r s) (sem_distinct fe (fd_oid fd) (fd_collation fd) vs (world s))"
proof -
  have vs: "vs = [nd (cells s (fd_args fd)), nd (cells s (Suc (fd_args fd)))]" using assms fcinfo_args_two by metis
  show ?thesis unfolding exec_distinct_def sem_distinct_def arg_null_iff invoke_def assms(2) sem_call_def vs
    by (auto intro!: yields_intros simp: sbool_def nd_def bindE_assoc split: if_splits)
qed

lemma yields_nullif:
  assumes "fd_nargs fd = 2" "fcinfo_args fd s = vs"
  shows "yields r s (exec_nullif fe fd r s) (sem_nullif fe (fd_oid fd) (fd_collation fd) vs (world s))"
proof -
  have vs: "vs = [nd (cells s (fd_args fd)), nd (cells s (Suc (fd_args fd)))]" using assms fcinfo_args_two by metis
  show ?thesis unfolding exec_nullif_def sem_nullif_def arg_null_iff invoke_def assms(2) sem_call_def vs
    by (auto intro!: yields_intros simp: istrue_def nd_def bindE_assoc Let_def split: if_splits)
qed

lemma yields_iocoerce:
  "nd (cells s r) = v \<Longrightarrow>
   yields r s (exec_iocoerce fe outfunc infunc in_strict typioparam r s) (sem_iocoerce fe outfunc infunc in_strict typioparam v (world s))"
  unfolding exec_iocoerce_def sem_iocoerce_def Let_def
  by (cases "cells s r") (auto simp: nd_def intro!: yields_intros split: if_splits)

lemma yields_nulltest:
  "nd (cells s r) = v \<Longrightarrow> yields r s (exec_nulltest fe t argisrow r s) (sem_nulltest fe t argisrow v (world s))"
  by (cases t; cases "cells s r")
    (auto simp: sem_nulltest_def ExecEvalRowNullInt_def nd_def sbool_def intro!: yields_intros split: if_splits)

lemma yields_booltest:
  "nd (cells s r) = v \<Longrightarrow> yields r s (exec_booltest t r s) (Inr (sem_booltest t v, world s))"
  by (cases t; cases "cells s r")
    (auto simp: sem_booltest_def nd_def sbool_def istrue_def isfalse_def intro!: yields_intros split: if_splits)

lemma yields_param:
  "yields r s (exec_param fe k i ty r s) (sem_param fe k i ty (world s))"
  unfolding exec_param_def sem_param_def ExecEvalParamExec_def ExecEvalParamExtern_def
  by (auto intro!: yields_intros split: option.splits prod.splits if_splits)

lemma yields_nextval:
  "yields r s (ExecEvalNextValueExpr fe seqid seqtypid r s) (sem_nextval fe seqid seqtypid (world s))"
  unfolding ExecEvalNextValueExpr_def sem_nextval_def by (auto intro!: yields_intros)

lemma minmax_loop_sem:
  "bindE (minmax_loop fe opr f coll vs res w) (\<lambda>(v, w). Inr (nd v, w)) = sem_minmax fe opr f coll vs (nd res) w"
proof (induction fe opr f coll vs res w rule: minmax_loop.induct)
  case (3 fe opr f coll v vs res w)
  show ?case
  proof (cases "snd res")
    case True
    then show ?thesis using 3(1) by (simp add: nd_def)
  next
    case False
    show ?thesis
    proof (cases "fe_call fe f coll [Some (fst res), Some v] w")
      case (Inr x)
      obtain c isnull w1 where x: "x = ((c, isnull), w1)" by (metis surj_pair)
      show ?thesis using 3(2) [OF False Inr] False Inr x by (auto simp: nd_def sem_call_def split: if_splits)
    qed (use False in \<open>simp add: nd_def sem_call_def\<close>)
  qed
qed simp_all

lemma yields_minmax:
  "map (\<lambda>i. nd (cells s (base + i))) [0..<n] = vs \<Longrightarrow>
   yields r s (ExecEvalMinMax fe opr f coll base n r s) (sem_minmax fe opr f coll vs None (world s))"
  using yields_call [of r s "minmax_loop fe opr f coll vs (fst (cells s r), True) (world s)"]
    minmax_loop_sem [of fe opr f coll vs "(fst (cells s r), True)" "world s"]
  by (simp add: ExecEvalMinMax_def sem_lift_def)

lemma sem_or_element:
  "sem_or anynull (sem_element fe strict f coll scalar elt # ms) w =
   bindE (if elt = None \<and> strict then Inr ((0, True), w) else fe_call fe f coll [scalar, elt] w) (\<lambda>((d, isnull), w1).
     if isnull then sem_or True ms w1 else if DatumGetBool d then Inr (sbool True, w1) else sem_or anynull ms w1)"
  (is "_ = bindE ?c _")
proof -
  have m: "sem_element fe strict f coll scalar elt w =
      bindE ?c (\<lambda>(v, w1). Inr (map_option (\<lambda>d. BoolGetDatum (DatumGetBool d)) (nd v), w1))"
    by (simp add: sem_element_def sem_call_def bindE_assoc case_prod_beta')
  show ?thesis
  proof (cases ?c)
    case (Inr x)
    obtain d isnull w1 where x: "x = ((d, isnull), w1)" by (metis surj_pair)
    show ?thesis unfolding Inr x using m [unfolded Inr x]
      by (cases ms; cases isnull; cases "DatumGetBool d") (simp_all add: istrue_def isfalse_def sbool_def)
  qed (use m in \<open>cases ms; simp\<close>)
qed

lemma sem_and_element:
  "sem_and anynull (sem_element fe strict f coll scalar elt # ms) w =
   bindE (if elt = None \<and> strict then Inr ((0, True), w) else fe_call fe f coll [scalar, elt] w) (\<lambda>((d, isnull), w1).
     if isnull then sem_and True ms w1 else if \<not> DatumGetBool d then Inr (sbool False, w1) else sem_and anynull ms w1)"
  (is "_ = bindE ?c _")
proof -
  have m: "sem_element fe strict f coll scalar elt w =
      bindE ?c (\<lambda>(v, w1). Inr (map_option (\<lambda>d. BoolGetDatum (DatumGetBool d)) (nd v), w1))"
    by (simp add: sem_element_def sem_call_def bindE_assoc case_prod_beta')
  show ?thesis
  proof (cases ?c)
    case (Inr x)
    obtain d isnull w1 where x: "x = ((d, isnull), w1)" by (metis surj_pair)
    show ?thesis unfolding Inr x using m [unfolded Inr x]
      by (cases ms; cases isnull; cases "DatumGetBool d") (simp_all add: istrue_def isfalse_def sbool_def)
  qed (use m in \<open>cases ms; simp\<close>)
qed

lemma scalararray_loop_or:
  "bindE (scalararray_loop fe True fd scalar elts (BoolGetDatum False, anynull) w) (\<lambda>(v, w). Inr (nd v, w)) =
   sem_or anynull (map (sem_element fe (fd_strict fd) (fd_oid fd) (fd_collation fd) scalar) elts) w"
proof (induction elts arbitrary: anynull w)
  case (Cons elt elts)
  show ?case
    unfolding list.map sem_or_element scalararray_loop.simps bindE_assoc
    by (rule bindE_cong) (auto simp: Cons.IH sbool_def)
qed (simp add: nd_def sbool_def)

lemma scalararray_loop_and:
  "bindE (scalararray_loop fe False fd scalar elts (BoolGetDatum True, anynull) w) (\<lambda>(v, w). Inr (nd v, w)) =
   sem_and anynull (map (sem_element fe (fd_strict fd) (fd_oid fd) (fd_collation fd) scalar) elts) w"
proof (induction elts arbitrary: anynull w)
  case (Cons elt elts)
  show ?case
    unfolding list.map sem_and_element scalararray_loop.simps bindE_assoc
    by (rule bindE_cong) (auto simp: Cons.IH sbool_def)
qed (simp add: nd_def sbool_def)

lemma yields_scalararray:
  assumes "nd (cells s (fd_args fd)) = scalar" "nd (cells s r) = arr"
  shows "yields r s (ExecEvalScalarArrayOp fe useOr fd r s)
    (sem_scalararray fe useOr (fd_strict fd) (fd_oid fd) (fd_collation fd) scalar arr (world s))"
proof (cases arr)
  case None
  then show ?thesis using assms by (auto simp: ExecEvalScalarArrayOp_def sem_scalararray_def nd_None_iff intro!: yields_same)
next
  case (Some a)
  let ?items = "fe_array_items fe a (world s)"
  have a: "\<not> snd (cells s r)" "fst (cells s r) = a" using assms Some by (auto simp: nd_Some_iff)
  have n: "arg_null fd 0 s \<longleftrightarrow> scalar = None" using assms by (simp add: arg_null_iff)
  show ?thesis
  proof (cases "?items \<noteq> [] \<and> \<not> (scalar = None \<and> fd_strict fd)")
    case True
    let ?loop = "scalararray_loop fe useOr fd scalar ?items (BoolGetDatum (\<not> useOr), False) (world s)"
    have "sem_scalararray fe useOr (fd_strict fd) (fd_oid fd) (fd_collation fd) scalar arr (world s) = sem_lift ?loop"
      using True Some scalararray_loop_or [of fe fd scalar ?items False "world s"]
        scalararray_loop_and [of fe fd scalar ?items False "world s"]
      by (cases useOr) (auto simp: sem_scalararray_def sem_lift_def)
    moreover have "ExecEvalScalarArrayOp fe useOr fd r s = next_call r ?loop s"
      using True a n assms by (auto simp: ExecEvalScalarArrayOp_def)
    ultimately show ?thesis by (simp add: yields_call)
  next
    case False
    then show ?thesis using a n Some
      by (auto simp: ExecEvalScalarArrayOp_def sem_scalararray_def sbool_def Let_def intro!: yields_next_with)
  qed
qed

section \<open>Leaves and nodes with one argument\<close>

lemma correct_leaf:
  assumes t: "\<And>r es es'. t r es = Inr es' \<Longrightarrow> \<exists>es0. es' = ExprEvalPushStep (st r es) es0 \<and> steps es0 = steps es \<and>
      next_cell es0 = next_cell es \<and> preload es0 = preload es \<and>
      innermost_caseval es0 = innermost_caseval es \<and> innermost_domainval es0 = innermost_domainval es \<and>
      steps_alloc es0 = steps_alloc es"
    and y: "\<And>r es s. place r es \<Longrightarrow> yields r s (exec_step fe (st r es) s) (m (rd_of s) (tv_of fe es s) (world s))"
  shows "correct fe t m"
proof (rule correctI)
  fix r es es' assume "t r es = Inr es'"
  from t [OF this] obtain es0 where "es' = ExprEvalPushStep (st r es) es0" "ext es es0" by (auto simp: ext_def alloc_ok_def)
  then show "ext es es'" by (auto intro: ext_trans)
next
  fix r es es' P and s :: "'a rstate"
  assume a: "t r es = Inr es'" "place r es" "ext es es'" "code P es es' Map.empty"
  obtain es0 where e: "es' = ExprEvalPushStep (st r es) es0" "steps es0 = steps es" using t [OF a(1)] by blast
  have "code P es0 es' Map.empty" using a(4) code_same [OF e(2) refl] by blast
  then have "len es < length P" "P ! len es = st r es" using e by simp_all
  moreover have "len es' = Suc (len es)" using e by simp
  ultimately show "sim fe P (len es) s (m (rd_of s) (tv_of fe es s) (world s)) (len es') (done_at r (scope r es es') s)"
    using sim_yields [of "len es" P r s fe _ "scope r es es'" s] y [OF a(2)] by simp
qed

lemma correct_unary:
  assumes t: "correct fe t m" and p: "\<And>r es. push r es = ExprEvalPushStep (st r es) es"
    and y: "\<And>r es s v. nd (cells s r) = v \<Longrightarrow> yields r s (exec_step fe (st r es) s) (k v (world s))"
  shows "correct fe (init_unary push t) (\<lambda>rd tv w. bindE (m rd tv w) (\<lambda>(v, w1). k v w1))"
proof (rule correctI)
  fix r es es' assume "init_unary push t r es = Inr es'" "place r es"
  then show "ext es es'" using p by (auto simp: init_unary_def intro: ext_trans correct_ext [OF t])
next
  fix r es es' P and s :: "'a rstate"
  assume a: "init_unary push t r es = Inr es'" "place r es" "ext es es'" "code P es es' Map.empty" "holds es' s"
  obtain es1 where e: "t r es = Inr es1" "es' = ExprEvalPushStep (st r es1) es1" using a(1) p by (auto simp: init_unary_def)
  have x: "ext es es1" "ext es1 es'" using correct_ext [OF t e(1) a(2)] e(2) by auto
  have c: "code P es es1 Map.empty" "code P es1 es' Map.empty" using a(4) code_trans [OF x] by auto
  have l: "len es1 < length P" "P ! len es1 = st r es1" "len es' = Suc (len es1)" using c(2) e(2) by simp_all
  show "sim fe P (len es) s (bindE (m (rd_of s) (tv_of fe es s) (world s)) (\<lambda>(v, w1). k v w1)) (len es') (done_at r (scope r es es') s)"
  proof (rule sim_bind [OF correct_part [OF t e(1) a(2) ext_refl x(2) scope_self a(2) c(1)]])
    fix x s' assume d: "done_at r (scope r es es') s x s'"
    then show "sim fe P (len es1) s' (case x of (v, w1) \<Rightarrow> k v w1) (len es') (done_at r (scope r es es') s)"
      using sim_yields [OF l(1), of r s' fe "k (fst x) (snd x)"] y [of s' r "fst x" es1] l
      by (auto simp: done_at_def case_prod_beta')
  qed (use a(5) in auto)
qed

section \<open>Arguments of functions\<close>

lemma place_fresh:
  "place r a \<Longrightarrow> ext a es \<Longrightarrow> next_cell a \<le> c \<Longrightarrow> c < next_cell es \<Longrightarrow> c \<notin> precells es \<Longrightarrow> place c es"
  using place_ext [of r a es] extD [of a es] by (fastforce simp: place_def)

lemma tv_above:
  assumes "place r a" "ext a es" "keep W s s1" "\<And>c. c \<in> W \<Longrightarrow> next_cell a \<le> c"
  shows "tv_of fe es s1 = tv_of fe es s"
proof -
  have "innermost_caseval es = Some c \<Longrightarrow> c \<notin> W" "innermost_domainval es = Some c \<Longrightarrow> c \<notin> W" for c
    using assms(1,4) extD(3,4) [OF assms(2)] by (fastforce simp: place_def)+
  then show ?thesis using assms(3) by (auto simp: tv_of_def keep_def split: option.splits)
qed

definition arg_ok :: "'w fenv \<Rightarrow> NullableDatum option \<times> translation \<Rightarrow> 'w meaning \<Rightarrow> bool" where
  "arg_ok fe x m \<longleftrightarrow>
     (case fst x of Some v \<Rightarrow> m = (\<lambda>rd tv w. Inr (nd v, w)) | None \<Rightarrow> correct fe (snd x) m)"

text \<open>The argument cells from \<open>base\<close> on have been taken since \<open>a\<close> and are not in use.\<close>

definition args_at :: "loc \<Rightarrow> nat \<Rightarrow> ExprState \<Rightarrow> ExprState \<Rightarrow> bool" where
  "args_at base n a es \<longleftrightarrow>
     ext a es \<and> next_cell a \<le> base \<and> base + n \<le> next_cell es \<and> (\<forall>c. base \<le> c \<and> c < base + n \<longrightarrow> c \<notin> precells es)"

lemma args_at_const:
  "args_at base (Suc n) a es \<Longrightarrow> args_at (Suc base) n a (es\<lparr>preload := preload es @ [(base, v)]\<rparr>)"
  by (fastforce simp: args_at_def ext_def precells_def)

lemma args_at_correct:
  assumes "args_at base (Suc n) a es" "ext es es1" shows "args_at (Suc base) n a es1"
proof -
  have "c \<in> precells es1 \<Longrightarrow> c < next_cell es \<Longrightarrow> c \<in> precells es" for c
    using ext_precells [OF assms(2), of c] by auto
  then show ?thesis using assms extD(2) [OF assms(2)] by (fastforce simp: args_at_def intro: ext_trans)
qed

lemma args_at_place: "place r a \<Longrightarrow> args_at base (Suc n) a es \<Longrightarrow> place base es"
  by (rule place_fresh [of r a]) (auto simp: args_at_def)

definition more :: "loc \<Rightarrow> nat \<Rightarrow> ExprState \<Rightarrow> ExprState \<Rightarrow> bool" where
  "more base n es es' \<longleftrightarrow>
     grows es es' \<and> next_cell es \<le> next_cell es' \<and> set (preload es) \<subseteq> set (preload es') \<and>
     (\<forall>c \<in> precells es'. c \<in> precells es \<or> base \<le> c \<and> c < base + n \<or> next_cell es \<le> c \<and> c < next_cell es')"

lemma grows_trans: "grows a b \<Longrightarrow> grows b c \<Longrightarrow> grows a c"
  by (auto simp: grows_def)

lemma more_correct:
  assumes "ext es es1" "more (Suc base) n es1 es'" shows "more base (Suc n) es es'"
proof -
  have "c \<in> precells es1 \<Longrightarrow> c \<in> precells es \<or> next_cell es \<le> c \<and> c < next_cell es'" for c
    using ext_precells [OF assms(1), of c] assms(2) by (auto simp: more_def)
  then show ?thesis using assms(2) extD(2,6) [OF assms(1)] grows_trans [OF ext_grows [OF assms(1)], of es']
    by (fastforce simp: more_def)
qed

lemma more_const:
  assumes "more (Suc base) n (es\<lparr>preload := preload es @ [(base, v)]\<rparr>) es'" shows "more base (Suc n) es es'"
  using assms by (auto simp: more_def grows_def precells_def)

lemma init_func_args_grows:
  assumes "list_all2 (arg_ok fe) args ms" "init_func_args args base es = Inr es'" "place r a" "args_at base (length args) a es"
  shows "ext a es' \<and> more base (length args) es es'"
  using assms(1,2,4)
proof (induction arbitrary: base es rule: list_all2_induct)
  case Nil then show ?case by (auto simp: args_at_def grows_def more_def)
next
  case (Cons x args m ms)
  obtain con t where x: "x = (con, t)" by (cases x)
  show ?case
  proof (cases con)
    case None
    then obtain es1 where e: "t base es = Inr es1" "init_func_args args (Suc base) es1 = Inr es'" using Cons x by auto
    have "correct fe t m" using Cons(1) x None by (simp add: arg_ok_def)
    then have x1: "ext es es1" using e(1) args_at_place [OF assms(3)] Cons(5) by (auto intro: correct_ext)
    have "ext a es' \<and> more (Suc base) (length args) es1 es'"
      using Cons(3) [OF e(2)] args_at_correct [OF _ x1, of base] Cons(5) by simp
    then show ?thesis using more_correct [OF x1] by simp
  next
    case (Some v)
    have "ext a es' \<and> more (Suc base) (length args) (es\<lparr>preload := preload es @ [(base, v)]\<rparr>) es'"
      using Cons(3-5) x Some args_at_const [of base _ a es v] by simp
    then show ?thesis using more_const by simp blast
  qed
qed

text \<open>What the evaluation of the arguments changes, and what it leaves in the argument cells.\<close>

definition args_scope :: "loc \<Rightarrow> nat \<Rightarrow> ExprState \<Rightarrow> ExprState \<Rightarrow> loc set" where
  "args_scope base n es es' = ({base..<base + n} \<union> {next_cell es..<next_cell es'}) - precells es'"

definition args_done :: "loc \<Rightarrow> nat \<Rightarrow> loc set \<Rightarrow> 'w rstate \<Rightarrow> Datum option list \<times> 'w \<Rightarrow> 'w rstate \<Rightarrow> bool" where
  "args_done base n W s x s' \<longleftrightarrow>
     map (\<lambda>i. nd (cells s' (base + i))) [0..<n] = fst x \<and> world s' = snd x \<and> keep W s s'"

lemma args_done_Cons:
  assumes "args_done (Suc base) n W' s1 (vs, w) s'" "nd (cells s1 base) = v" "base \<notin> W'" "keep W s s1" "W' \<subseteq> W"
  shows "args_done base (Suc n) W s (v # vs, w) s'"
proof -
  have "nd (cells s' base) = v" using assms(1-3) by (auto simp: args_done_def keep_def)
  moreover have "map (\<lambda>i. nd (cells s' (base + i))) [0..<Suc n] = nd (cells s' base) # map (\<lambda>i. nd (cells s' (Suc base + i))) [0..<n]"
    unfolding upt_conv_Cons [OF zero_less_Suc] map_Suc_upt [symmetric] by simp
  ultimately show ?thesis using assms keep_trans [OF assms(4) keep_mono [OF _ assms(5)]] by (simp add: args_done_def)
qed

lemma sim_args_Cons:
  assumes "sim fe P a s1 R b (args_done (Suc base) n W' s1)" "nd (cells s1 base) = v" "base \<notin> W'" "keep W s s1" "W' \<subseteq> W"
  shows "sim fe P a s1 (bindE R (\<lambda>(vs, w). Inr (v # vs, w))) b (args_done base (Suc n) W s)"
  by (rule sim_bind [OF assms(1)]) (auto intro!: sim_ret args_done_Cons [OF _ assms(2-5)])

lemma init_func_args_correct:
  assumes "list_all2 (arg_ok fe) args ms" "init_func_args args base es = Inr es'" "place r a" "args_at base (length args) a es"
    "code P es es' Map.empty" "holds es' s"
  shows "sim fe P (len es) s (sem_args (map (\<lambda>m. m (rd_of s) (tv_of fe es s)) ms) (world s)) (len es')
    (args_done base (length args) (args_scope base (length args) es es') s)"
  using assms(1,2,4-)
proof (induction arbitrary: base es s rule: list_all2_induct)
  case Nil then show ?case by (auto intro!: sim_ret simp: args_done_def)
next
  case (Cons x args m ms)
  obtain con t where x: "x = (con, t)" by (cases x)
  show ?case
  proof (cases con)
    case (Some v)
    let ?es = "es\<lparr>preload := preload es @ [(base, v)]\<rparr>"
    have i: "init_func_args args (Suc base) ?es = Inr es'" using Cons(4) x Some by simp
    have at: "args_at (Suc base) (length args) a ?es" using args_at_const Cons(5) by simp
    have g: "more (Suc base) (length args) ?es es'" using init_func_args_grows [OF Cons(2) i assms(3) at] by simp
    have m: "m = (\<lambda>rd tv w. Inr (nd v, w))" using Cons(1) x Some by (simp add: arg_ok_def)
    have pb: "(base, v) \<in> set (preload es')" "base \<in> precells es'" using g by (force simp: more_def precells_def)+
    have v: "cells s base = v" using Cons(7) pb(1) by (auto simp: holds_def)
    have c: "code P ?es es' Map.empty" using Cons(6) by (simp add: code_def)
    have tv: "tv_of fe ?es s = tv_of fe es s" by (simp add: tv_of_def)
    have b: "base \<notin> args_scope (Suc base) (length args) ?es es'" using pb(2) by (simp add: args_scope_def)
    have w: "args_scope (Suc base) (length args) ?es es' \<subseteq> args_scope base (Suc (length args)) es es'"
      by (auto simp: args_scope_def)
    from sim_args_Cons [OF Cons(3) [OF i at c Cons(7)] _ b keep_refl w] show ?thesis unfolding tv v by (simp add: m)
  next
    case None
    then obtain es1 where e: "t base es = Inr es1" "init_func_args args (Suc base) es1 = Inr es'" using Cons x by auto
    have t: "correct fe t m" using Cons(1) x None by (simp add: arg_ok_def)
    have at: "args_at base (Suc (length args)) a es" using Cons(5) by simp
    have pl: "place base es" by (rule args_at_place [OF assms(3) at])
    have x1: "ext es es1" by (rule correct_ext [OF t e(1) pl])
    have at1: "args_at (Suc base) (length args) a es1" by (rule args_at_correct [OF at x1])
    have g: "more (Suc base) (length args) es1 es'" using init_func_args_grows [OF Cons(2) e(2) assms(3) at1] by simp
    let ?W1 = "scope base es es1" and ?W' = "args_scope (Suc base) (length args) es1 es'"
      and ?W = "args_scope base (Suc (length args)) es es'"
    have nx: "base < next_cell es" "next_cell a \<le> base" "next_cell es \<le> next_cell es1" "next_cell es1 \<le> next_cell es'"
      using at extD(2) [OF x1] g by (auto simp: args_at_def more_def)
    have pc: "c \<in> precells es' \<Longrightarrow> c < next_cell es1 \<Longrightarrow> c \<in> precells es1 \<or> base < c \<and> c < next_cell es" for c
      using g at by (fastforce simp: more_def args_at_def)
    have pb: "base \<notin> precells es'" using pc [of base] nx place_ext [OF pl x1] by (auto simp: place_def)
    have W: "?W1 \<subseteq> ?W" "?W' \<subseteq> ?W" "base \<notin> ?W'" "?W1 \<inter> precells es' = {}"
      using nx pb pc by (fastforce simp: scope_def args_scope_def)+
    have c: "code P es es1 Map.empty" "code P es1 es' Map.empty"
      using Cons(6) g code_grows [OF ext_grows [OF x1]] by (auto simp: more_def)
    have h: "holds es1 s" using Cons(7) g by (auto simp: holds_def more_def)
    show ?thesis
      unfolding list.map sem_args.simps
    proof (rule sim_bind)
      show "sim fe P (len es) s (m (rd_of s) (tv_of fe es s) (world s)) (len es1) (done_at base ?W1 s)"
        using t e(1) pl c(1) h unfolding correct_def by blast
      fix y s1 assume d: "done_at base ?W1 s y s1"
      have k: "keep ?W1 s s1" using d by (simp add: done_at_def)
      have xa: "ext a es" and low: "\<And>c. c \<in> ?W1 \<Longrightarrow> next_cell a \<le> c"
        using at nx by (auto simp: args_at_def scope_def)
      have "tv_of fe es1 s1 = tv_of fe es s"
        using tv_ext [OF x1, of fe s1] tv_above [OF assms(3) xa k low, of fe] by simp
      moreover have "sim fe P (len es1) s1 (sem_args (map (\<lambda>m. m (rd_of s1) (tv_of fe es1 s1)) ms) (world s1)) (len es')
          (args_done (Suc base) (length args) ?W' s1)"
        by (rule Cons(3) [OF e(2) at1 c(2) holds_keep [OF Cons(7) k W(4)]])
      ultimately show "sim fe P (len es1) s1 (case y of (v, w1) \<Rightarrow> bindE (sem_args (map (\<lambda>m. m (rd_of s) (tv_of fe es s)) ms) w1)
          (\<lambda>(vs, w2). Inr (v # vs, w2))) (len es') (args_done base (length (x # args)) (args_scope base (length (x # args)) es es') s)"
        using sim_args_Cons [OF _ _ W(3) keep_mono [OF k W(1)] W(2), of fe P "len es1" _ "len es'" "length args" "fst y"] d
        by (simp add: done_at_def keep_rd [OF k] case_prod_beta')
    qed
  qed
qed

lemma args_at_alloc: "place r es \<Longrightarrow> palloc_cells n es = (base, es1) \<Longrightarrow> args_at base n es es1"
  using ext_palloc [of n es base es1] palloc_simps [of n es base es1]
  by (auto simp: args_at_def place_def precells_def)

lemma args_scope_sub:
  assumes "place r a" "ext a es'" "next_cell a \<le> base" "base + n \<le> next_cell es'" "next_cell a \<le> next_cell es"
  shows "args_scope base n es es' \<subseteq> scope r a es'"
  using assms by (auto simp: args_scope_def scope_def)

text \<open>A step that works on argument cells.\<close>

lemma correct_args_step:
  assumes args: "list_all2 (arg_ok fe) args ms"
    and t: "\<And>r es es'. t r es = Inr es' \<Longrightarrow>
      \<exists>es1 es2. palloc_cells (length args) es = (next_cell es, es1) \<and> init_func_args args (next_cell es) es1 = Inr es2 \<and>
        es' = ExprEvalPushStep (st r (next_cell es)) es2"
    and y: "\<And>r s base. yields r s (exec_step fe (st r base) s) (k (map (\<lambda>i. nd (cells s (base + i))) [0..<length args]) (world s))"
  shows "correct fe t (\<lambda>rd tv w. bindE (sem_args (map (\<lambda>m. m rd tv) ms) w) (\<lambda>(vs, w1). k vs w1))"
proof (rule correctI)
  fix r es es' assume "t r es = Inr es'" and pl: "place r es"
  from t [OF this(1)] obtain es1 es2 where e: "palloc_cells (length args) es = (next_cell es, es1)"
    "init_func_args args (next_cell es) es1 = Inr es2" "es' = ExprEvalPushStep (st r (next_cell es)) es2" by blast
  from init_func_args_grows [OF args e(2) pl args_at_alloc [OF pl e(1)]] e(3) show "ext es es'" by (auto intro: ext_trans)
next
  fix r es es' P and s :: "'a rstate"
  assume a: "t r es = Inr es'" "place r es" "ext es es'" "code P es es' Map.empty" "holds es' s"
  let ?b = "next_cell es" and ?n = "length args"
  from t [OF a(1)] obtain es1 es2 where e: "palloc_cells ?n es = (?b, es1)" "init_func_args args ?b es1 = Inr es2"
    "es' = ExprEvalPushStep (st r ?b) es2" by blast
  note at = args_at_alloc [OF a(2) e(1)] and al = palloc_simps [OF e(1)]
  have g: "ext es es2" "more ?b ?n es1 es2" using init_func_args_grows [OF args e(2) a(2) at] by auto
  have x2: "ext es2 es'" by (simp add: e(3))
  have "code P es es2 Map.empty" "code P es2 es' Map.empty" using a(4) code_trans [OF g(1) x2] by simp_all
  then have c: "code P es1 es2 Map.empty" "len es2 < length P" "P ! len es2 = st r ?b"
    using e(3) al code_same [of es es1 es2 es2 P] by simp_all
  have h: "holds es2 s" by (rule holds_ext [OF _ a(5)]) (simp add: e(3))
  have W: "args_scope ?b ?n es1 es2 \<subseteq> scope r es es'"
    using args_scope_sub [OF a(2) g(1), of ?b ?n es1] al g(2) e(3) by (auto simp: more_def scope_def precells_def)
  have tv: "tv_of fe es1 s = tv_of fe es s" using tv_ext [OF ext_palloc [OF e(1)]] .
  have st: "sim fe P (len es) s (sem_args (map (\<lambda>m. m (rd_of s) (tv_of fe es s)) ms) (world s)) (len es2)
      (args_done ?b ?n (args_scope ?b ?n es1 es2) s)"
    using init_func_args_correct [OF args e(2) a(2) at c(1) h] al unfolding tv by simp
  have l: "len es' = Suc (len es2)" using e(3) by simp
  show "sim fe P (len es) s (bindE (sem_args (map (\<lambda>m. m (rd_of s) (tv_of fe es s)) ms) (world s)) (\<lambda>(vs, w1). k vs w1))
      (len es') (done_at r (scope r es es') s)"
    unfolding l
  proof (rule sim_bind [OF st])
    fix x s' assume d: "args_done ?b ?n (args_scope ?b ?n es1 es2) s x s'"
    then show "sim fe P (len es2) s' (case x of (vs, w1) \<Rightarrow> k vs w1) (Suc (len es2)) (done_at r (scope r es es') s)"
      using sim_yields [OF c(2), of r s' fe _ "scope r es es'" s] y [of r s' ?b] c(3) keep_mono [OF _ W]
      by (auto simp: args_done_def case_prod_beta')
  qed
qed

lemma correct_init_func:
  assumes args: "list_all2 (arg_ok fe) args ms"
    and y: "\<And>r s fd. fd_oid fd = f \<Longrightarrow> fd_collation fd = coll \<Longrightarrow> fd_nargs fd = length args \<Longrightarrow>
      yields r s (exec_func fe fop fd r s) (k (fcinfo_args fd s) (world s))"
  shows "correct fe (init_func ce fop f coll args) (\<lambda>rd tv w. bindE (sem_args (map (\<lambda>m. m rd tv) ms) w) (\<lambda>(vs, w1). k vs w1))"
proof (rule correct_args_step [OF args])
  let ?fd = "\<lambda>base. \<lparr>fd_oid = f, fd_collation = coll, fd_args = base, fd_nargs = length args, fd_strict = fn_strict (ce_fmgr ce f)\<rparr>"
  show "\<exists>es1 es2. palloc_cells (length args) es = (next_cell es, es1) \<and> init_func_args args (next_cell es) es1 = Inr es2 \<and>
      es' = ExprEvalPushStep (SFunc fop (?fd (next_cell es)) r) es2"
    if "init_func ce fop f coll args r es = Inr es'" for r es es'
    using that by (auto simp: init_func_def ExecInitFunc_def palloc_cells_def Let_def split: if_splits)
  show "yields r s (exec_step fe (SFunc fop (?fd base) r) s) (k (map (\<lambda>i. nd (cells s (base + i))) [0..<length args]) (world s))"
    for r s base
    using y [of "?fd base" r s] by (simp add: fcinfo_args_def)
qed

lemma init_cell_args_func: "init_cell_args ts base es = init_func_args (map (Pair None) ts) base es"
  by (induction ts arbitrary: base es) (auto intro!: bindE_cong)

lemma correct_init_min_max:
  assumes "list_all2 (correct fe) ts ms"
  shows "correct fe (init_min_max ce opr ty coll ts)
    (\<lambda>rd tv w. bindE (sem_args (map (\<lambda>m. m rd tv) ms) w) (\<lambda>(vs, w1). sem_minmax fe opr (ce_cmp_proc ce ty) coll vs None w1))"
proof (rule correct_args_step [where args = "map (Pair None) ts"])
  show "list_all2 (arg_ok fe) (map (Pair None) ts) ms" using assms by (simp add: list_all2_map1 arg_ok_def)
  show "\<exists>es1 es2. palloc_cells (length (map (Pair None) ts)) es = (next_cell es, es1) \<and>
      init_func_args (map (Pair None) ts) (next_cell es) es1 = Inr es2 \<and>
      es' = ExprEvalPushStep (SMinMax opr (ce_cmp_proc ce ty) coll (next_cell es) (length ts) r) es2"
    if "init_min_max ce opr ty coll ts r es = Inr es'" for r es es'
    using that by (auto simp: init_min_max_def palloc_cells_def init_cell_args_func Let_def split: if_splits)
qed (simp add: yields_minmax)

end
