(* ===== verification/ExprJumps.thy ===== *)
theory ExprJumps
  imports ExprCorrect
begin

text \<open>
  Correctness of the node types whose steps jump or share a place: array operators, boolean
  operators, \<open>COALESCE\<close>, \<open>CASE\<close>, row comparisons and domain constraints.
\<close>

section \<open>Array operators\<close>

lemma fresh_kept: "ext es es' \<Longrightarrow> c < next_cell es \<Longrightarrow> c \<notin> precells es \<Longrightarrow> c \<notin> precells es'"
  using ext_precells [of es es' c] by auto

lemma alloc_one:
  assumes "place r a" "palloc_cells (Suc n) a = (c, es)" "ext es d"
  shows "place c es" "c \<in> scope r a d" "c \<noteq> r" "c < next_cell es"
proof -
  note al = palloc_simps [OF assms(2)]
  have c: "c < next_cell es" "c \<notin> precells es" using al assms(1) by (auto simp: place_def precells_def)
  show "place c es" by (rule place_fresh [OF assms(1) ext_palloc [OF assms(2)] _ c]) (simp add: al)
  show "c \<in> scope r a d" using fresh_kept [OF assms(3) c] c extD(2) [OF assms(3)] al by (simp add: scope_def)
  show "c \<noteq> r" "c < next_cell es" using al assms(1) by (auto simp: place_def)
qed

lemma init_scalar_array_cases:
  assumes "init_scalar_array ce f coll useOr ts ta r es = Inr es'"
  obtains fd es1 es2 es3 where "palloc_cells (Suc 1) es = (fd_args fd, es1)" "fd_oid fd = f" "fd_collation fd = coll"
    "fd_strict fd = fn_strict (ce_fmgr ce f)" "ts (fd_args fd) es1 = Inr es2" "ta r es2 = Inr es3"
    "es' = ExprEvalPushStep (SScalarArrayOp useOr fd r) es3"
proof -
  let ?fd = "\<lparr>fd_oid = f, fd_collation = coll, fd_args = next_cell es, fd_nargs = 2, fd_strict = fn_strict (ce_fmgr ce f)\<rparr>"
  obtain es2 es3 where "ts (next_cell es) (es\<lparr>next_cell := next_cell es + 2\<rparr>) = Inr es2" "ta r es2 = Inr es3"
      "es' = ExprEvalPushStep (SScalarArrayOp useOr ?fd r) es3"
    using assms by (auto simp: init_scalar_array_def init_scalararrayop_def palloc_cells_def Let_def split: if_splits)
  then show thesis by (intro that [of ?fd "es\<lparr>next_cell := next_cell es + 2\<rparr>" es2 es3]) (simp_all add: palloc_cells_def)
qed

lemma correct_init_scalar_array:
  assumes ts: "correct fe ts ms" and ta: "correct fe ta ma"
  shows "correct fe (init_scalar_array ce f coll useOr ts ta)
    (\<lambda>rd tv w. bindE (ms rd tv w) (\<lambda>(v, w1). bindE (ma rd tv w1) (\<lambda>(a, w2).
       sem_scalararray fe useOr (fn_strict (ce_fmgr ce f)) f coll v a w2)))"
proof (rule correctI)
  fix r es es' assume t: "init_scalar_array ce f coll useOr ts ta r es = Inr es'" and pl: "place r es"
  from t obtain fd es1 es2 es3 where e: "palloc_cells (Suc 1) es = (fd_args fd, es1)" "ts (fd_args fd) es1 = Inr es2"
    "ta r es2 = Inr es3" "es' = ExprEvalPushStep (SScalarArrayOp useOr fd r) es3" by (rule init_scalar_array_cases)
  have "ext es es2" using ext_trans [OF ext_palloc [OF e(1)] correct_ext [OF ts e(2) alloc_one(1) [OF pl e(1) ext_refl]]] .
  moreover from this have "ext es2 es3" by (rule correct_ext [OF ta e(3) place_ext [OF pl]])
  ultimately show "ext es es'" unfolding e(4) by (blast intro: ext_trans)
next
  fix r es es' P and s :: "'a rstate"
  assume a: "init_scalar_array ce f coll useOr ts ta r es = Inr es'" "place r es" "ext es es'" "code P es es' Map.empty" "holds es' s"
  from a(1) obtain fd es1 es2 es3 where e: "palloc_cells (Suc 1) es = (fd_args fd, es1)" and fd: "fd_oid fd = f" "fd_collation fd = coll"
    "fd_strict fd = fn_strict (ce_fmgr ce f)" and f: "ts (fd_args fd) es1 = Inr es2"
    "ta r es2 = Inr es3" "es' = ExprEvalPushStep (SScalarArrayOp useOr fd r) es3" by (rule init_scalar_array_cases)
  let ?c = "fd_args fd" and ?W = "scope r es es'"
  have x1: "ext es es1" by (rule ext_palloc [OF e])
  have x2: "ext es1 es2" by (rule correct_ext [OF ts f(1) alloc_one(1) [OF a(2) e ext_refl]])
  have x12: "ext es es2" by (rule ext_trans [OF x1 x2])
  have x3: "ext es2 es3" by (rule correct_ext [OF ta f(2) place_ext [OF a(2) x12]])
  have x4: "ext es3 es'" by (simp add: f(3))
  have x24: "ext es2 es'" by (rule ext_trans [OF x3 x4])
  have c: "place ?c es1" "?c \<in> ?W" "?c \<noteq> r" "?c < next_cell es1"
    using alloc_one [OF a(2) e ext_trans [OF x2 x24]] by auto
  have "?c \<notin> scope r es2 es3" using c(3,4) extD(2) [OF x2] by (auto simp: scope_def)
  have l: "len es1 = len es" using palloc_simps [OF e] by simp
  have cd: "code P es1 es2 Map.empty" "code P es2 es3 Map.empty" "code P es3 es' Map.empty"
    using a(4) code_trans [OF x1 ext_trans [OF x2 x24]] code_trans [OF x2 x24] code_trans [OF x3 x4] by auto
  show "sim fe P (len es) s (bindE (ms (rd_of s) (tv_of fe es s) (world s)) (\<lambda>(v, w1). bindE (ma (rd_of s) (tv_of fe es s) w1) (\<lambda>(a, w2).
       sem_scalararray fe useOr (fn_strict (ce_fmgr ce f)) f coll v a w2))) (len es') (done_at r ?W s)"
  proof (rule sim_bind [OF correct_part [OF ts f(1) c(1) x1 x24 c(2) a(2) cd(1), unfolded l]])
    fix x s1 assume d: "done_at ?c ?W s x s1"
    then have k: "keep ?W s s1" and w: "snd x = world s1" by (auto simp: done_at_def)
    have h: "holds es' s1" by (rule holds_keep [OF a(5) k scope_precells [OF a(2,3)]])
    show "sim fe P (len es2) s1 (case x of (v, w1) \<Rightarrow> bindE (ma (rd_of s) (tv_of fe es s) w1) (\<lambda>(a, w2).
       sem_scalararray fe useOr (fn_strict (ce_fmgr ce f)) f coll v a w2)) (len es') (done_at r ?W s)"
      unfolding case_prod_beta w
    proof (rule sim_bind [OF correct_part_keep [OF ta f(2) place_ext [OF a(2) x12] x12 x4 scope_self a(2) cd(2) refl h k]])
      fix y s2 assume d2: "done_at r ?W s y s2 \<and> keep (scope r es2 es3) s1 s2"
      then have v: "nd (cells s2 ?c) = fst x" using d \<open>?c \<notin> scope r es2 es3\<close> keep_cell [of _ s1 s2 ?c] by (auto simp: done_at_def)
      show "sim fe P (len es3) s2 (sem_scalararray fe useOr (fn_strict (ce_fmgr ce f)) f coll (fst x) (fst y) (snd y)) (len es') (done_at r ?W s)"
        using sim_yields [of "len es3" P r s2 fe _ ?W s] yields_scalararray [OF v, of r "fst y" fe useOr] d2 cd(3) f(3) fd
        by (simp add: done_at_def)
    qed
  qed (use a(5) in auto)
qed

section \<open>Boolean operators\<close>

text \<open>\<open>AND\<close> and \<open>OR\<close> differ in the value that decides the result.\<close>

definition decides :: "BoolExprType \<Rightarrow> Datum option \<Rightarrow> bool" where
  "decides boolop v = (if boolop = AND_EXPR then isfalse v else istrue v)"

definition sem_junct :: "BoolExprType \<Rightarrow> bool \<Rightarrow> ('w \<Rightarrow> 'w answer) list \<Rightarrow> 'w \<Rightarrow> 'w answer" where
  "sem_junct boolop anynull ms w = (if boolop = AND_EXPR then sem_and anynull ms w else sem_or anynull ms w)"

lemma sem_junct_last:
  "sem_junct boolop anynull [m] w =
     bindE (m w) (\<lambda>(v, w1). Inr (if v \<noteq> None \<and> \<not> decides boolop v \<and> anynull then None else v, w1))"
  by (cases "m w") (auto simp: sem_junct_def decides_def istrue_def isfalse_def split: option.splits)

lemma sem_junct_step:
  "ms \<noteq> [] \<Longrightarrow> sem_junct boolop anynull (m # ms) w =
     bindE (m w) (\<lambda>(v, w1). if decides boolop v then Inr (v, w1) else sem_junct boolop (anynull \<or> v = None) ms w1)"
  by (cases ms; cases "m w") (auto simp: sem_junct_def decides_def)

definition junct_next :: "BoolExprType \<Rightarrow> loc \<Rightarrow> nat \<Rightarrow> loc \<Rightarrow> 'w rstate \<Rightarrow> control \<times> 'w rstate" where
  "junct_next boolop f j r s =
     (let v = nd (cells s r)
      in if decides boolop v then (Goto (int j), s) else (Next, if v = None then set_anynull f True s else s))"

lemma exec_junct:
  assumes "boolop \<noteq> NOT_EXPR" "off + 1 < n"
  shows "exec_bool (bool_step_op boolop off n) f (int j) r s =
    Inr (junct_next boolop f j r (if off = 0 then set_anynull f False s else s))"
  using assms
  by (cases boolop)
    (auto simp: bool_step_op_def junct_next_def Let_def decides_def exec_and_step_def exec_or_step_def
      isfalse_def istrue_def nd_def)

lemma yields_junct_last:
  assumes "boolop \<noteq> NOT_EXPR" "off + 1 = n" "0 < off" "nd (cells s r) = v"
  shows "yields r s (exec_bool (bool_step_op boolop off n) f j r s)
    (Inr (if v \<noteq> None \<and> \<not> decides boolop v \<and> flags s f then None else v, world s))"
  using assms
  by (cases boolop)
    (auto simp: bool_step_op_def decides_def exec_and_last_def exec_or_last_def isfalse_def istrue_def nd_def
      intro!: yields_intros split: if_splits)

lemma init_bool_args_cases:
  assumes "init_bool_args boolop f r off n (t # ts) es = Inr (es', js)"
  obtains es1 es2 js' where "t r es = Inr es1" "es2 = ExprEvalPushStep (SBool (bool_step_op boolop off n) f (- 1) r) es1"
    "init_bool_args boolop f r (Suc off) n ts es2 = Inr (es', js')" "js = len es1 # js'"
  using assms by (auto simp: Let_def)

lemma init_bool_args_ext:
  assumes "list_all2 (correct fe) ts ms" "init_bool_args boolop f r off n ts es = Inr (es', js)" "place r es"
  shows "ext es es' \<and> set js \<subseteq> {len es..<len es'}"
  using assms
proof (induction arbitrary: off es js rule: list_all2_induct)
  case (Cons t ts m ms)
  from Cons(4) obtain es1 es2 js' where e: "t r es = Inr es1"
    "es2 = ExprEvalPushStep (SBool (bool_step_op boolop off n) f (- 1) r) es1"
    "init_bool_args boolop f r (Suc off) n ts es2 = Inr (es', js')" "js = len es1 # js'" by (rule init_bool_args_cases)
  have x1: "ext es es1" by (rule correct_ext [OF Cons(1) e(1) Cons(5)])
  have x2: "ext es es2" unfolding e(2) by (rule ext_trans [OF x1 ext_push])
  have ih: "ext es2 es'" "set js' \<subseteq> {len es2..<len es'}" using Cons(3) [OF e(3) place_ext [OF Cons(5) x2]] by auto
  have "len es \<le> len es1" "len es2 = Suc (len es1)" "len es2 \<le> len es'" using extD(1) [OF x1] extD(1) [OF ih(1)] e(2) by auto
  then show ?case using ext_trans [OF x2 ih(1)] ih(2) e(4) by auto
qed simp

lemma jmap_Cons_None: "i \<noteq> j \<Longrightarrow> i \<notin> set js \<Longrightarrow> jmap (j # js) t i = None"
  by (simp add: jmap_def)

text \<open>
  The code of a list of sub-expressions with an open jump after each: the first sub-expression, its
  jump and the rest.
\<close>

lemma code_open:
  assumes "ext es es1" "es2 = ExprEvalPushStep st es1" "ext es2 es'" "set js \<subseteq> {len es2..<len es'}"
    and "code P es es' (jmap (len es1 # js) t)"
  shows "code P es es1 Map.empty" "len es1 < length P" "P ! len es1 = set_jump (int t) st" "code P es2 es' (jmap js t)"
proof -
  have x: "ext es1 es2" by (simp add: assms(2))
  have c: "code P es es1 (jmap (len es1 # js) t)" "code P es1 es2 (jmap (len es1 # js) t)" "code P es2 es' (jmap (len es1 # js) t)"
    using assms(5) code_trans [OF assms(1) ext_trans [OF x assms(3)]] code_trans [OF x assms(3)] by auto
  have l: "len es2 = Suc (len es1)" "len es2 \<le> len es'" using assms(2) extD(1) [OF assms(3)] by auto
  show "len es1 < length P" "P ! len es1 = set_jump (int t) st" using c(2) assms(2) by (simp_all add: jmap_def)
  show "code P es es1 Map.empty"
    using c(1) by (rule code_cong [THEN iffD1, rotated]) (use assms(4) l in \<open>auto simp: jmap_def\<close>)
  show "code P es2 es' (jmap js t)"
    using c(3) by (rule code_cong [THEN iffD1, rotated]) (use l in \<open>auto simp: jmap_def\<close>)
qed

lemma holds_scope: "place r a \<Longrightarrow> ext a d \<Longrightarrow> holds d s0 \<Longrightarrow> keep (scope r a d) s0 s \<Longrightarrow> holds d s"
  by (rule holds_keep [OF _ _ scope_precells])

lemma sim_done: "done_at r W s0 (v, w) s \<Longrightarrow> sim fe P a s (Inr (v, w)) a (done_at r W s0)"
  by (rule sim_ret)

lemma init_bool_args_correct:
  assumes "list_all2 (correct fe) ts ms" "init_bool_args boolop f r off n ts es = Inr (es', js)" "ts \<noteq> []" "off + length ts = n"
    and op: "boolop \<noteq> NOT_EXPR" "2 \<le> n" and a: "place r a" "f \<in> scope r a d" "f \<noteq> r" "ext es' d" "ext a d" "holds d s0"
    and "ext a es" "f < next_cell es" "code P es es' (jmap js (len es'))" "keep (scope r a d) s0 s"
  shows "sim fe P (len es) s
    (sem_junct boolop (off \<noteq> 0 \<and> flags s f) (map (\<lambda>m. m (rd_of s0) (tv_of fe a s0)) ms) (world s))
    (len es') (done_at r (scope r a d) s0)"
  using assms(1-4,13-)
proof (induction arbitrary: off es js s rule: list_all2_induct)
  case (Cons t ts m ms)
  let ?W = "scope r a d" and ?m = "\<lambda>m. m (rd_of s0) (tv_of fe a s0)"
  from Cons(4) obtain es1 es2 js' where e: "t r es = Inr es1"
    "es2 = ExprEvalPushStep (SBool (bool_step_op boolop off n) f (- 1) r) es1"
    "init_bool_args boolop f r (Suc off) n ts es2 = Inr (es', js')" "js = len es1 # js'" by (rule init_bool_args_cases)
  have pl: "place r es" by (rule place_ext [OF a(1) Cons(7)])
  have x1: "ext es es1" by (rule correct_ext [OF Cons(1) e(1) pl])
  have x2: "ext es es2" unfolding e(2) by (rule ext_trans [OF x1 ext_push])
  have x3: "ext es2 es'" "set js' \<subseteq> {len es2..<len es'}" using init_bool_args_ext [OF Cons(2) e(3) place_ext [OF pl x2]] by auto
  note c = code_open [OF x1 e(2) x3 Cons(9) [unfolded e(4)]]
  have x1d: "ext es1 d" using ext_trans [OF x3(1) a(4)] e(2) by (blast intro: ext_trans)
  have l: "len es2 = Suc (len es1)" by (simp add: e(2))
  have st: "P ! len es1 = SBool (bool_step_op boolop off n) f (int (len es')) r" using c(3) by (simp add: set_jump_def)
  have nf: "f \<notin> scope r es es1" using Cons(8) a(3) by (simp add: scope_def)
  note first = correct_part_keep [OF Cons(1) e(1) pl Cons(7) x1d scope_self a(1) c(1) refl holds_scope [OF a(1,5,6) Cons(10)] Cons(10)]
  show ?case
  proof (cases "ts = []")
    case True
    then have n: "off + 1 = n" "0 < off" "es' = es2" "ms = []" using Cons(2,6) op(2) e(3) by auto
    show ?thesis unfolding n(4) list.map sem_junct_last
    proof (rule sim_bind [OF first])
      fix x s1 assume d: "done_at r ?W s0 x s1 \<and> keep (scope r es es1) s s1"
      have fl: "flags s1 f = flags s f" using d nf keep_flag by blast
      show "sim fe P (len es1) s1 (case x of (v, w1) \<Rightarrow> Inr (if v \<noteq> None \<and> \<not> decides boolop v \<and> off \<noteq> 0 \<and> flags s f then None else v, w1))
          (len es') (done_at r ?W s0)"
        using sim_yields [OF c(2), of r s1 fe _ ?W s0] yields_junct_last [OF op(1) n(1,2), of s1 r "fst x" f] d st fl n(2,3) l
        by (simp add: done_at_def case_prod_beta')
    qed
  next
    case False
    then have n: "off + 1 < n" "map ?m ms \<noteq> []" using Cons(2,6) by (auto dest: list_all2_lengthD)
    show ?thesis unfolding list.map sem_junct_step [OF n(2)]
    proof (rule sim_bind [OF first])
      fix x s1 assume d: "done_at r ?W s0 x s1 \<and> keep (scope r es es1) s s1"
      let ?s = "if off = 0 then set_anynull f False s1 else s1"
      have fl: "flags ?s f = (off \<noteq> 0 \<and> flags s f)" using d nf keep_flag [of "scope r es es1" s s1 f] by auto
      have k: "keep ?W s0 ?s" "world ?s = snd x" "nd (cells ?s r) = fst x" using d a(2) by (auto simp: done_at_def)
      have ex: "exec_step fe (P ! len es1) s1 = Inr (junct_next boolop f (len es') r ?s)" unfolding st exec_step.simps by (rule exec_junct [OF op(1) n(1)])
      show "sim fe P (len es1) s1 (case x of (v, w1) \<Rightarrow> if decides boolop v then Inr (v, w1)
          else sem_junct boolop ((off \<noteq> 0 \<and> flags s f) \<or> v = None) (map ?m ms) w1) (len es') (done_at r ?W s0)"
      proof (cases "decides boolop (fst x)")
        case True
        then show ?thesis using sim_goto [OF c(2), of fe s1 "len es'" ?s] sim_done [of r ?W s0 "fst x" "snd x" ?s fe P "len es'"] ex k
          by (simp add: junct_next_def done_at_def case_prod_beta')
      next
        case False
        let ?s2 = "if fst x = None then set_anynull f True ?s else ?s"
        have k2: "keep ?W s0 ?s2" "world ?s2 = snd x" "flags ?s2 f = ((off \<noteq> 0 \<and> flags s f) \<or> fst x = None)" using k a(2) fl by auto
        have ex2: "exec_step fe (P ! len es1) s1 = Inr (Next, ?s2)" using ex False k(3) by (simp add: junct_next_def)
        have "sim fe P (len es2) ?s2 (sem_junct boolop (Suc off \<noteq> 0 \<and> flags ?s2 f) (map ?m ms) (world ?s2)) (len es') (done_at r ?W s0)"
          by (rule Cons(3) [OF e(3) \<open>ts \<noteq> []\<close> _ ext_trans [OF Cons(7) x2] _ c(4) k2(1)]) (use Cons(6,8) extD(2) [OF x2] in simp_all)
        then show ?thesis using sim_next [OF c(2) ex2] False k2 l by (simp add: case_prod_beta')
      qed
    qed
  qed
qed simp

lemma adjust_scope [simp]:
  "scope r es (adjust_jumps js es') = scope r es es'" "holds (adjust_jumps js es') s = holds es' s"
  by (simp_all add: scope_def precells_def holds_def)

lemma code_adjust_all: "code P a (adjust_jumps js es) Map.empty \<longleftrightarrow> code P a es (jmap js (len es))"
  unfolding code_adjust by (rule code_cong) simp

lemma correct_junct:
  assumes ts: "list_all2 (correct fe) ts ms" and n: "2 \<le> length ts" and op: "boolop \<noteq> NOT_EXPR"
  shows "correct fe (init_bool boolop ts) (\<lambda>rd tv. sem_junct boolop False (map (\<lambda>m. m rd tv) ms))"
proof (rule correctI)
  fix r es es' assume t: "init_bool boolop ts r es = Inr es'" and pl: "place r es"
  obtain f es1 where al: "palloc_cells (Suc 0) es = (f, es1)" by (cases "palloc_cells (Suc 0) es")
  obtain es2 js where e: "init_bool_args boolop f r 0 (length ts) ts es1 = Inr (es2, js)" "es' = adjust_jumps js es2"
    using t op al by (auto simp: init_bool_def)
  have x: "ext es es1" by (rule ext_palloc [OF al])
  have g: "ext es1 es2" "set js \<subseteq> {len es1..<len es2}" using init_bool_args_ext [OF ts e(1) place_ext [OF pl x]] by auto
  show "ext es es'" unfolding e(2) by (rule ext_adjust [OF ext_trans [OF x g(1)]]) (use g(2) extD(1) [OF x] in auto)
next
  fix r es es' P and s :: "'a rstate"
  assume t: "init_bool boolop ts r es = Inr es'" and pl: "place r es" and x0: "ext es es'" and c: "code P es es' Map.empty" and h: "holds es' s"
  obtain f es1 where al: "palloc_cells (Suc 0) es = (f, es1)" by (cases "palloc_cells (Suc 0) es")
  obtain es2 js where e: "init_bool_args boolop f r 0 (length ts) ts es1 = Inr (es2, js)" "es' = adjust_jumps js es2"
    using t op al by (auto simp: init_bool_def)
  have x: "ext es es1" by (rule ext_palloc [OF al])
  have g: "ext es1 es2" "set js \<subseteq> {len es1..<len es2}" using init_bool_args_ext [OF ts e(1) place_ext [OF pl x]] by auto
  have f: "f \<in> scope r es es2" "f \<noteq> r" "f < next_cell es1" using alloc_one [OF pl al g(1)] by auto
  have l: "len es1 = len es" using palloc_simps [OF al] by simp
  have c1: "code P es1 es2 (jmap js (len es2))" using c palloc_simps [OF al] code_same [of es es1 es2 es2 P] unfolding e(2) code_adjust_all by simp
  have "ts \<noteq> []" using n by auto
  from init_bool_args_correct [OF ts e(1) this _ op n pl f(1,2) ext_refl ext_trans [OF x g(1)] _ x f(3) c1 keep_refl] h l
  show "sim fe P (len es) s (sem_junct boolop False (map (\<lambda>m. m (rd_of s) (tv_of fe es s)) ms) (world s)) (len es') (done_at r (scope r es es') s)"
    by (simp add: e(2))
qed

lemma yields_not: "nd (cells s r) = v \<Longrightarrow> yields r s (exec_not_step r s) (Inr (sem_not v, world s))"
  by (auto simp: exec_not_step_def sem_not_def nd_def intro!: yields_intros split: if_splits)

lemma adjust_push: "adjust_jumps [len es] (ExprEvalPushStep x es) = ExprEvalPushStep (set_jump (int (Suc (len es))) x) es"
  by (simp add: adjust_jumps_def ExprEvalPushStep_def Let_def)

lemma init_bool_not:
  "init_bool NOT_EXPR [t] = init_unary (\<lambda>r es. ExprEvalPushStep (SBool NOT_STEP 0 (int (Suc (len es))) r) es) t"
  by (auto simp: init_bool_def init_unary_def bool_step_op_def fun_eq_iff bindE_assoc adjust_push set_jump_def)

lemma correct_init_bool:
  assumes "list_all2 (correct fe) ts ms" "if boolop = NOT_EXPR then length ts = 1 else 2 \<le> length ts"
  shows "correct fe (init_bool boolop ts) (\<lambda>rd tv. sem_bool boolop (map (\<lambda>m. m rd tv) ms))"
proof (cases "boolop = NOT_EXPR")
  case False
  then have "sem_bool boolop ms' = sem_junct boolop False ms'" for ms' :: "('a \<Rightarrow> 'a answer) list"
    by (cases boolop) (auto simp: sem_bool_def sem_junct_def)
  then show ?thesis using correct_junct [OF assms(1) _ False] assms(2) False by simp
next
  case True
  then obtain t m where t: "ts = [t]" "ms = [m]" "correct fe t m" using assms by (cases ts) (auto simp: list_all2_Cons1)
  have "correct fe (init_bool NOT_EXPR [t]) (\<lambda>rd tv w. bindE (m rd tv w) (\<lambda>(v, w1). Inr (sem_not v, w1)))"
    unfolding init_bool_not by (rule correct_unary [OF t(3) refl]) (simp add: yields_not)
  moreover have "(\<lambda>rd tv w. bindE (m rd tv w) (\<lambda>(v, w1). Inr (sem_not v, w1))) = (\<lambda>rd tv. sem_bool NOT_EXPR [m rd tv])"
    by (simp add: sem_bool_def fun_eq_iff)
  ultimately show ?thesis using t True by simp
qed

section \<open>\<open>COALESCE\<close>\<close>

lemma init_coalesce_cases:
  assumes "init_coalesce r (t # ts) es = Inr (es', js)"
  obtains es1 es2 js' where "t r es = Inr es1" "es2 = ExprEvalPushStep (SJump JUMP_IF_NOT_NULL (- 1) r) es1"
    "init_coalesce r ts es2 = Inr (es', js')" "js = len es1 # js'"
  using assms by (auto simp: Let_def)

lemma init_coalesce_ext:
  assumes "list_all2 (correct fe) ts ms" "init_coalesce r ts es = Inr (es', js)" "place r es"
  shows "ext es es' \<and> set js \<subseteq> {len es..<len es'}"
  using assms
proof (induction arbitrary: es js rule: list_all2_induct)
  case (Cons t ts m ms)
  from Cons(4) obtain es1 es2 js' where e: "t r es = Inr es1" "es2 = ExprEvalPushStep (SJump JUMP_IF_NOT_NULL (- 1) r) es1"
    "init_coalesce r ts es2 = Inr (es', js')" "js = len es1 # js'" by (rule init_coalesce_cases)
  have x1: "ext es es1" by (rule correct_ext [OF Cons(1) e(1) Cons(5)])
  have x2: "ext es es2" unfolding e(2) by (rule ext_trans [OF x1 ext_push])
  have ih: "ext es2 es'" "set js' \<subseteq> {len es2..<len es'}" using Cons(3) [OF e(3) place_ext [OF Cons(5) x2]] by auto
  have "len es \<le> len es1" "len es2 = Suc (len es1)" "len es2 \<le> len es'" using extD(1) [OF x1] extD(1) [OF ih(1)] e(2) by auto
  then show ?case using ext_trans [OF x2 ih(1)] ih(2) e(4) by auto
qed simp

lemma init_coalesce_correct:
  assumes "list_all2 (correct fe) ts ms" "init_coalesce r ts es = Inr (es', js)" "ts \<noteq> [] \<or> nd (cells s r) = None"
    and a: "place r a" "ext es' d" "ext a d" "holds d s0"
    and "ext a es" "code P es es' (jmap js (len es'))" "keep (scope r a d) s0 s"
  shows "sim fe P (len es) s (sem_coalesce (map (\<lambda>m. m (rd_of s0) (tv_of fe a s0)) ms) (world s)) (len es') (done_at r (scope r a d) s0)"
  using assms(1-3,8-)
proof (induction arbitrary: es js s rule: list_all2_induct)
  case Nil then show ?case by (auto intro!: sim_ret simp: done_at_def)
next
  case (Cons t ts m ms)
  let ?W = "scope r a d" and ?m = "\<lambda>m. m (rd_of s0) (tv_of fe a s0)"
  from Cons(4) obtain es1 es2 js' where e: "t r es = Inr es1" "es2 = ExprEvalPushStep (SJump JUMP_IF_NOT_NULL (- 1) r) es1"
    "init_coalesce r ts es2 = Inr (es', js')" "js = len es1 # js'" by (rule init_coalesce_cases)
  have pl: "place r es" by (rule place_ext [OF a(1) Cons(6)])
  have x1: "ext es es1" by (rule correct_ext [OF Cons(1) e(1) pl])
  have x2: "ext es es2" unfolding e(2) by (rule ext_trans [OF x1 ext_push])
  have x3: "ext es2 es'" "set js' \<subseteq> {len es2..<len es'}" using init_coalesce_ext [OF Cons(2) e(3) place_ext [OF pl x2]] by auto
  note c = code_open [OF x1 e(2) x3 Cons(7) [unfolded e(4)]]
  have x1d: "ext es1 d" using ext_trans [OF x3(1) a(2)] e(2) by (blast intro: ext_trans)
  have l: "len es2 = Suc (len es1)" by (simp add: e(2))
  have st: "P ! len es1 = SJump JUMP_IF_NOT_NULL (int (len es')) r" using c(3) by (simp add: set_jump_def)
  show ?case unfolding list.map sem_coalesce.simps
  proof (rule sim_bind [OF correct_part [OF Cons(1) e(1) pl Cons(6) x1d scope_self a(1) c(1) refl holds_scope [OF a(1,3,4) Cons(8)] Cons(8)]])
    fix x s1 assume d: "done_at r ?W s0 x s1"
    then have k: "keep ?W s0 s1" "world s1 = snd x" "nd (cells s1 r) = fst x" by (auto simp: done_at_def)
    show "sim fe P (len es1) s1 (case x of (v, w1) \<Rightarrow> if v = None then sem_coalesce (map ?m ms) w1 else Inr (v, w1)) (len es') (done_at r ?W s0)"
    proof (cases "fst x")
      case None
      then have "exec_step fe (P ! len es1) s1 = Inr (Next, s1)" using st k(3) by (simp add: nd_None_iff)
      then show ?thesis
        using sim_next [OF c(2)] Cons(3) [OF e(3) _ ext_trans [OF Cons(6) x2] c(4) k(1)] None k l by (simp add: case_prod_beta')
    next
      case (Some v)
      then have ex: "exec_step fe (P ! len es1) s1 = Inr (Goto (int (len es')), s1)" using st k(3) by (simp add: nd_Some_iff)
      from sim_goto [OF c(2) ex sim_ret [of "done_at r ?W s0", OF d]] show ?thesis using Some by (cases x) simp
    qed
  qed
qed

lemma correct_init_coalesce:
  assumes ts: "list_all2 (correct fe) ts ms" "ts \<noteq> []"
  shows "correct fe (init_coalesce_expr ts) (\<lambda>rd tv. sem_coalesce (map (\<lambda>m. m rd tv) ms))"
proof (rule correctI)
  fix r es es' assume "init_coalesce_expr ts r es = Inr es'" and pl: "place r es"
  then obtain es1 js where e: "init_coalesce r ts es = Inr (es1, js)" "es' = adjust_jumps js es1" by (auto simp: init_coalesce_expr_def)
  show "ext es es'" using init_coalesce_ext [OF ts(1) e(1) pl] unfolding e(2) by (auto intro!: ext_adjust)
next
  fix r es es' P and s :: "'a rstate"
  assume "init_coalesce_expr ts r es = Inr es'" and pl: "place r es" and c: "code P es es' Map.empty" and h: "holds es' s"
  then obtain es1 js where e: "init_coalesce r ts es = Inr (es1, js)" "es' = adjust_jumps js es1" by (auto simp: init_coalesce_expr_def)
  have x: "ext es es1" using init_coalesce_ext [OF ts(1) e(1) pl] by simp
  from init_coalesce_correct [OF ts(1) e(1) disjI1 [OF ts(2)] pl ext_refl x _ ext_refl c [unfolded e(2) code_adjust_all] keep_refl] h
  show "sim fe P (len es) s (sem_coalesce (map (\<lambda>m. m (rd_of s) (tv_of fe es s)) ms) (world s)) (len es') (done_at r (scope r es es') s)"
    by (simp add: e(2))
qed

section \<open>\<open>CASE\<close>\<close>

definition when_ok :: "'w fenv \<Rightarrow> translation \<times> translation \<Rightarrow> 'w meaning \<times> 'w meaning \<Rightarrow> bool" where
  "when_ok fe t m \<longleftrightarrow> correct fe (fst t) (fst m) \<and> correct fe (snd t) (snd m)"

lemma init_whens_cases:
  assumes "init_whens caseval r ((e, t) # whens) es = Inr (es', js)"
  obtains es1 es2 es3 es4 js' where "e r (es\<lparr>innermost_caseval := caseval\<rparr>) = Inr es1"
    "es2 = ExprEvalPushStep (SJump JUMP_IF_NOT_TRUE (- 1) r) (es1\<lparr>innermost_caseval := innermost_caseval es\<rparr>)"
    "t r es2 = Inr es3" "es4 = ExprEvalPushStep (SJump JUMP (- 1) r) es3"
    "init_whens caseval r whens (adjust_jumps [len es1] es4) = Inr (es', js')" "js = len es3 # js'"
  using assms by (auto simp: Let_def)

text \<open>The parts of one \<open>WHEN\<close>: the test, its jump, the result, its jump.\<close>

lemma when_ext:
  assumes "when_ok fe (e, t) m" "place r es" "place r (es\<lparr>innermost_caseval := caseval\<rparr>)"
    "e r (es\<lparr>innermost_caseval := caseval\<rparr>) = Inr es1"
    "es2 = ExprEvalPushStep (SJump JUMP_IF_NOT_TRUE (- 1) r) (es1\<lparr>innermost_caseval := innermost_caseval es\<rparr>)"
    "t r es2 = Inr es3" "es4 = ExprEvalPushStep (SJump JUMP (- 1) r) es3"
  shows "ext es (es1\<lparr>innermost_caseval := innermost_caseval es\<rparr>)" "ext (es1\<lparr>innermost_caseval := innermost_caseval es\<rparr>) es2"
    "ext es2 es3" "ext es3 es4" "ext es es2" "ext es es4" "ext es (adjust_jumps [len es1] es4)"
proof -
  have ok: "correct fe e (fst m)" "correct fe t (snd m)" using assms(1) by (simp_all add: when_ok_def)
  show x1: "ext es (es1\<lparr>innermost_caseval := innermost_caseval es\<rparr>)"
    by (rule ext_caseval [OF correct_ext [OF ok(1) assms(4,3)]])
  show x2: "ext (es1\<lparr>innermost_caseval := innermost_caseval es\<rparr>) es2" by (simp add: assms(5))
  show x12: "ext es es2" by (rule ext_trans [OF x1 x2])
  show x3: "ext es2 es3" by (rule correct_ext [OF ok(2) assms(6) place_ext [OF assms(2) x12]])
  show x4: "ext es3 es4" by (simp add: assms(7))
  show x: "ext es es4" by (rule ext_trans [OF x12 ext_trans [OF x3 x4]])
  show "ext es (adjust_jumps [len es1] es4)" by (rule ext_adjust [OF x]) (use extD(1) [OF x1] in simp)
qed

lemma when_code:
  assumes x: "ext es (es1\<lparr>innermost_caseval := c0\<rparr>)" "ext (es1\<lparr>innermost_caseval := c0\<rparr>) es2" "ext es2 es3" "ext es3 es4"
    and e: "es2 = ExprEvalPushStep st (es1\<lparr>innermost_caseval := c0\<rparr>)" "es4 = ExprEvalPushStep st' es3"
    and i: "ext (adjust_jumps [len es1] es4) es'" "ext es (adjust_jumps [len es1] es4)" "set js \<subseteq> {len es4..<len es'}"
    and "code P es es' (jmap (len es3 # js) T)"
  shows "code P (es\<lparr>innermost_caseval := caseval\<rparr>) es1 Map.empty" "len es1 < length P" "P ! len es1 = set_jump (int (len es4)) st"
    "code P es2 es3 Map.empty" "len es3 < length P" "P ! len es3 = set_jump (int T) st'"
    "code P (adjust_jumps [len es1] es4) es' (jmap js T)"
proof -
  let ?es1 = "es1\<lparr>innermost_caseval := c0\<rparr>" and ?f = "jmap (len es3 # js) T"
  let ?g = "\<lambda>i. if ?f i = None then jmap [len es1] (len es4) i else ?f i"
  have l: "len es2 = Suc (len es1)" "len es4 = Suc (len es3)" "len es2 \<le> len es3" using e extD(1) [OF x(3)] by auto
  have "code P es (adjust_jumps [len es1] es4) ?f" and r: "code P (adjust_jumps [len es1] es4) es' ?f"
    using assms(10) code_trans [OF i(2,1)] by auto
  then have "code P es es4 ?g" unfolding code_adjust by simp
  then have c: "code P es ?es1 ?g" "code P ?es1 es2 ?g" "code P es2 es3 ?g" "code P es3 es4 ?g"
    using code_trans [OF x(1) ext_trans [OF x(2) ext_trans [OF x(3,4)]]] code_trans [OF x(2) ext_trans [OF x(3,4)]] code_trans [OF x(3,4)] by auto
  have js: "i \<in> set js \<Longrightarrow> len es4 \<le> i" for i using i(3) by auto
  have "code P es ?es1 Map.empty"
    using c(1) by (rule code_cong [THEN iffD1, rotated]) (use js l in \<open>fastforce simp: jmap_def\<close>)
  then show "code P (es\<lparr>innermost_caseval := caseval\<rparr>) es1 Map.empty" by (simp add: code_def)
  show "code P es2 es3 Map.empty"
    using c(3) by (rule code_cong [THEN iffD1, rotated]) (use js l in \<open>fastforce simp: jmap_def\<close>)
  show "len es1 < length P" "P ! len es1 = set_jump (int (len es4)) st"
    using c(2) e(1) js [of "len es1"] l by (auto simp: jmap_def)
  show "len es3 < length P" "P ! len es3 = set_jump (int T) st'" using c(4) e(2) by (auto simp: jmap_def)
  show "code P (adjust_jumps [len es1] es4) es' (jmap js T)"
    using r by (rule code_cong [THEN iffD1, rotated]) (use l in \<open>auto simp: jmap_def\<close>)
qed

lemma istrue_nd: "istrue (nd p) \<longleftrightarrow> \<not> snd p \<and> DatumGetBool (fst p)"
  by (simp add: istrue_def nd_def)

lemma sim_then_goto:
  assumes "sim fe P a s R b Q" "b < length P" "\<And>s. exec_step fe (P ! b) s = Inr (Goto (int c), s)"
  shows "sim fe P a s R c Q"
  using assms(1) run_step(3) [OF assms(2,3)] by (auto simp: sim_def split: sum.splits)

lemma steps_caseval: "steps (es\<lparr>innermost_caseval := c\<rparr>) = steps es"
  by simp

lemma init_whens_ext:
  assumes "list_all2 (when_ok fe) whens ms" "init_whens caseval r whens es = Inr (es', js)" "place r es"
    "place r (es\<lparr>innermost_caseval := caseval\<rparr>)"
  shows "ext es es' \<and> set js \<subseteq> {len es..<len es'}"
  using assms
proof (induction arbitrary: es js rule: list_all2_induct)
  case (Cons w whens m ms)
  obtain e t where w: "w = (e, t)" by (cases w)
  from Cons(4) [unfolded w] obtain es1 es2 es3 es4 js' where e: "e r (es\<lparr>innermost_caseval := caseval\<rparr>) = Inr es1"
    "es2 = ExprEvalPushStep (SJump JUMP_IF_NOT_TRUE (- 1) r) (es1\<lparr>innermost_caseval := innermost_caseval es\<rparr>)"
    "t r es2 = Inr es3" "es4 = ExprEvalPushStep (SJump JUMP (- 1) r) es3"
    "init_whens caseval r whens (adjust_jumps [len es1] es4) = Inr (es', js')" "js = len es3 # js'" by (rule init_whens_cases)
  note x = when_ext [OF Cons(1) [unfolded w] Cons(5,6) e(1-4)]
  let ?es5 = "adjust_jumps [len es1] es4"
  have "place r (?es5\<lparr>innermost_caseval := caseval\<rparr>)"
    using place_ext [OF Cons(5) x(7)] extD(2) [OF x(7)] Cons(6) by (auto simp: place_def precells_def)
  then have ih: "ext ?es5 es'" "set js' \<subseteq> {len ?es5..<len es'}" using Cons(3) [OF e(5) place_ext [OF Cons(5) x(7)]] by auto
  have "len es \<le> len es3" "len ?es5 = Suc (len es3)" "len ?es5 \<le> len es'"
    using extD(1) [OF x(5)] extD(1) [OF x(3)] extD(1) [OF ih(1)] e(4) by auto
  then show ?case using ext_trans [OF x(7) ih(1)] ih(2) e(6) by auto
qed simp

definition caseval_is :: "'w fenv \<Rightarrow> loc option \<Rightarrow> 'w rstate \<Rightarrow> Datum option \<Rightarrow> bool" where
  "caseval_is fe caseval s cv \<longleftrightarrow> cv = (case caseval of Some c \<Rightarrow> nd (cells s c) | None \<Rightarrow> nd (fe_caseValue fe))"

lemma caseval_keep:
  "caseval_is fe caseval s cv \<Longrightarrow> place r (es\<lparr>innermost_caseval := caseval\<rparr>) \<Longrightarrow> keep (scope r es es1) s s1 \<Longrightarrow>
   caseval_is fe caseval s1 cv"
  by (auto simp: caseval_is_def place_def scope_def keep_def split: option.splits)

text \<open>If no \<open>WHEN\<close> applies, the run goes on after them; \<open>d\<close> is the meaning of what follows.\<close>

lemma init_whens_correct:
  assumes "list_all2 (when_ok fe) whens ms" "init_whens caseval r whens es = Inr (es', js)"
    and a: "place r a" "ext es' d" "ext a d" "holds d s0"
    and k: "\<And>s. keep (scope r a d) s0 s \<Longrightarrow> sim fe P (len es') s (df (world s)) T (done_at r (scope r a d) s0)"
    and "ext a es" "place r (es\<lparr>innermost_caseval := caseval\<rparr>)" "code P es es' (jmap js T)"
      "keep (scope r a d) s0 s" "caseval_is fe caseval s cv"
  shows "sim fe P (len es) s
    (sem_whens (map (\<lambda>(c, m). (c (rd_of s0) (cv, snd (tv_of fe a s0)), m (rd_of s0) (tv_of fe a s0))) ms) df (world s))
    T (done_at r (scope r a d) s0)"
  using assms(1,2,8-)
proof (induction arbitrary: es js s rule: list_all2_induct)
  case Nil then show ?case using k by simp
next
  case (Cons w whens m ms)
  let ?W = "scope r a d" and ?tv = "tv_of fe a s0" and ?rd = "rd_of s0"
  obtain e t where w: "w = (e, t)" by (cases w)
  obtain me mt where m: "m = (me, mt)" by (cases m)
  from Cons(4) [unfolded w] obtain es1 es2 es3 es4 js' where e: "e r (es\<lparr>innermost_caseval := caseval\<rparr>) = Inr es1"
    "es2 = ExprEvalPushStep (SJump JUMP_IF_NOT_TRUE (- 1) r) (es1\<lparr>innermost_caseval := innermost_caseval es\<rparr>)"
    "t r es2 = Inr es3" "es4 = ExprEvalPushStep (SJump JUMP (- 1) r) es3"
    "init_whens caseval r whens (adjust_jumps [len es1] es4) = Inr (es', js')" "js = len es3 # js'" by (rule init_whens_cases)
  let ?es1 = "es1\<lparr>innermost_caseval := innermost_caseval es\<rparr>" and ?es5 = "adjust_jumps [len es1] es4"
  have ok: "correct fe e me" "correct fe t mt" using Cons(1) w m by (auto simp: when_ok_def)
  have pl: "place r es" by (rule place_ext [OF a(1) Cons(5)])
  note x = when_ext [OF Cons(1) [unfolded w] pl Cons(6) e(1-4)]
  have pl5: "place r (?es5\<lparr>innermost_caseval := caseval\<rparr>)"
    using place_ext [OF pl x(7)] extD(2) [OF x(7)] Cons(6) by (auto simp: place_def precells_def)
  have x5: "ext ?es5 es'" "set js' \<subseteq> {len es4..<len es'}"
    using init_whens_ext [OF Cons(2) e(5) place_ext [OF pl x(7)] pl5] by auto
  note c = when_code [OF x(1-4) e(2,4) x5(1) x(7) x5(2) Cons(7) [unfolded e(6)]]
  have x5d: "ext ?es5 d" by (rule ext_trans [OF x5(1) a(2)])
  have x3d: "cext es3 d" using ext_cext [OF ext_trans [OF x(4) ext_refl]] ext_cext [OF x5d] e(4) by (simp add: cext_def)
  have x1d: "cext es1 d" using x3d ext_cext [OF ext_trans [OF x(2,3)]] cext_trans [of ?es1 es3 d] by (simp add: cext_def)
  have hold: "keep ?W s0 s' \<Longrightarrow> holds d s'" for s' by (rule holds_scope [OF a(1,3,4)])
  have tv: "tv_of fe (es\<lparr>innermost_caseval := caseval\<rparr>) s = (cv, snd ?tv)"
    using tv_keep [OF Cons(8) a(1), of fe] tv_ext [OF Cons(5), of fe s] Cons(9) by (simp add: tv_of_def caseval_is_def)
  have xa: "cext a (es\<lparr>innermost_caseval := caseval\<rparr>)" using ext_cext [OF Cons(5)] by (simp add: cext_def)
  show ?case unfolding list.map m prod.case sem_whens.simps
  proof (rule sim_bind [OF correct_within [OF ok(1) e(1) Cons(6) xa x1d scope_self c(1) refl hold [OF Cons(8)] Cons(8), unfolded tv steps_caseval]])
    fix y s1 assume d: "done_at r ?W s0 y s1 \<and> keep (scope r (es\<lparr>innermost_caseval := caseval\<rparr>) es1) s s1"
    then have k1: "keep ?W s0 s1" "world s1 = snd y" "nd (cells s1 r) = fst y" by (auto simp: done_at_def)
    have cv: "caseval_is fe caseval s1 cv" using caseval_keep [OF Cons(9,6), of es1 s1] d by (simp add: scope_def)
    show "sim fe P (len es1) s1 (case y of (v, w1) \<Rightarrow> if istrue v then mt ?rd ?tv w1
        else sem_whens (map (\<lambda>(c, m). (c ?rd (cv, snd ?tv), m ?rd ?tv)) ms) df w1) T (done_at r ?W s0)"
    proof (cases "istrue (fst y)")
      case True
      then have ex: "exec_step fe (P ! len es1) s1 = Inr (Next, s1)" using c(3) by (simp add: set_jump_def istrue_nd k1(3) [symmetric])
      have "sim fe P (len es2) s1 (mt ?rd ?tv (world s1)) (len es3) (done_at r ?W s0)"
        using correct_within [OF ok(2) e(3) place_ext [OF pl x(5)] ext_cext [OF ext_trans [OF Cons(5) x(5)]] x3d scope_self c(4) refl hold [OF k1(1)] k1(1)]
          tv_ext [OF ext_trans [OF Cons(5) x(5)], of fe s1] tv_keep [OF k1(1) a(1), of fe] by (auto elim: sim_conseq)
      then have "sim fe P (len es2) s1 (mt ?rd ?tv (world s1)) T (done_at r ?W s0)"
        by (rule sim_then_goto [OF _ c(5)]) (simp add: c(6) set_jump_def)
      then show ?thesis using sim_next [OF c(2) ex] True k1(2) e(2) by (simp add: case_prod_beta')
    next
      case False
      then have ex: "exec_step fe (P ! len es1) s1 = Inr (Goto (int (len ?es5)), s1)"
        using c(3) by (simp add: set_jump_def istrue_nd k1(3) [symmetric])
      have "sim fe P (len ?es5) s1 (sem_whens (map (\<lambda>(c, m). (c ?rd (cv, snd ?tv), m ?rd ?tv)) ms) df (world s1)) T (done_at r ?W s0)"
        by (rule Cons(3) [OF e(5) ext_trans [OF Cons(5) x(7)] pl5 c(7) k1(1) cv])
      then show ?thesis using sim_goto [OF c(2) ex] False k1(2) by (simp add: case_prod_beta')
    qed
  qed
qed

lemma init_case_arg_cases:
  assumes "init_case_arg (Some (varlena, t)) es = Inr (cv, es')"
  obtains c es1 es2 where "palloc_cells (Suc 0) es = (c, es1)" "t c es1 = Inr es2" "cv = Some c"
    "es' = (if varlena then ExprEvalPushStep (SMakeReadonly c c) es2 else es2)"
  using assms by (cases "palloc_cells (Suc 0) es") (auto simp: init_case_arg_def)

definition case_arg_ok :: "'w fenv \<Rightarrow> (bool \<times> translation) option \<Rightarrow> (bool \<times> 'w meaning) option \<Rightarrow> bool" where
  "case_arg_ok fe arg m \<longleftrightarrow> rel_option (\<lambda>(b, t) (b', m). b = b' \<and> correct fe t m) arg m"

lemma init_case_arg_ext:
  assumes "case_arg_ok fe arg m" "init_case_arg arg es = Inr (cv, es')" "place r es"
  shows "ext es es'" "place r (es'\<lparr>innermost_caseval := cv\<rparr>)"
proof -
  have "ext es es' \<and> (\<forall>c. cv = Some c \<longrightarrow> c < next_cell es' \<and> c \<noteq> r)"
  proof (cases arg)
    case None then show ?thesis using assms(2) by (simp add: init_case_arg_def)
  next
    case (Some bt)
    then obtain b t m' where t: "arg = Some (b, t)" "correct fe t m'" using assms(1) by (cases bt) (auto simp: case_arg_ok_def option_rel_Some1)
    from assms(2) [unfolded t(1)] obtain c es1 es2 where e: "palloc_cells (Suc 0) es = (c, es1)" "t c es1 = Inr es2" "cv = Some c"
      "es' = (if b then ExprEvalPushStep (SMakeReadonly c c) es2 else es2)" by (rule init_case_arg_cases)
    note al = alloc_one [OF assms(3) e(1) ext_refl]
    have x: "ext es1 es2" by (rule correct_ext [OF t(2) e(2) al(1)])
    then have "ext es1 es'" using e(4) by (auto intro: ext_trans)
    then show ?thesis using ext_trans [OF ext_palloc [OF e(1)]] al e(3) extD(2) [of es1 es'] by auto
  qed
  then show "ext es es'" "place r (es'\<lparr>innermost_caseval := cv\<rparr>)"
    using place_ext [OF assms(3), of es'] by (auto simp: place_def precells_def)
qed

definition sem_case_arg :: "'w fenv \<Rightarrow> (bool \<times> 'w meaning) option \<Rightarrow> 'w meaning" where
  "sem_case_arg fe arg rd tv w =
     (case arg of
        None \<Rightarrow> Inr (nd (fe_caseValue fe), w)
      | Some (varlena, m) \<Rightarrow> bindE (m rd tv w) (\<lambda>(v, w1). Inr (make_ro_opt fe varlena v, w1)))"

lemma exec_make_readonly_same:
  "exec_make_readonly fe c c s = Inr (Next, set_res c (if snd (cells s c) then cells s c else (fe_make_ro fe (fst (cells s c)), False)) s)"
  by (cases "cells s c") (simp add: exec_make_readonly_def next_with_def)

lemma init_case_arg_correct:
  assumes "case_arg_ok fe arg m" "init_case_arg arg es = Inr (cv, es')" "place r es" "ext es' d"
    "code P es es' f" "\<And>i. len es \<le> i \<Longrightarrow> i < len es' \<Longrightarrow> f i = None" "holds d s"
  shows "sim fe P (len es) s (sem_case_arg fe m (rd_of s) (tv_of fe es s) (world s)) (len es')
    (\<lambda>x s'. caseval_is fe cv s' (fst x) \<and> world s' = snd x \<and> keep (scope r es d) s s')"
proof (cases arg)
  case None
  then show ?thesis using assms(1,2)
    by (auto simp: case_arg_ok_def init_case_arg_def sem_case_arg_def caseval_is_def intro!: sim_ret)
next
  case (Some bt)
  then obtain b t m' where t: "arg = Some (b, t)" "m = Some (b, m')" "correct fe t m'"
    using assms(1) by (cases bt) (auto simp: case_arg_ok_def option_rel_Some1)
  from assms(2) [unfolded t(1)] obtain c es1 es2 where e: "palloc_cells (Suc 0) es = (c, es1)" "t c es1 = Inr es2" "cv = Some c"
    "es' = (if b then ExprEvalPushStep (SMakeReadonly c c) es2 else es2)" by (rule init_case_arg_cases)
  have x1: "ext es es1" by (rule ext_palloc [OF e(1)])
  have x2: "ext es1 es2" by (rule correct_ext [OF t(3) e(2) alloc_one(1) [OF assms(3) e(1) ext_refl]])
  have x3: "ext es2 es'" using e(4) by simp
  have x3d: "ext es2 d" by (rule ext_trans [OF x3 assms(4)])
  note al = alloc_one [OF assms(3) e(1) ext_trans [OF x2 x3d]]
  have cd: "code P es1 es2 f" "code P es2 es' f" using assms(5) code_trans [OF x1 ext_trans [OF x2 x3]] code_trans [OF x2 x3] by auto
  have l: "len es1 = len es" using palloc_simps [OF e(1)] by simp
  have fn: "\<And>i. len es1 \<le> i \<Longrightarrow> i < len es2 \<Longrightarrow> f i = None" using assms(6) l extD(1) [OF x3] by simp
  show ?thesis unfolding sem_case_arg_def t(2) option.case prod.case
  proof (rule sim_bind [OF correct_part [OF t(3) e(2) al(1) x1 x3d al(2) assms(3) cd(1) fn assms(7) keep_refl, unfolded l]])
    fix x s1 assume d: "done_at c (scope r es d) s x s1"
    then have k: "keep (scope r es d) s s1" "world s1 = snd x" "nd (cells s1 c) = fst x" by (auto simp: done_at_def)
    show "sim fe P (len es2) s1 (case x of (v, w1) \<Rightarrow> Inr (make_ro_opt fe b v, w1)) (len es')
        (\<lambda>x s'. caseval_is fe cv s' (fst x) \<and> world s' = snd x \<and> keep (scope r es d) s s')"
    proof (cases b)
      case False
      then show ?thesis using k e by (auto simp: make_ro_opt_def caseval_is_def case_prod_beta' intro!: sim_ret)
    next
      case True
      let ?Q = "\<lambda>x s'. caseval_is fe cv s' (fst x) \<and> world s' = snd x \<and> keep (scope r es d) s s'"
      let ?s = "set_res c (if snd (cells s1 c) then cells s1 c else (fe_make_ro fe (fst (cells s1 c)), False)) s1"
      have es': "es' = ExprEvalPushStep (SMakeReadonly c c) es2" using True e(4) by simp
      have p: "len es2 < length P" "P ! len es2 = SMakeReadonly c c" using cd(2) assms(6) [of "len es2"] extD(1) [OF x2] l unfolding es' by auto
      have ex: "exec_step fe (P ! len es2) s1 = Inr (Next, ?s)" using p(2) by (simp add: exec_make_readonly_same)
      have "caseval_is fe cv ?s (make_ro_opt fe b (fst x))" "keep (scope r es d) s ?s" "world ?s = snd x"
        using k(1,2) k(3) [symmetric] e(3) True al(2) by (auto simp: caseval_is_def make_ro_opt_def nd_def)
      then have "?Q (make_ro_opt fe b (fst x), snd x) ?s" by simp
      from sim_next [OF p(1) ex sim_ret [of ?Q, OF this]] show ?thesis by (simp add: es' case_prod_beta')
    qed
  qed
qed

lemma init_case_cases:
  assumes "init_case arg whens df r es = Inr es'"
  obtains cv es3 es4 js es5 where "init_case_arg arg es = Inr (cv, es3)" "init_whens cv r whens es3 = Inr (es4, js)"
    "df r es4 = Inr es5" "es' = adjust_jumps js es5"
  using assms by (auto simp: init_case_def)

lemma correct_init_case:
  assumes arg: "case_arg_ok fe arg m" and whens: "list_all2 (when_ok fe) whens ms" and df: "correct fe df md"
  shows "correct fe (init_case arg whens df) (sem_case fe m ms md)"
proof (rule correctI)
  fix r es es' assume t: "init_case arg whens df r es = Inr es'" and pl: "place r es"
  from t obtain cv es3 es4 js es5 where e: "init_case_arg arg es = Inr (cv, es3)" "init_whens cv r whens es3 = Inr (es4, js)"
    "df r es4 = Inr es5" "es' = adjust_jumps js es5" by (rule init_case_cases)
  note x1 = init_case_arg_ext [OF arg e(1) pl]
  note x2 = init_whens_ext [OF whens e(2) place_ext [OF pl x1(1)] x1(2)]
  have x: "ext es es4" using ext_trans [OF x1(1)] x2 by blast
  have "ext es es5" by (rule ext_trans [OF x correct_ext [OF df e(3) place_ext [OF pl x]]])
  then show "ext es es'" unfolding e(4) by (rule ext_adjust) (use x2 extD(1) [OF x1(1)] in auto)
next
  fix r es es' P and s :: "'a rstate"
  assume t: "init_case arg whens df r es = Inr es'" and pl: "place r es" and c: "code P es es' Map.empty" and h: "holds es' s"
  from t obtain cv es3 es4 js es5 where e: "init_case_arg arg es = Inr (cv, es3)" "init_whens cv r whens es3 = Inr (es4, js)"
    "df r es4 = Inr es5" "es' = adjust_jumps js es5" by (rule init_case_cases)
  let ?W = "scope r es es5" and ?T = "len es5" and ?f = "jmap js (len es5)"
  note x1 = init_case_arg_ext [OF arg e(1) pl]
  have x2: "ext es3 es4" "set js \<subseteq> {len es3..<len es4}" using init_whens_ext [OF whens e(2) place_ext [OF pl x1(1)] x1(2)] by auto
  have x12: "ext es es4" by (rule ext_trans [OF x1(1) x2(1)])
  have x3: "ext es4 es5" by (rule correct_ext [OF df e(3) place_ext [OF pl x12]])
  have x: "ext es es5" "ext es3 es5" by (rule ext_trans [OF x12 x3], rule ext_trans [OF x2(1) x3])
  have cd: "code P es es3 ?f" "code P es3 es4 ?f" "code P es4 es5 ?f"
    using c [unfolded e(4) code_adjust_all] code_trans [OF x1(1) x(2)] code_trans [OF x2(1) x3] by auto
  have f1: "\<And>i. len es \<le> i \<Longrightarrow> i < len es3 \<Longrightarrow> ?f i = None" and f3: "\<And>i. len es4 \<le> i \<Longrightarrow> i < len es5 \<Longrightarrow> ?f i = None"
    using x2(2) by (auto simp: jmap_def)
  have h5: "holds es5 s" using h e(4) by simp
  have hold: "keep ?W s s' \<Longrightarrow> holds es5 s'" for s' by (rule holds_scope [OF pl x(1) h5])
  have k: "keep ?W s s' \<Longrightarrow> sim fe P (len es4) s' (md (rd_of s) (tv_of fe es s) (world s')) ?T (done_at r ?W s)" for s'
    by (rule correct_part [OF df e(3) place_ext [OF pl x12] x12 ext_refl scope_self pl cd(3) f3 hold])
  have "sim fe P (len es) s (bindE (sem_case_arg fe m (rd_of s) (tv_of fe es s) (world s)) (\<lambda>(cv, w1).
      sem_whens (map (\<lambda>(c, m). (c (rd_of s) (cv, snd (tv_of fe es s)), m (rd_of s) (tv_of fe es s))) ms) (md (rd_of s) (tv_of fe es s)) w1))
      ?T (done_at r ?W s)"
  proof (rule sim_bind [OF init_case_arg_correct [OF arg e(1) pl x(2) cd(1) f1 h5]])
    fix y s1 assume d: "caseval_is fe cv s1 (fst y) \<and> world s1 = snd y \<and> keep ?W s s1"
    then show "sim fe P (len es3) s1 (case y of (cv, w1) \<Rightarrow> sem_whens (map (\<lambda>(c, m). (c (rd_of s) (cv, snd (tv_of fe es s)), m (rd_of s) (tv_of fe es s))) ms)
        (md (rd_of s) (tv_of fe es s)) w1) ?T (done_at r ?W s)"
      using init_whens_correct [OF whens e(2) pl x3 x(1) h5 k x1(1) x1(2) cd(2), of s1 "fst y"] by (simp add: case_prod_beta')
  qed
  then show "sim fe P (len es) s (sem_case fe m ms md (rd_of s) (tv_of fe es s) (world s)) (len es') (done_at r (scope r es es') s)"
    by (simp add: e(4) sem_case_def sem_case_arg_def)
qed

end
