(* ===== verification/ExprRows.thy ===== *)
theory ExprRows
  imports ExprJumps
begin

text \<open>
  Correctness of row comparisons and of the conversion to a domain, whose check constraints are
  expressions themselves.
\<close>

section \<open>Row comparison\<close>

definition column_ok ::
  "'w fenv \<Rightarrow> cenv \<Rightarrow> translation \<times> translation \<times> Oid \<times> Oid \<times> Oid \<Rightarrow> 'w meaning \<times> 'w meaning \<times> Oid \<times> bool \<times> Oid \<Rightarrow> bool" where
  "column_ok fe ce t m \<longleftrightarrow>
     (case (t, m) of ((t1, t2, opno, opfamily, coll), (ml, mr, f, strict, coll')) \<Rightarrow>
        correct fe t1 ml \<and> correct fe t2 mr \<and> f = ce_row_proc ce opno opfamily \<and>
        strict = fn_strict (ce_fmgr ce f) \<and> coll' = coll)"

lemma init_columns_cases:
  assumes "init_columns ce r ((t1, t2, opno, opfamily, coll) # cols) es = Inr (es', js)"
  obtains fd es1 es3 es4 js' where "palloc_cells (Suc 1) es = (fd_args fd, es1)" "fd_oid fd = ce_row_proc ce opno opfamily"
    "fd_collation fd = coll" "fd_nargs fd = 2" "fd_strict fd = fn_strict (ce_fmgr ce (ce_row_proc ce opno opfamily))"
    "init_func_args [(None, t1), (None, t2)] (fd_args fd) es1 = Inr es3"
    "es4 = ExprEvalPushStep (SRowCompareStep fd (- 1) (- 1) r) es3"
    "init_columns ce r cols es4 = Inr (es', js')" "js = len es3 # js'"
proof -
  let ?p = "ce_row_proc ce opno opfamily"
  let ?fd = "\<lparr>fd_oid = ?p, fd_collation = coll, fd_args = next_cell es, fd_nargs = 2, fd_strict = fn_strict (ce_fmgr ce ?p)\<rparr>"
  let ?es1 = "es\<lparr>next_cell := next_cell es + 2\<rparr>"
  obtain es2 es3 es5 js' where "t1 (next_cell es) ?es1 = Inr es2" "t2 (Suc (next_cell es)) es2 = Inr es3"
    "init_columns ce r cols (ExprEvalPushStep (SRowCompareStep ?fd (- 1) (- 1) r) es3) = Inr (es', js')" "js = len es3 # js'"
    using assms by (auto simp: init_row_column_def palloc_cells_def Let_def split: if_splits)
  then show thesis by (intro that [of ?fd ?es1 es3 _ js']) (simp_all add: palloc_cells_def)
qed

text \<open>The arguments of one column, in a larger translation.\<close>

lemma column_args:
  assumes "column_ok fe ce (t1, t2, opno, opfamily, coll) (ml, mr, q)" "place r es" "palloc_cells (Suc 1) es = (b, es1)"
    "init_func_args [(None, t1), (None, t2)] b es1 = Inr es3"
  shows "ext es es3" "more b 2 es1 es3"
    "code P es es3 Map.empty \<Longrightarrow> holds es3 s \<Longrightarrow>
     sim fe P (len es) s (sem_args [ml (rd_of s) (tv_of fe es s), mr (rd_of s) (tv_of fe es s)] (world s)) (len es3)
       (args_done b 2 (args_scope b 2 es1 es3) s)"
    "args_scope b 2 es1 es3 \<subseteq> scope r es es3"
proof -
  have args: "list_all2 (arg_ok fe) [(None, t1), (None, t2)] [ml, mr]" using assms(1) by (auto simp: arg_ok_def column_ok_def)
  have at: "args_at b (length [(None, t1), (None, t2)]) es es1" using args_at_alloc [OF assms(2,3)] by simp
  note al = palloc_simps [OF assms(3)]
  show g: "ext es es3" "more b 2 es1 es3" using init_func_args_grows [OF args assms(4,2) at] by (simp_all add: numeral_2_eq_2)
  show "sim fe P (len es) s (sem_args [ml (rd_of s) (tv_of fe es s), mr (rd_of s) (tv_of fe es s)] (world s)) (len es3)
       (args_done b 2 (args_scope b 2 es1 es3) s)" if "code P es es3 Map.empty" "holds es3 s"
    using init_func_args_correct [OF args assms(4,2) at _ that(2), of P] that(1) al code_same [of es es1 es3 es3 P]
      tv_ext [OF ext_palloc [OF assms(3)], of fe s] by (simp add: numeral_2_eq_2)
  show "args_scope b 2 es1 es3 \<subseteq> scope r es es3"
    using args_scope_sub [OF assms(2) g(1), of b 2 es1] al g(2) by (auto simp: more_def)
qed

lemma init_columns_ext:
  assumes "list_all2 (column_ok fe ce) cols ms" "init_columns ce r cols es = Inr (es', js)" "place r es"
  shows "ext es es' \<and> set js \<subseteq> {len es..<len es'}"
  using assms
proof (induction arbitrary: es js rule: list_all2_induct)
  case (Cons c cols m ms)
  obtain t1 t2 opno opfamily coll ml mr q where cm: "c = (t1, t2, opno, opfamily, coll)" "m = (ml, mr, q)" by (metis prod.collapse)
  from Cons(4) [unfolded cm] obtain fd es1 es3 es4 js' where e: "palloc_cells (Suc 1) es = (fd_args fd, es1)"
    "init_func_args [(None, t1), (None, t2)] (fd_args fd) es1 = Inr es3"
    "es4 = ExprEvalPushStep (SRowCompareStep fd (- 1) (- 1) r) es3"
    "init_columns ce r cols es4 = Inr (es', js')" "js = len es3 # js'" by (rule init_columns_cases)
  have x1: "ext es es3" by (rule column_args(1) [OF Cons(1) [unfolded cm] Cons(5) e(1,2)])
  have x2: "ext es es4" unfolding e(3) by (rule ext_trans [OF x1 ext_push])
  have ih: "ext es4 es'" "set js' \<subseteq> {len es4..<len es'}" using Cons(3) [OF e(4) place_ext [OF Cons(5) x2]] by auto
  have "len es \<le> len es3" "len es4 = Suc (len es3)" "len es4 \<le> len es'" using extD(1) [OF x1] extD(1) [OF ih(1)] e(3) by auto
  then show ?case using ext_trans [OF x2 ih(1)] ih(2) e(5) by auto
qed simp

text \<open>The step of a column decides where the run goes on.\<close>

lemma exec_rowcompare_step_sem:
  assumes "fd_nargs fd = 2" "nd (cells s (fd_args fd)) = l" "nd (cells s (Suc (fd_args fd))) = r'"
    and R: "R = sem_funcexpr fe (fd_strict fd) (fd_oid fd) (fd_collation fd) [l, r'] (world s)"
  shows "R = Inl e \<Longrightarrow> exec_rowcompare_step fe fd jn jd r s = Inl e"
    "R = Inr (v, w) \<Longrightarrow> \<exists>d. nd d = v \<and> exec_rowcompare_step fe fd jn jd r s =
       Inr (case v of None \<Rightarrow> Goto jn | Some d \<Rightarrow> if DatumGetInt32 d \<noteq> 0 then Goto jd else Next, set_res r d (s\<lparr>world := w\<rparr>))"
proof -
  have fa: "fcinfo_args fd s = [l, r']" using assms fcinfo_args_two by metis
  have an: "arg_null fd 0 s \<longleftrightarrow> l = None" "arg_null fd 1 s \<longleftrightarrow> r' = None" using assms by (simp_all add: arg_null_iff)
  let ?c = "fe_call fe (fd_oid fd) (fd_collation fd) [l, r'] (world s)"
  have strict: "R = Inr (None, world s)" "exec_rowcompare_step fe fd jn jd r s = Inr (Goto jn, set_res r (fst (cells s r), True) s)"
    if "fd_strict fd \<and> (l = None \<or> r' = None)"
    using that unfolding R sem_funcexpr_def exec_rowcompare_step_def an by auto
  have call: "R = sem_lift ?c" "exec_rowcompare_step fe fd jn jd r s = bindE ?c (\<lambda>((d, isnull), w).
      let s1 = set_res r (d, isnull) (s\<lparr>world := w\<rparr>)
      in if isnull then Inr (Goto jn, s1) else if DatumGetInt32 d \<noteq> 0 then Inr (Goto jd, s1) else Inr (Next, s1))"
    if "\<not> (fd_strict fd \<and> (l = None \<or> r' = None))"
    using that unfolding R sem_funcexpr_def exec_rowcompare_step_def an invoke_def fa sem_call_lift by auto
  show "exec_rowcompare_step fe fd jn jd r s = Inl e" if "R = Inl e"
    using strict call that by (cases ?c) (fastforce simp: sem_lift_def)+
  show "\<exists>d. nd d = v \<and> exec_rowcompare_step fe fd jn jd r s =
       Inr (case v of None \<Rightarrow> Goto jn | Some d \<Rightarrow> if DatumGetInt32 d \<noteq> 0 then Goto jd else Next, set_res r d (s\<lparr>world := w\<rparr>))"
    if Rv: "R = Inr (v, w)"
  proof (cases "fd_strict fd \<and> (l = None \<or> r' = None)")
    case True
    then show ?thesis using strict [OF True] Rv by (intro exI [of _ "(fst (cells s r), True)"]) simp
  next
    case False
    obtain d isnull where c: "?c = Inr ((d, isnull), w)" "v = nd (d, isnull)"
      using call(1) [OF False] Rv by (cases ?c) (auto simp: sem_lift_def)
    show ?thesis unfolding call(2) [OF False] using c by (intro exI [of _ "(d, isnull)"]) (simp add: Let_def nd_def)
  qed
qed

definition row_result :: "RowCompareType \<Rightarrow> 'w answer \<Rightarrow> 'w answer" where
  "row_result rctype R = bindE R (\<lambda>(v, w1). Inr (map_option (row_compare_result rctype) v, w1))"

lemma row_result_simps [simp]:
  "row_result rctype (Inr (v, w)) = Inr (map_option (row_compare_result rctype) v, w)"
  "row_result rctype (bindE c k) = bindE c (\<lambda>x. row_result rctype (k x))"
  by (simp_all add: row_result_def bindE_assoc)

lemma sim_row_final:
  assumes "a < length P" "P ! a = SRowCompareFinal rctype r" "r \<in> W" "keep W s0 s" "nd (cells s r) = Some d"
  shows "sim fe P a s (Inr (Some (row_compare_result rctype d), world s)) (Suc a) (done_at r W s0)"
proof (rule sim_yields [OF assms(1) _ assms(3,4)])
  show "yields r s (exec_step fe (P ! a) s) (Inr (Some (row_compare_result rctype d), world s))"
    using assms(2,5) by (auto simp: exec_rowcompare_final_def nd_Some_iff intro: yields_next_with)
qed

text \<open>A step whose outcome \<open>R\<close> the rest of the run depends on.\<close>

lemma sim_branch:
  assumes "a < length P" "\<And>e. R = Inl e \<Longrightarrow> exec_step fe (P ! a) s = Inl e"
    and "\<And>x. R = Inr x \<Longrightarrow> \<exists>s1. (exec_step fe (P ! a) s = Inr (Next, s1) \<and> sim fe P (Suc a) s1 (k x) b Q) \<or>
      (\<exists>j. exec_step fe (P ! a) s = Inr (Goto (int j), s1) \<and> sim fe P j s1 (k x) b Q)"
  shows "sim fe P a s (bindE R k) b Q"
proof (cases R)
  case (Inl e) then show ?thesis using assms(1,2) by (simp add: sim_def run_step(1))
next
  case (Inr x) then show ?thesis using assms(3) [OF Inr] sim_next [OF assms(1)] sim_goto [OF assms(1)] by fastforce
qed

lemma sim_column_step:
  assumes p: "a < length P" "P ! a = SRowCompareStep fd (int (Suc F)) (int F) r" "fd_nargs fd = 2"
    and f: "F < length P" "P ! F = SRowCompareFinal rctype r"
    and s: "nd (cells s (fd_args fd)) = l" "nd (cells s (Suc (fd_args fd))) = r'" "r \<in> W" "keep W s0 s"
    and k: "\<And>s1 w d. keep W s0 s1 \<Longrightarrow> nd (cells s1 r) = Some d \<Longrightarrow> cols \<noteq> [] \<Longrightarrow>
      sim fe P (Suc a) s1 (row_result rctype (sem_columns fe cols (world s1))) (Suc F) (done_at r W s0)"
    and n: "cols = [] \<Longrightarrow> Suc a = F"
  shows "sim fe P a s (bindE (sem_funcexpr fe (fd_strict fd) (fd_oid fd) (fd_collation fd) [l, r'] (world s)) (\<lambda>(v, w3).
      row_result rctype (case v of None \<Rightarrow> Inr (None, w3)
        | Some d \<Rightarrow> if DatumGetInt32 d \<noteq> 0 \<or> cols = [] then Inr (v, w3) else sem_columns fe cols w3))) (Suc F) (done_at r W s0)"
    (is "sim fe P a s (bindE ?R ?k) _ _")
proof (rule sim_branch [OF p(1)])
  note sem = exec_rowcompare_step_sem [OF p(3) s(1,2) refl, of fe]
  show "exec_step fe (P ! a) s = Inl e" if "?R = Inl e" for e using sem(1) [OF that] p(2) by simp
  fix x assume "?R = Inr x"
  moreover obtain v w where x: "x = (v, w)" by (cases x)
  ultimately have "?R = Inr (v, w)" by simp
  from sem(2) [OF this] obtain d where d: "nd d = v" and "exec_rowcompare_step fe fd (int (Suc F)) (int F) r s =
      Inr (case v of None \<Rightarrow> Goto (int (Suc F)) | Some d \<Rightarrow> if DatumGetInt32 d \<noteq> 0 then Goto (int F) else Next, set_res r d (s\<lparr>world := w\<rparr>))"
    by blast
  then have ex: "exec_step fe (P ! a) s =
      Inr (case v of None \<Rightarrow> Goto (int (Suc F)) | Some d \<Rightarrow> if DatumGetInt32 d \<noteq> 0 then Goto (int F) else Next, set_res r d (s\<lparr>world := w\<rparr>))"
    by (simp only: p(2) exec_step.simps)
  let ?s = "set_res r d (s\<lparr>world := w\<rparr>)"
  have ks: "keep W s0 ?s" "nd (cells ?s r) = v" "world ?s = w" using s(3,4) d by auto
  show "\<exists>s1. (exec_step fe (P ! a) s = Inr (Next, s1) \<and> sim fe P (Suc a) s1 (?k x) (Suc F) (done_at r W s0)) \<or>
      (\<exists>j. exec_step fe (P ! a) s = Inr (Goto (int j), s1) \<and> sim fe P j s1 (?k x) (Suc F) (done_at r W s0))"
  proof (cases v)
    case None
    then show ?thesis using ex x ks sim_ret [of "done_at r W s0" "(None, w)" ?s fe P "Suc F"]
      by (intro exI [of _ ?s] disjI2 exI [of _ "Suc F"]) (simp add: done_at_def)
  next
    case (Some z)
    note fin = sim_row_final [OF f s(3) ks(1) ks(2) [unfolded Some], of fe, unfolded ks(3)]
    show ?thesis
    proof (cases "DatumGetInt32 z \<noteq> 0")
      case True
      then show ?thesis using ex x fin Some by (intro exI [of _ ?s] disjI2 exI [of _ F]) simp
    next
      case False
      have nx: "exec_step fe (P ! a) s = Inr (Next, ?s)" using ex Some False by simp
      have "sim fe P (Suc a) ?s (?k x) (Suc F) (done_at r W s0)"
      proof (cases "cols = []")
        case True
        then show ?thesis unfolding n [OF True] using fin x Some by simp
      next
        case cols: False
        then have "?k x = row_result rctype (sem_columns fe cols (world ?s))" using x Some False by simp
        then show ?thesis using k [OF ks(1) ks(2) [unfolded Some] cols] by simp
      qed
      with nx show ?thesis by blast
    qed
  qed
qed

lemma sem_args_two:
  "bindE (m1 w) (\<lambda>(l, w1). bindE (m2 w1) (\<lambda>(r, w2). k l r w2)) = bindE (sem_args [m1, m2] w) (\<lambda>(vs, w2). k (vs ! 0) (vs ! 1) w2)"
  by (cases "m1 w") (auto simp: bindE_assoc intro!: bindE_cong)

lemma sem_columns_args:
  "sem_columns fe ((m1, m2, f, strict, coll) # cols) w =
     bindE (sem_args [m1, m2] w) (\<lambda>(vs, w2).
       bindE (sem_funcexpr fe strict f coll [vs ! 0, vs ! 1] w2) (\<lambda>(v, w3).
         case v of
           None \<Rightarrow> Inr (None, w3)
         | Some d \<Rightarrow> if DatumGetInt32 d \<noteq> 0 \<or> cols = [] then Inr (v, w3) else sem_columns fe cols w3))"
  unfolding sem_columns.simps by (rule sem_args_two)

lemma args_done_two:
  "args_done b 2 W s x s' \<Longrightarrow> nd (cells s' b) = fst x ! 0 \<and> nd (cells s' (Suc b)) = fst x ! 1 \<and> world s' = snd x \<and> keep W s s'"
  by (cases x) (auto simp: args_done_def numeral_2_eq_2)

definition column_at :: "reader \<Rightarrow> testvals \<Rightarrow> 'w meaning \<times> 'w meaning \<times> Oid \<times> bool \<times> Oid \<Rightarrow>
    ('w \<Rightarrow> 'w answer) \<times> ('w \<Rightarrow> 'w answer) \<times> Oid \<times> bool \<times> Oid" where
  "column_at rd tv = (\<lambda>(l, r, c). (l rd tv, r rd tv, c))"

lemma init_columns_correct:
  assumes "list_all2 (column_ok fe ce) cols ms" "init_columns ce r cols es = Inr (es', js)" "cols \<noteq> []"
    and a: "place r a" "ext es' d" "ext a d" "holds d s0"
    and f: "len es' < length P" "P ! len es' = SRowCompareFinal rctype r"
    and "ext a es" "code P es es' (jmap js (Suc (len es')))" "keep (scope r a d) s0 s"
  shows "sim fe P (len es) s (row_result rctype (sem_columns fe (map (column_at (rd_of s0) (tv_of fe a s0)) ms) (world s)))
    (Suc (len es')) (done_at r (scope r a d) s0)"
  using assms(1-3,10-)
proof (induction arbitrary: es js s rule: list_all2_induct)
  case (Cons c cols m ms)
  let ?W = "scope r a d" and ?m = "column_at (rd_of s0) (tv_of fe a s0)"
  obtain t1 t2 opno opfamily coll ml mr g strict coll' where c: "c = (t1, t2, opno, opfamily, coll)" and m: "m = (ml, mr, g, strict, coll')"
    by (metis prod.collapse)
  from Cons(4) [unfolded c] obtain fd es1 es3 es4 js' where al: "palloc_cells (Suc 1) es = (fd_args fd, es1)" and
    fd: "fd_oid fd = ce_row_proc ce opno opfamily" "fd_collation fd = coll" "fd_nargs fd = 2"
      "fd_strict fd = fn_strict (ce_fmgr ce (ce_row_proc ce opno opfamily))" and
    e: "init_func_args [(None, t1), (None, t2)] (fd_args fd) es1 = Inr es3"
      "es4 = ExprEvalPushStep (SRowCompareStep fd (- 1) (- 1) r) es3"
      "init_columns ce r cols es4 = Inr (es', js')" "js = len es3 # js'" by (rule init_columns_cases)
  have fd': "g = fd_oid fd" "strict = fd_strict fd" "coll' = fd_collation fd" using Cons(1) fd c m by (auto simp: column_ok_def)
  have pl: "place r es" by (rule place_ext [OF a(1) Cons(6)])
  note col = column_args [OF Cons(1) [unfolded c m] pl al e(1)]
  have x2: "ext es es4" unfolding e(2) by (rule ext_trans [OF col(1) ext_push])
  have x3: "ext es4 es'" "set js' \<subseteq> {len es4..<len es'}" using init_columns_ext [OF Cons(2) e(3) place_ext [OF pl x2]] by auto
  note cd = code_open [OF col(1) e(2) x3 Cons(7) [unfolded e(4)]]
  have x3d: "ext es3 d" using ext_trans [OF x3(1) a(2)] e(2) by (blast intro: ext_trans)
  have sub: "args_scope (fd_args fd) 2 es1 es3 \<subseteq> ?W" using col(4) scope_sub [OF Cons(6) col(1) x3d scope_self] by blast
  have l: "len es4 = Suc (len es3)" by (simp add: e(2))
  have st: "P ! len es3 = SRowCompareStep fd (int (Suc (len es'))) (int (len es')) r" using cd(3) by (simp add: set_jump_def)
  have h: "holds es3 s" by (rule holds_ext [OF x3d holds_scope [OF a(1,3,4) Cons(8)]])
  have tv: "tv_of fe es s = tv_of fe a s0" using tv_ext [OF Cons(6), of fe s] tv_keep [OF Cons(8) a(1), of fe] by simp
  note args = col(3) [OF cd(1) h, unfolded tv keep_rd [OF Cons(8)]]
  have cm: "?m (ml, mr, q) = (ml (rd_of s0) (tv_of fe a s0), mr (rd_of s0) (tv_of fe a s0), q)" for q
    by (simp add: column_at_def)
  show ?case unfolding list.map m cm sem_columns_args fd'
    unfolding row_result_simps(2)
  proof (rule sim_bind [OF args])
    fix x s1 assume "args_done (fd_args fd) 2 (args_scope (fd_args fd) 2 es1 es3) s x s1"
    from args_done_two [OF this] have d: "nd (cells s1 (fd_args fd)) = fst x ! 0" "nd (cells s1 (Suc (fd_args fd))) = fst x ! 1"
      "world s1 = snd x" "keep ?W s0 s1" using keep_trans [OF Cons(8) keep_mono [OF _ sub]] by auto
    have k: "sim fe P (Suc (len es3)) s2 (row_result rctype (sem_columns fe (map ?m ms) (world s2))) (Suc (len es')) (done_at r ?W s0)"
      if "keep ?W s0 s2" "map ?m ms \<noteq> []" for s2
      using Cons(3) [OF e(3) _ ext_trans [OF Cons(6) x2] cd(4) that(1)] that(2) Cons(2) l by auto
    have n: "Suc (len es3) = len es'" if "map ?m ms = []" using that Cons(2) e(3) l by auto
    from sim_column_step [OF cd(2) st fd(3) f d(1,2) scope_self d(4) k n]
    show "sim fe P (len es3) s1 (row_result rctype (case x of (vs, w2) \<Rightarrow> bindE (sem_funcexpr fe (fd_strict fd) (fd_oid fd) (fd_collation fd) [vs ! 0, vs ! 1] w2)
        (\<lambda>(v, w3). case v of None \<Rightarrow> Inr (None, w3)
          | Some d \<Rightarrow> if DatumGetInt32 d \<noteq> 0 \<or> map ?m ms = [] then Inr (v, w3)
             else sem_columns fe (map ?m ms) w3)))
        (Suc (len es')) (done_at r ?W s0)"
      by (simp add: case_prod_beta' d(3))
  qed
qed simp

lemma correct_init_row_compare:
  assumes cols: "list_all2 (column_ok fe ce) cols ms"
  shows "correct fe (init_row_compare ce rctype cols)
    (\<lambda>rd tv w. row_result rctype (sem_columns fe (map (column_at rd tv) ms) w))"
proof (rule correctI)
  fix r es es' assume "init_row_compare ce rctype cols r es = Inr es'" and pl: "place r es"
  then obtain es1 js where e: "init_columns ce r cols es = Inr (es1, js)" "es' = adjust_jumps js (init_row_final rctype (length cols) r es1)"
    by (auto simp: init_row_compare_def)
  have x: "ext es es1" "set js \<subseteq> {len es..<len es1}" using init_columns_ext [OF cols e(1) pl] by auto
  have "ext es1 (init_row_final rctype (length cols) r es1)" by (auto simp: init_row_final_def intro: ext_trans)
  then show "ext es es'" unfolding e(2) using ext_trans [OF x(1)] x(2) by (auto intro!: ext_adjust)
next
  fix r es es' P and s :: "'a rstate"
  assume "init_row_compare ce rctype cols r es = Inr es'" and pl: "place r es" and c: "code P es es' Map.empty" and h: "holds es' s"
  then obtain es1 js where e: "init_columns ce r cols es = Inr (es1, js)" "es' = adjust_jumps js (init_row_final rctype (length cols) r es1)"
    by (auto simp: init_row_compare_def)
  have x: "ext es es1" "set js \<subseteq> {len es..<len es1}" using init_columns_ext [OF cols e(1) pl] by auto
  let ?es2 = "init_row_final rctype (length cols) r es1"
  have c2: "code P es ?es2 (jmap js (len ?es2))" using c unfolding e(2) code_adjust_all .
  show "sim fe P (len es) s (row_result rctype (sem_columns fe (map (column_at (rd_of s) (tv_of fe es s)) ms) (world s))) (len es')
      (done_at r (scope r es es') s)"
  proof (cases "cols = []")
    case False
    then have es2: "?es2 = ExprEvalPushStep (SRowCompareFinal rctype r) es1" by (simp add: init_row_final_def)
    have cd: "code P es es1 (jmap js (Suc (len es1)))" "len es1 < length P" "P ! len es1 = SRowCompareFinal rctype r"
      using c2 code_trans [OF x(1) ext_push] x(2) unfolding es2 by (auto simp: jmap_def)
    have h2: "holds ?es2 s" using h unfolding e(2) by simp
    have x2: "ext es1 ?es2" unfolding es2 by simp
    from init_columns_correct [OF cols e(1) False pl x2 ext_trans [OF x(1) x2] h2 cd(2,3) ext_refl cd(1) keep_refl]
    show ?thesis by (simp add: e(2) es2)
  next
    case True
    then have e1: "es1 = es" "js = []" "ms = []" using e(1) cols by auto
    have es2: "?es2 = ExprEvalPushStep (SRowCompareFinal rctype r) (ExprEvalPushStep (SConst (Int32GetDatum 0, False) r) es)"
      using True e1 by (simp add: init_row_final_def)
    have cd: "len es < length P" "P ! len es = SConst (Int32GetDatum 0, False) r" "Suc (len es) < length P" "P ! Suc (len es) = SRowCompareFinal rctype r"
      using c2 code_trans [OF ext_push [of es] ext_push] unfolding es2 by (auto simp: jmap_def e1)
    let ?s = "set_res r (Int32GetDatum 0, False) s"
    have ex: "exec_step fe (P ! len es) s = Inr (Next, ?s)" by (simp add: cd(2) next_with_def)
    have "sim fe P (Suc (len es)) ?s (Inr (Some (row_compare_result rctype (Int32GetDatum 0)), world ?s)) (Suc (Suc (len es))) (done_at r (scope r es es') s)"
      by (rule sim_row_final [OF cd(3,4)]) simp_all
    from sim_next [OF cd(1) ex this] show ?thesis by (simp add: e(2) es2 [unfolded e1] e1)
  qed
qed

section \<open>Domain constraints\<close>

definition con_ok :: "'w fenv \<Rightarrow> string \<times> translation option \<Rightarrow> 'w meaning option \<Rightarrow> bool" where
  "con_ok fe t m \<longleftrightarrow> rel_option (correct fe) (snd t) m"

text \<open>A cell taken since \<open>a\<close>.\<close>

definition own_cell :: "ExprState \<Rightarrow> ExprState \<Rightarrow> loc \<Rightarrow> bool" where
  "own_cell a es x \<longleftrightarrow> next_cell a \<le> x \<and> x < next_cell es \<and> x \<notin> precells es"

lemma own_cell_ext: "own_cell a es x \<Longrightarrow> ext es es' \<Longrightarrow> own_cell a es' x"
  using fresh_kept [of es es' x] extD(2) [of es es'] by (auto simp: own_cell_def)

lemma own_cell_scope: "own_cell a es x \<Longrightarrow> ext es d \<Longrightarrow> x \<in> scope r a d"
  using own_cell_ext [of a es x d] by (auto simp: own_cell_def scope_def)

lemma own_cell_new:
  assumes "place r a" "ext a es" "palloc_cells (Suc n) es = (c, es1)"
  shows "own_cell a es1 c" "c \<noteq> r" "ext es es1"
  using alloc_one [OF place_ext [OF assms(1,2)] assms(3) ext_refl] palloc_simps [OF assms(3)] ext_palloc [OF assms(3)] extD(2) [OF assms(2)]
  by (auto simp: own_cell_def place_def)

text \<open>The places for the value of a check and for the value it is about.\<close>

definition dom_places :: "ExprState \<Rightarrow> loc \<Rightarrow> ExprState \<Rightarrow> loc option \<Rightarrow> loc option \<Rightarrow> bool" where
  "dom_places a r es cv dv \<longleftrightarrow>
     (\<forall>c. cv = Some c \<longrightarrow> own_cell a es c \<and> c \<noteq> r) \<and>
     (\<forall>d. dv = Some d \<longrightarrow> (d = r \<or> own_cell a es d) \<and> cv \<noteq> Some d)"

lemma dom_places_ext: "dom_places a r es cv dv \<Longrightarrow> ext es es' \<Longrightarrow> dom_places a r es' cv dv"
  by (auto simp: dom_places_def intro: own_cell_ext)

lemma init_checkvalue_places:
  assumes "place r a" "ext a es" "dom_places a r es cv dv" "init_checkvalue cv es = (c, es1)"
  shows "ext es es1" "steps es1 = steps es" "dom_places a r es1 (Some c) dv"
proof -
  show x: "ext es es1" using assms(4) own_cell_new(3) [OF assms(1,2), of 0] by (auto simp: init_checkvalue_def split: option.splits)
  show "steps es1 = steps es" using assms(4) by (auto simp: init_checkvalue_def palloc_cells_def split: option.splits)
  show "dom_places a r es1 (Some c) dv"
  proof (cases cv)
    case (Some c')
    then show ?thesis using assms(3,4) by (auto simp: init_checkvalue_def)
  next
    case None
    then have al: "palloc_cells (Suc 0) es = (c, es1)" using assms(4) by (simp add: init_checkvalue_def)
    have "\<not> own_cell a es c" using palloc_simps [OF al] by (auto simp: own_cell_def)
    then show ?thesis using own_cell_new [OF assms(1,2) al] dom_places_ext [OF assms(3) x] assms(3) by (auto simp: dom_places_def)
  qed
qed

lemma init_domainval_places:
  assumes "place r a" "ext a es" "dom_places a r es (Some c) dv" "init_domainval ce ty r dv es = (d, es1)"
  shows "ext es es1" "dom_places a r es1 (Some c) (Some d)"
proof -
  have "ext es es1 \<and> dom_places a r es1 (Some c) (Some d)"
  proof (cases dv)
    case (Some d') then show ?thesis using assms(3,4) by (auto simp: init_domainval_def)
  next
    case None
    show ?thesis
    proof (cases "ce_typ_varlena ce ty")
      case False then show ?thesis using None assms(3,4) by (auto simp: init_domainval_def dom_places_def)
    next
      case True
      then obtain es0 where al: "palloc_cells (Suc 0) es = (d, es0)" and e: "es1 = ExprEvalPushStep (SMakeReadonly r d) es0"
        using None assms(4) by (auto simp: init_domainval_def split: prod.splits)
      note o = own_cell_new [OF assms(1,2) al]
      have x: "ext es es1" using ext_trans [OF o(3) ext_push] e by simp
      have "d \<noteq> c" using assms(3) palloc_simps [OF al] by (auto simp: dom_places_def own_cell_def)
      then show ?thesis using x o own_cell_ext [OF o(1), of es1] dom_places_ext [OF assms(3) x] e by (auto simp: dom_places_def)
    qed
  qed
  then show "ext es es1" "dom_places a r es1 (Some c) (Some d)" by auto
qed

lemma init_constraints_cases:
  assumes "init_constraints ce ty r cv dv ((name, Some t) # cons) es = Inr es'"
  obtains c es1 d es2 es3 es4 where "init_checkvalue cv es = (c, es1)" "init_domainval ce ty r dv es1 = (d, es2)"
    "t c (es2\<lparr>innermost_domainval := Some d\<rparr>) = Inr es3"
    "es4 = ExprEvalPushStep (SDomainCheck ty name c r) (es3\<lparr>innermost_domainval := innermost_domainval es2\<rparr>)"
    "init_constraints ce ty r (Some c) (Some d) cons es4 = Inr es'" "innermost_domainval es2 = innermost_domainval es"
proof -
  obtain c es1 where c: "init_checkvalue cv es = (c, es1)" by (cases "init_checkvalue cv es")
  obtain d es2 where d: "init_domainval ce ty r dv es1 = (d, es2)" by (cases "init_domainval ce ty r dv es1")
  have i: "innermost_domainval es2 = innermost_domainval es"
    using c d by (auto simp: init_checkvalue_def init_domainval_def palloc_cells_def split: option.splits if_splits)
  then show thesis using assms c d that by (auto simp: Let_def)
qed

text \<open>A check constraint: its expression is translated with the value at \<open>d\<close> and the result at \<open>c\<close>.\<close>

lemma check_place:
  assumes "place r a" "ext a es" "dom_places a r es (Some c) (Some d)"
  shows "place c (es\<lparr>innermost_domainval := Some d\<rparr>)"
proof -
  have p: "place r es" by (rule place_ext [OF assms(1,2)])
  have "innermost_caseval es = Some x \<Longrightarrow> x < next_cell a" for x using assms(1) extD(3) [OF assms(2)] by (auto simp: place_def)
  then show ?thesis using assms(3) p by (fastforce simp: place_def dom_places_def own_cell_def precells_def)
qed

lemma check_ext:
  assumes "place r a" "ext a es" "dom_places a r es cv dv" "correct fe t m"
    "init_checkvalue cv es = (c, es1)" "init_domainval ce ty r dv es1 = (d, es2)" "t c (es2\<lparr>innermost_domainval := Some d\<rparr>) = Inr es3"
    "es4 = ExprEvalPushStep (SDomainCheck ty name c r) (es3\<lparr>innermost_domainval := innermost_domainval es2\<rparr>)"
  shows "ext es es2" "ext a es2" "dom_places a r es2 (Some c) (Some d)" "place c (es2\<lparr>innermost_domainval := Some d\<rparr>)"
    "ext es2 (es3\<lparr>innermost_domainval := innermost_domainval es2\<rparr>)"
    "ext (es3\<lparr>innermost_domainval := innermost_domainval es2\<rparr>) es4" "ext es es4" "dom_places a r es4 (Some c) (Some d)"
proof -
  note cp = init_checkvalue_places [OF assms(1-3,5)]
  have a1: "ext a es1" by (rule ext_trans [OF assms(2) cp(1)])
  note dp = init_domainval_places [OF assms(1) a1 cp(3) assms(6)]
  show x: "ext es es2" by (rule ext_trans [OF cp(1) dp(1)])
  show a2: "ext a es2" by (rule ext_trans [OF assms(2) x])
  show "dom_places a r es2 (Some c) (Some d)" by (rule dp(2))
  show p: "place c (es2\<lparr>innermost_domainval := Some d\<rparr>)" by (rule check_place [OF assms(1) a2 dp(2)])
  show x3: "ext es2 (es3\<lparr>innermost_domainval := innermost_domainval es2\<rparr>)" by (rule ext_domainval [OF correct_ext [OF assms(4,7) p]])
  show x4: "ext (es3\<lparr>innermost_domainval := innermost_domainval es2\<rparr>) es4" by (simp add: assms(8))
  have "ext es2 es4" by (rule ext_trans [OF x3 x4])
  then show "ext es es4" "dom_places a r es4 (Some c) (Some d)" by (auto intro: ext_trans [OF x] dom_places_ext [OF dp(2)])
qed

lemma init_constraints_ext:
  assumes "list_all2 (con_ok fe) cons ms" "place r a" "init_constraints ce ty r cv dv cons es = Inr es'" "ext a es" "dom_places a r es cv dv"
  shows "ext es es'"
  using assms(1,3-)
proof (induction arbitrary: es cv dv rule: list_all2_induct)
  case (Cons k cons m ms)
  obtain name topt where k: "k = (name, topt)" by (cases k)
  show ?case
  proof (cases topt)
    case None
    let ?es = "ExprEvalPushStep (SDomainNotNull ty r) es"
    have "init_constraints ce ty r cv dv cons ?es = Inr es'" using Cons(4) k None by simp
    then show ?thesis using Cons(3) [of cv dv ?es] ext_trans [OF Cons(5) ext_push] dom_places_ext [OF Cons(6) ext_push]
      by (blast intro: ext_trans [OF ext_push])
  next
    case (Some t)
    then obtain m' where t: "correct fe t m'" using Cons(1) k by (auto simp: con_ok_def option_rel_Some1)
    from Cons(4) [unfolded k Some] obtain c es1 d es2 es3 es4 where e: "init_checkvalue cv es = (c, es1)" "init_domainval ce ty r dv es1 = (d, es2)"
      "t c (es2\<lparr>innermost_domainval := Some d\<rparr>) = Inr es3"
      "es4 = ExprEvalPushStep (SDomainCheck ty name c r) (es3\<lparr>innermost_domainval := innermost_domainval es2\<rparr>)"
      "init_constraints ce ty r (Some c) (Some d) cons es4 = Inr es'" by (rule init_constraints_cases)
    note x = check_ext [OF assms(2) Cons(5,6) t e(1-4)]
    show ?thesis by (rule ext_trans [OF x(7) Cons(3) [OF e(5) ext_trans [OF Cons(5) x(7)] x(8)]])
  qed
qed simp

lemma isfalse_nd: "isfalse (nd p) \<longleftrightarrow> \<not> snd p \<and> \<not> DatumGetBool (fst p)"
  by (simp add: isfalse_def nd_def)

text \<open>At run time, the value is at \<open>r\<close> and, once the place for it is known, its read-only form there.\<close>

definition dom_values :: "'w rstate \<Rightarrow> loc \<Rightarrow> loc option \<Rightarrow> Datum option \<Rightarrow> Datum option \<Rightarrow> bool" where
  "dom_values s r dv v ro \<longleftrightarrow> nd (cells s r) = v \<and> (\<forall>d. dv = Some d \<longrightarrow> nd (cells s d) = ro)"

lemma init_domainval_run:
  assumes "place r a" "ext a es" "dom_places a r es (Some c) dv" "init_domainval ce ty r dv es = (d, es1)" "ext es1 D"
    "code P es es1 Map.empty" "dom_values s r dv v ro" "ro = make_ro_opt fe (ce_typ_varlena ce ty) v"
  shows "sim fe P (len es) s (Inr ()) (len es1) (\<lambda>_ s'. dom_values s' r (Some d) v ro \<and> world s' = world s \<and> keep (scope r a D) s s')"
proof (cases "dv = None \<and> ce_typ_varlena ce ty")
  case False
  then have "es1 = es" "dom_values s r (Some d) v ro"
    using assms(4,7,8) by (auto simp: init_domainval_def dom_values_def make_ro_opt_def split: option.splits if_splits)
  then show ?thesis by (auto intro!: sim_ret)
next
  case True
  then obtain es0 where al: "palloc_cells (Suc 0) es = (d, es0)" and e: "es1 = ExprEvalPushStep (SMakeReadonly r d) es0"
    using assms(4) by (auto simp: init_domainval_def split: prod.splits)
  note o = own_cell_new [OF assms(1,2) al]
  have dW: "d \<in> scope r a D" by (rule own_cell_scope [OF o(1)]) (use e assms(5) in \<open>auto intro: ext_trans\<close>)
  have "code P es0 es1 Map.empty" using assms(6) code_trans [OF o(3), of es1 P Map.empty] e by simp
  then have p: "len es < length P" "P ! len es = SMakeReadonly r d" "len es1 = Suc (len es)" using e palloc_simps [OF al] by auto
  let ?s = "set_res d (if \<not> snd (cells s r) then fe_make_ro fe (fst (cells s r)) else fst (cells s d), snd (cells s r)) s"
  have ex: "exec_step fe (P ! len es) s = Inr (Next, ?s)" using p(2) by (simp add: exec_make_readonly_def next_with_def case_prod_beta')
  have "dom_values ?s r (Some d) v ro" using assms(7,8) True o(2) by (auto simp: dom_values_def make_ro_opt_def nd_def)
  then have "dom_values ?s r (Some d) v ro \<and> world ?s = world s \<and> keep (scope r a D) s ?s" using dW by simp
  from sim_next [OF p(1) ex sim_ret [of "\<lambda>_ s'. dom_values s' r (Some d) v ro \<and> world s' = world s \<and> keep (scope r a D) s s'", OF this]]
  show ?thesis by (simp add: p(3))
qed

definition sem_check :: "'w answer \<Rightarrow> 'w eres" where
  "sem_check R = bindE R (\<lambda>(c, w1). if isfalse c then Inl (ERROR ERRCODE_CHECK_VIOLATION) else Inr w1)"

lemma sem_constraints_check: "sem_constraints v (Some check # cons) w = bindE (sem_check (check w)) (sem_constraints v cons)"
  by (auto simp: sem_check_def bindE_assoc intro!: bindE_cong)

lemma steps_domainval: "steps (es\<lparr>innermost_domainval := c\<rparr>) = steps es"
  by simp

lemma check_run:
  assumes pl: "place r a" and ae: "ext a es" and dp: "dom_places a r es cv dv" and t: "correct fe t m"
    and e: "init_checkvalue cv es = (c, es1)" "init_domainval ce ty r dv es1 = (d, es2)" "t c (es2\<lparr>innermost_domainval := Some d\<rparr>) = Inr es3"
      "es4 = ExprEvalPushStep (SDomainCheck ty name c r) (es3\<lparr>innermost_domainval := innermost_domainval es2\<rparr>)"
    and D: "ext es4 D" "ext a D" "holds D s0" and s: "code P es es4 Map.empty" "keep (scope r a D) s0 s" "dom_values s r dv v ro"
      "ro = make_ro_opt fe (ce_typ_varlena ce ty) v"
  shows "sim fe P (len es) s (sem_check (m (rd_of s0) (fst (tv_of fe a s0), ro) (world s))) (len es4)
    (\<lambda>w1 s'. dom_values s' r (Some d) v ro \<and> world s' = w1 \<and> keep (scope r a D) s0 s')"
proof -
  let ?W = "scope r a D" and ?es3 = "es3\<lparr>innermost_domainval := innermost_domainval es2\<rparr>"
  let ?Q = "\<lambda>w1 s'. dom_values s' r (Some d) v ro \<and> world s' = w1 \<and> keep ?W s0 s'"
  note cp = init_checkvalue_places [OF pl ae dp e(1)]
  note x = check_ext [OF pl ae dp t e]
  have a1: "ext a es1" by (rule ext_trans [OF ae cp(1)])
  have x12: "ext es1 es2" by (rule init_domainval_places(1) [OF pl a1 cp(3) e(2)])
  have x2D: "ext es2 D" by (rule ext_trans [OF x(5) ext_trans [OF x(6) D(1)]])
  have c3: "cext es3 D" using ext_cext [OF ext_trans [OF x(6) D(1)]] by (simp add: cext_def)
  have ca: "cext a (es2\<lparr>innermost_domainval := Some d\<rparr>)" using ext_cext [OF x(2)] by (simp add: cext_def)
  have x24: "ext es2 es4" by (rule ext_trans [OF x(5,6)])
  have cd: "code P es1 es2 Map.empty" "code P es2 ?es3 Map.empty" "code P ?es3 es4 Map.empty"
    using s(1) code_trans [OF cp(1) ext_trans [OF x12 x24]] code_trans [OF x12 x24] code_trans [OF x(5,6)] by auto
  have c2: "code P (es2\<lparr>innermost_domainval := Some d\<rparr>) es3 Map.empty" using cd(2) by (simp add: code_def)
  have cW: "c \<in> ?W" by (rule own_cell_scope [OF _ x2D]) (use x(3) in \<open>simp add: dom_places_def\<close>)
  have rd: "r \<notin> scope c es2 es3" "d \<notin> scope c es2 es3"
    using x(3) place_ext [OF pl x(2)] by (auto simp: scope_def dom_places_def own_cell_def place_def)
  have "sim fe P (len es) s (bindE (Inr ()) (\<lambda>_. sem_check (m (rd_of s0) (fst (tv_of fe a s0), ro) (world s)))) (len es4) ?Q"
  proof (rule sim_bind [OF init_domainval_run [OF pl a1 cp(3) e(2) x2D cd(1) s(3,4), unfolded cp(2)]])
    fix u s1 assume "dom_values s1 r (Some d) v ro \<and> world s1 = world s \<and> keep ?W s s1"
    then have d1: "dom_values s1 r (Some d) v ro" "world s1 = world s" "keep ?W s0 s1" using keep_trans [OF s(2)] by auto
    have tv: "tv_of fe (es2\<lparr>innermost_domainval := Some d\<rparr>) s1 = (fst (tv_of fe a s0), ro)"
      using d1(1) tv_ext [OF x(2), of fe s1] tv_keep [OF d1(3) pl, of fe] by (simp add: tv_of_def dom_values_def)
    show "sim fe P (len es2) s1 (sem_check (m (rd_of s0) (fst (tv_of fe a s0), ro) (world s))) (len es4) ?Q"
      unfolding sem_check_def d1(2) [symmetric]
    proof (rule sim_bind [OF correct_within [OF t e(3) x(4) ca c3 cW c2 refl holds_scope [OF pl D(2,3) d1(3)] d1(3), unfolded tv steps_domainval]])
      fix y s2 assume y: "done_at c ?W s0 y s2 \<and> keep (scope c (es2\<lparr>innermost_domainval := Some d\<rparr>) es3) s1 s2"
      then have y2: "keep (scope c es2 es3) s1 s2" by (simp add: scope_def)
      have d2: "dom_values s2 r (Some d) v ro" using d1(1) keep_cell [OF y2 rd(1)] keep_cell [OF y2 rd(2)] by (simp add: dom_values_def)
      have p: "len es3 < length P" "P ! len es3 = SDomainCheck ty name c r" "len es4 = Suc (len es3)" using cd(3) e(4) by auto
      have chk: "isfalse (fst y) = (\<not> snd (cells s2 c) \<and> \<not> DatumGetBool (fst (cells s2 c)))" using y isfalse_nd [of "cells s2 c"] by (simp add: done_at_def)
      show "sim fe P (len es3) s2 (case y of (c, w1) \<Rightarrow> if isfalse c then Inl (ERROR ERRCODE_CHECK_VIOLATION) else Inr w1) (len es4) ?Q"
      proof (cases "isfalse (fst y)")
        case True
        then show ?thesis using p chk by (simp add: sim_def run_step(1) ExecEvalConstraintCheck_def case_prod_beta')
      next
        case False
        have ex: "exec_step fe (P ! len es3) s2 = Inr (Next, s2)" using False p(2) chk by (simp add: ExecEvalConstraintCheck_def)
        have "?Q (snd y) s2" using d2 y by (simp add: done_at_def)
        from sim_next [OF p(1) ex sim_ret [of ?Q, OF this]] show ?thesis using False p(3) by (simp add: case_prod_beta')
      qed
    qed
  qed
  then show ?thesis by simp
qed

lemma init_constraints_correct:
  assumes "list_all2 (con_ok fe) cons ms" and a: "place r a" "ext es' D" "ext a D" "holds D s0"
    and ro: "ro = make_ro_opt fe (ce_typ_varlena ce ty) v"
    and "init_constraints ce ty r cv dv cons es = Inr es'" "ext a es" "dom_places a r es cv dv" "code P es es' Map.empty"
      "keep (scope r a D) s0 s" "dom_values s r dv v ro"
  shows "sim fe P (len es) s (sem_constraints v (map (map_option (\<lambda>m. m (rd_of s0) (fst (tv_of fe a s0), ro))) ms) (world s))
    (len es') (done_at r (scope r a D) s0)"
  using assms(1,7-)
proof (induction arbitrary: es cv dv s rule: list_all2_induct)
  case Nil then show ?case by (auto simp: done_at_def dom_values_def intro!: sim_ret)
next
  case (Cons k cons m ms)
  let ?W = "scope r a D" and ?m = "map_option (\<lambda>m. m (rd_of s0) (fst (tv_of fe a s0), ro))"
  obtain name topt where k: "k = (name, topt)" by (cases k)
  have hold: "keep ?W s0 s' \<Longrightarrow> holds D s'" for s' by (rule holds_scope [OF a(1,3,4)])
  show ?case
  proof (cases topt)
    case None
    then have m: "m = None" using Cons(1) k by (simp add: con_ok_def)
    let ?es = "ExprEvalPushStep (SDomainNotNull ty r) es"
    have i: "init_constraints ce ty r cv dv cons ?es = Inr es'" using Cons(4) k None by simp
    have ae: "ext a ?es" "dom_places a r ?es cv dv" using ext_trans [OF Cons(5) ext_push] dom_places_ext [OF Cons(6) ext_push] by auto
    have x: "ext ?es es'" by (rule init_constraints_ext [OF Cons(2) a(1) i ae])
    have p: "len es < length P" "P ! len es = SDomainNotNull ty r" "code P ?es es' Map.empty" using Cons(7) code_trans [OF ext_push x] by auto
    note ih = Cons(3) [OF i ae p(3) Cons(8,9)]
    show ?thesis
    proof (cases v)
      case None
      then show ?thesis using p(1,2) Cons(9) m by (simp add: sim_def run_step(1) ExecEvalConstraintNotNull_def dom_values_def nd_None_iff)
    next
      case (Some z)
      then have "exec_step fe (P ! len es) s = Inr (Next, s)" using p(2) Cons(9) by (simp add: ExecEvalConstraintNotNull_def dom_values_def nd_Some_iff)
      from sim_next [OF p(1) this] ih show ?thesis using m Some by simp
    qed
  next
    case (Some t)
    then obtain m' where t: "correct fe t m'" "m = Some m'" using Cons(1) k by (auto simp: con_ok_def option_rel_Some1)
    from Cons(4) [unfolded k Some] obtain c es1 d es2 es3 es4 where e: "init_checkvalue cv es = (c, es1)" "init_domainval ce ty r dv es1 = (d, es2)"
      "t c (es2\<lparr>innermost_domainval := Some d\<rparr>) = Inr es3"
      "es4 = ExprEvalPushStep (SDomainCheck ty name c r) (es3\<lparr>innermost_domainval := innermost_domainval es2\<rparr>)"
      "init_constraints ce ty r (Some c) (Some d) cons es4 = Inr es'" by (rule init_constraints_cases)
    note x = check_ext [OF a(1) Cons(5,6) t(1) e(1-4)]
    have ae: "ext a es4" by (rule ext_trans [OF Cons(5) x(7)])
    have x4: "ext es4 es'" by (rule init_constraints_ext [OF Cons(2) a(1) e(5) ae x(8)])
    have cd: "code P es es4 Map.empty" "code P es4 es' Map.empty" using Cons(7) code_trans [OF x(7) x4] by auto
    show ?thesis unfolding list.map t(2) option.map sem_constraints_check
      by (rule sim_bind [OF check_run [OF a(1) Cons(5,6) t(1) e(1-4) ext_trans [OF x4 a(2)] a(3,4) cd(1) Cons(8,9) ro]])
        (use Cons(3) [OF e(5) ae x(8) cd(2)] in auto)
  qed
qed

lemma correct_init_coerce_to_domain:
  assumes t: "correct fe t m" and cons: "list_all2 (con_ok fe) cons ms"
  shows "correct fe (init_coerce_to_domain ce ty t cons)
    (\<lambda>rd tv w. bindE (m rd tv w) (\<lambda>(v, w1).
       sem_constraints v (map (map_option (\<lambda>m. m rd (fst tv, make_ro_opt fe (ce_typ_varlena ce ty) v))) ms) w1))"
proof (rule correctI)
  fix r es es' assume "init_coerce_to_domain ce ty t cons r es = Inr es'" and pl: "place r es"
  then obtain es1 where e: "t r es = Inr es1" "init_constraints ce ty r None None cons es1 = Inr es'" by (auto simp: init_coerce_to_domain_def)
  have x: "ext es es1" by (rule correct_ext [OF t e(1) pl])
  show "ext es es'" by (rule ext_trans [OF x init_constraints_ext [OF cons pl e(2) x]]) (simp add: dom_places_def)
next
  fix r es es' P and s :: "'a rstate"
  assume "init_coerce_to_domain ce ty t cons r es = Inr es'" and pl: "place r es" and c: "code P es es' Map.empty" and h: "holds es' s"
  then obtain es1 where e: "t r es = Inr es1" "init_constraints ce ty r None None cons es1 = Inr es'" by (auto simp: init_coerce_to_domain_def)
  have x: "ext es es1" by (rule correct_ext [OF t e(1) pl])
  have dp: "dom_places es r es1 None None" by (simp add: dom_places_def)
  have x1: "ext es1 es'" by (rule init_constraints_ext [OF cons pl e(2) x dp])
  have cd: "code P es es1 Map.empty" "code P es1 es' Map.empty" using c code_trans [OF x x1] by auto
  show "sim fe P (len es) s (bindE (m (rd_of s) (tv_of fe es s) (world s)) (\<lambda>(v, w1).
       sem_constraints v (map (map_option (\<lambda>m. m (rd_of s) (fst (tv_of fe es s), make_ro_opt fe (ce_typ_varlena ce ty) v))) ms) w1))
      (len es') (done_at r (scope r es es') s)"
  proof (rule sim_bind [OF correct_part [OF t e(1) pl ext_refl x1 scope_self pl cd(1) refl h keep_refl]])
    fix y s1 assume d: "done_at r (scope r es es') s y s1"
    have "dom_values s1 r None (fst y) (make_ro_opt fe (ce_typ_varlena ce ty) (fst y))" using d by (simp add: done_at_def dom_values_def)
    from init_constraints_correct [OF cons pl ext_refl ext_trans [OF x x1] h refl e(2) x dp cd(2) _ this] d
    show "sim fe P (len es1) s1 (case y of (v, w1) \<Rightarrow> sem_constraints v (map (map_option (\<lambda>m. m (rd_of s) (fst (tv_of fe es s), make_ro_opt fe (ce_typ_varlena ce ty) v))) ms) w1)
        (len es') (done_at r (scope r es es') s)"
      by (simp add: done_at_def case_prod_beta')
  qed
qed

end
