(* ===== verification/ExprTheorem.thy ===== *)
theory ExprTheorem
  imports ExprRows
begin

text \<open>
  The translation of every well-formed expression is correct, and what follows for the entry points
  of the engine.
\<close>

section \<open>All node types\<close>

lemma correct_args: "(\<And>x. x \<in> set args \<Longrightarrow> correct fe (f x) (g x)) \<Longrightarrow> list_all2 (correct fe) (map f args) (map g args)"
  by (simp add: list_all2_map1 list_all2_map2 list.rel_refl_strong)

lemma arg_ok_args:
  assumes "\<And>x. x \<in> set args \<Longrightarrow> correct fe (ExecInitExprRec ce x) (sem fe ce x)"
  shows "list_all2 (arg_ok fe) (zip (map const_value args) (map (ExecInitExprRec ce) args)) (map (sem fe ce) args)"
proof -
  have "arg_ok fe (const_value x, ExecInitExprRec ce x) (sem fe ce x)" if "x \<in> set args" for x
    using assms [OF that] by (cases x) (simp_all add: arg_ok_def const_value_def)
  then show ?thesis by (induction args) auto
qed

lemma yields_func_step:
  assumes "fd_nargs fd = n" "fop = func_step_op ce f n"
  shows "yields r s (exec_func fe fop fd r s) (sem_funcexpr fe (fn_strict (ce_fmgr ce f)) (fd_oid fd) (fd_collation fd) (fcinfo_args fd s) (world s))"
proof (cases "fn_strict (ce_fmgr ce f) \<and> 0 < n")
  case True
  then show ?thesis using assms yields_funcexpr_strict [OF refl] by (auto simp: func_step_op_def Let_def)
next
  case False
  then have "sem_funcexpr fe (fn_strict (ce_fmgr ce f)) (fd_oid fd) (fd_collation fd) (fcinfo_args fd s) (world s) =
      sem_funcexpr fe False (fd_oid fd) (fd_collation fd) (fcinfo_args fd s) (world s)"
    using assms by (auto simp: sem_funcexpr_def fcinfo_args_def)
  then show ?thesis using False assms yields_funcexpr [OF refl] by (auto simp: func_step_op_def Let_def)
qed

lemma correct_func_args:
  assumes "\<And>x. x \<in> set args \<Longrightarrow> correct fe (ExecInitExprRec ce x) (sem fe ce x)"
    and "\<And>r s fd. fd_oid fd = f \<Longrightarrow> fd_collation fd = coll \<Longrightarrow> fd_nargs fd = length args \<Longrightarrow>
      yields r s (exec_func fe fop fd r s) (k (fcinfo_args fd s) (world s))"
  shows "correct fe (init_func ce fop f coll (zip (map const_value args) (map (ExecInitExprRec ce) args)))
    (\<lambda>rd tv w. bindE (sem_args (map (\<lambda>m. m rd tv) (map (sem fe ce) args)) w) (\<lambda>(vs, w1). k vs w1))"
  by (rule correct_init_func [OF arg_ok_args [OF assms(1)]]) (use assms(2) in auto)

lemma correct_funcexpr:
  assumes "\<And>x. x \<in> set args \<Longrightarrow> correct fe (ExecInitExprRec ce x) (sem fe ce x)"
  shows "correct fe (ExecInitExprRec ce (FuncExpr f coll args)) (sem fe ce (FuncExpr f coll args))"
  unfolding ExecInitExprRec.simps sem.simps
  by (rule correct_func_args [OF assms]) (auto intro: yields_func_step)

lemma correct_distinct:
  assumes "\<And>x. x \<in> set args \<Longrightarrow> correct fe (ExecInitExprRec ce x) (sem fe ce x)" "length args = 2"
  shows "correct fe (ExecInitExprRec ce (DistinctExpr f coll args)) (sem fe ce (DistinctExpr f coll args))"
  unfolding ExecInitExprRec.simps sem.simps
  by (rule correct_func_args [OF assms(1)]) (use assms(2) in \<open>auto intro: yields_distinct\<close>)

lemma correct_nullif:
  assumes "\<And>x. x \<in> set args \<Longrightarrow> correct fe (ExecInitExprRec ce x) (sem fe ce x)" "length args = 2"
  shows "correct fe (ExecInitExprRec ce (NullIfExpr f coll args)) (sem fe ce (NullIfExpr f coll args))"
  unfolding ExecInitExprRec.simps sem.simps
  by (rule correct_func_args [OF assms(1)]) (use assms(2) in \<open>auto intro: yields_nullif\<close>)

lemma correct_var: "correct fe (init_var varno varattno vartype) (sem_var fe varno varattno)"
proof -
  consider "varattno = 0" | "varattno < 0" | "0 < varattno" by linarith
  then show ?thesis
  proof cases
    case 1
    then show ?thesis by (simp add: correct_def init_var_def)
  next
    case 2
    show ?thesis by (rule correct_leaf [where st = "\<lambda>r es. SSysVar (slot_of_varno varno) varattno r"])
      (use 2 in \<open>auto simp: init_var_def sem_var_def ExecEvalSysVar_def intro!: yields_intros\<close>)
  next
    case 3
    show ?thesis by (rule correct_leaf [where st = "\<lambda>r es. SVar (slot_of_varno varno) (nat varattno - 1) vartype r"])
      (use 3 in \<open>auto simp: init_var_def sem_var_def exec_var_def rd_of_def intro!: yields_intros split: if_splits\<close>)
  qed
qed

lemma correct_push:
  assumes "\<And>r es s. place r es \<Longrightarrow> yields r s (exec_step fe (st r es) s) (m (rd_of s) (tv_of fe es s) (world s))"
  shows "correct fe (\<lambda>r es. Inr (ExprEvalPushStep (st r es) es)) m"
  by (rule correct_leaf [where st = st]) (use assms in auto)

lemma correct_boolean_test:
  assumes "correct fe t m"
  shows "correct fe (init_unary (\<lambda>r. ExprEvalPushStep (init_boolean_test bt r)) t) (\<lambda>rd tv w. bindE (m rd tv w) (\<lambda>(v, w1). Inr (sem_booltest bt v, w1)))"
proof (rule correct_unary [OF assms, where st = "\<lambda>r es. init_boolean_test bt r"])
  fix r es v and s :: "'a rstate" assume v: "nd (cells s r) = v"
  show "yields r s (exec_step fe (init_boolean_test bt r) s) (Inr (sem_booltest bt v, world s))"
    using yields_booltest [OF v, of bt] v
    by (cases bt) (auto simp: init_boolean_test_def sem_booltest_def sbool_def nd_None_iff intro!: yields_intros)
qed simp

lemma correct_testval:
  "correct fe (\<lambda>r es. Inr (ExprEvalPushStep (SCaseTestval (innermost_caseval es) r) es)) (\<lambda>rd tv w. Inr (fst tv, w))"
  "correct fe (\<lambda>r es. Inr (ExprEvalPushStep (SDomainTestval (innermost_domainval es) r) es)) (\<lambda>rd tv w. Inr (snd tv, w))"
  by (rule correct_push, auto simp: exec_testval_def tv_of_def split: option.splits intro!: yields_intros)+

lemma correct_ExecInitExprRec:
  shows "wf_expr e \<longrightarrow> correct fe (ExecInitExprRec ce e) (sem fe ce e)"
    and "wf_when w \<longrightarrow> when_ok fe (init_when ce w) (sem_when fe ce w)"
    and "wf_column c \<longrightarrow> column_ok fe ce (init_column ce c) (sem_column fe ce c)"
    and "wf_constraint k \<longrightarrow> con_ok fe (init_constraint ce k) (sem_constraint fe ce k)"
proof (induction e and w and c and k)
  case (Var varno varattno vartype)
  then show ?case by (simp add: correct_var)
next
  case (Const v n)
  then show ?case by (auto intro!: correct_push yields_intros)
next
  case (Param k i ty)
  then show ?case
    by (auto simp: init_param_def split: if_splits intro!: correct_leaf [where st = "\<lambda>r es. SParam k i ty r"] yields_param)
next
  case (Aggref n)
  then show ?case
    by (auto simp: init_aggref_def exec_aggref_def split: if_splits intro!: correct_leaf [where st = "\<lambda>r es. SAggref n r"] yields_intros)
next
  case (GroupingFunc cols)
  then show ?case
    by (auto simp: init_grouping_func_def ExecEvalGroupingFunc_def split: if_splits
        intro!: correct_leaf [where st = "\<lambda>r es. SGroupingFunc (if ce_grouping_sets ce then cols else []) r"] yields_intros)
next
  case (FuncExpr f coll args)
  then show ?case using correct_funcexpr [of args fe ce f coll] by (simp add: list_all_iff)
next
  case (OpExpr f coll args)
  then show ?case using correct_funcexpr [of args fe ce f coll] by (simp add: list_all_iff)
next
  case (DistinctExpr f coll args)
  then show ?case using correct_distinct [of args fe ce f coll] by (simp add: list_all_iff)
next
  case (NullIfExpr f coll args)
  then show ?case using correct_nullif [of args fe ce f coll] by (simp add: list_all_iff)
next
  case (ScalarArrayOpExpr f coll u a b)
  then show ?case by (simp add: correct_init_scalar_array)
next
  case (BoolExpr op args)
  then show ?case by (auto simp del: map_map simp: list_all_iff intro!: correct_init_bool correct_args)
next
  case (SubPlan n args)
  then show ?case
    by (auto simp: init_subplan_def ExecEvalSubPlan_def split: if_splits intro!: correct_leaf [where st = "\<lambda>r es. SSubPlan n r"] yields_call)
next
  case (AlternativeSubPlan n args)
  then show ?case
    by (auto simp: init_alternative_subplan_def ExecEvalAlternativeSubPlan_def split: if_splits
        intro!: correct_leaf [where st = "\<lambda>r es. SAlternativeSubPlan n r"] yields_call)
next
  case (RelabelType arg)
  then show ?case by simp
next
  case (CoerceViaIO arg ty)
  then show ?case
    by (cases "ce_input_func ce ty") (auto simp: init_io_coerce_def intro!: correct_unary yields_iocoerce)
next
  case (CaseExpr arg whens df)
  then show ?case
    by (auto simp del: map_map simp: list_all_iff list_all2_map1 list_all2_map2
case_arg_ok_def
        intro!: correct_init_case list.rel_refl_strong split: option.splits)
next
  case CaseTestExpr
  then show ?case by (simp add: correct_testval)
next
  case (RowCompareExpr rctype cols)
  then have "list_all2 (column_ok fe ce) (map (init_column ce) cols) (map (sem_column fe ce) cols)" if "wf_expr (RowCompareExpr rctype cols)"
    using that by (auto simp: list_all_iff list_all2_map1 list_all2_map2 intro!: list.rel_refl_strong)
  then show ?case using correct_init_row_compare [of fe ce "map (init_column ce) cols" "map (sem_column fe ce) cols" rctype]
    by (simp add: row_result_def column_at_def [abs_def] del: map_map)
next
  case (CoalesceExpr args)
  then show ?case by (auto simp del: map_map simp: list_all_iff intro!: correct_init_coalesce correct_args)
next
  case (MinMaxExpr opr ty coll args)
  then show ?case by (auto simp del: map_map simp: list_all_iff intro!: correct_init_min_max correct_args)
next
  case (SQLValueFunction n)
  then show ?case by (auto simp: exec_sql_value_function_def intro!: correct_push yields_call)
next
  case (NullTest t argisrow arg)
  then show ?case by (auto intro!: correct_unary yields_nulltest)
next
  case (BooleanTest t arg)
  then show ?case by (simp add: correct_boolean_test)
next
  case (CoerceToDomain arg ty constraints)
  then show ?case
    by (auto simp del: map_map simp: list_all_iff list_all2_map1 list_all2_map2
        intro!: correct_init_coerce_to_domain list.rel_refl_strong)
next
  case CoerceToDomainValue
  then show ?case by (simp add: correct_testval)
next
  case CurrentOfExpr
  then show ?case by (auto simp: ExecEvalCurrentOfExpr_def intro!: correct_push yields_intros)
next
  case (NextValueExpr seqid seqtypid)
  then show ?case by (auto intro!: correct_push yields_nextval)
next
  case (CaseWhen e result)
  then show ?case by (simp add: when_ok_def)
next
  case (RowCompareColumn l r opno opfamily coll)
  then show ?case by (simp add: column_ok_def)
next
  case (DOM_CONSTRAINT_NOTNULL name)
  then show ?case by (simp add: con_ok_def)
next
  case (DOM_CONSTRAINT_CHECK name e)
  then show ?case by (simp add: con_ok_def)
qed

end
