(* ===== verification/ExprFetch.thy ===== *)
theory ExprFetch
  imports ExprTheorem
begin

text \<open>
  The deforming steps (\<open>EEOP_*_FETCHSOME\<close>) in front of an expression make every attribute the
  expression reads valid.
\<close>

section \<open>The attributes of an expression\<close>

type_synonym bounds = "slot_kind \<Rightarrow> nat"

text \<open>All user attributes of \<open>e\<close> are within the bounds.\<close>

primrec covers :: "bounds \<Rightarrow> Expr \<Rightarrow> bool"
  and covers_when :: "bounds \<Rightarrow> CaseWhen \<Rightarrow> bool"
  and covers_column :: "bounds \<Rightarrow> RowCompareColumn \<Rightarrow> bool"
  and covers_constraint :: "bounds \<Rightarrow> DomainConstraint \<Rightarrow> bool" where
  "covers n (Var varno varattno vartype) = (varattno > 0 \<longrightarrow> nat varattno \<le> n (slot_of_varno varno))"
| "covers n (Const constvalue constisnull) = True"
| "covers n (Param paramkind paramid paramtype) = True"
| "covers n (Aggref aggno) = True"
| "covers n (GroupingFunc cols) = True"
| "covers n (FuncExpr funcid coll args) = list_all id (map (covers n) args)"
| "covers n (OpExpr opfuncid coll args) = list_all id (map (covers n) args)"
| "covers n (DistinctExpr opfuncid coll args) = list_all id (map (covers n) args)"
| "covers n (NullIfExpr opfuncid coll args) = list_all id (map (covers n) args)"
| "covers n (ScalarArrayOpExpr opfuncid coll useOr scalararg arrayarg) = (covers n scalararg \<and> covers n arrayarg)"
| "covers n (BoolExpr boolop args) = list_all id (map (covers n) args)"
| "covers n (SubPlan subplan args) = True"
| "covers n (AlternativeSubPlan asplan args) = True"
| "covers n (RelabelType arg) = covers n arg"
| "covers n (CoerceViaIO arg resulttype) = covers n arg"
| "covers n (CaseExpr arg args defresult) =
     ((case map_option (covers n) arg of None \<Rightarrow> True | Some b \<Rightarrow> b) \<and> list_all id (map (covers_when n) args) \<and> covers n defresult)"
| "covers n CaseTestExpr = True"
| "covers n (RowCompareExpr rctype cols) = list_all id (map (covers_column n) cols)"
| "covers n (CoalesceExpr args) = list_all id (map (covers n) args)"
| "covers n (MinMaxExpr opr minmaxtype coll args) = list_all id (map (covers n) args)"
| "covers n (SQLValueFunction svf) = True"
| "covers n (NullTest nulltesttype argisrow arg) = covers n arg"
| "covers n (BooleanTest booltesttype arg) = covers n arg"
| "covers n (CoerceToDomain arg resulttype constraints) = (covers n arg \<and> list_all id (map (covers_constraint n) constraints))"
| "covers n CoerceToDomainValue = True"
| "covers n CurrentOfExpr = True"
| "covers n (NextValueExpr seqid seqtypid) = True"
| "covers_when n (CaseWhen e result) = (covers n e \<and> covers n result)"
| "covers_column n (RowCompareColumn left_expr right_expr opno opfamily coll) = (covers n left_expr \<and> covers n right_expr)"
| "covers_constraint n (DOM_CONSTRAINT_NOTNULL name) = True"
| "covers_constraint n (DOM_CONSTRAINT_CHECK name check_expr) = covers n check_expr"

text \<open>Check constraints of a domain are about its value only and read no attribute.\<close>

primrec closed_checks :: "Expr \<Rightarrow> bool"
  and closed_when :: "CaseWhen \<Rightarrow> bool"
  and closed_column :: "RowCompareColumn \<Rightarrow> bool"
  and closed_constraint :: "DomainConstraint \<Rightarrow> bool" where
  "closed_checks (Var varno varattno vartype) = True"
| "closed_checks (Const constvalue constisnull) = True"
| "closed_checks (Param paramkind paramid paramtype) = True"
| "closed_checks (Aggref aggno) = True"
| "closed_checks (GroupingFunc cols) = True"
| "closed_checks (FuncExpr funcid coll args) = list_all id (map closed_checks args)"
| "closed_checks (OpExpr opfuncid coll args) = list_all id (map closed_checks args)"
| "closed_checks (DistinctExpr opfuncid coll args) = list_all id (map closed_checks args)"
| "closed_checks (NullIfExpr opfuncid coll args) = list_all id (map closed_checks args)"
| "closed_checks (ScalarArrayOpExpr opfuncid coll useOr scalararg arrayarg) = (closed_checks scalararg \<and> closed_checks arrayarg)"
| "closed_checks (BoolExpr boolop args) = list_all id (map closed_checks args)"
| "closed_checks (SubPlan subplan args) = True"
| "closed_checks (AlternativeSubPlan asplan args) = True"
| "closed_checks (RelabelType arg) = closed_checks arg"
| "closed_checks (CoerceViaIO arg resulttype) = closed_checks arg"
| "closed_checks (CaseExpr arg args defresult) =
     ((case map_option closed_checks arg of None \<Rightarrow> True | Some b \<Rightarrow> b) \<and> list_all id (map closed_when args) \<and> closed_checks defresult)"
| "closed_checks CaseTestExpr = True"
| "closed_checks (RowCompareExpr rctype cols) = list_all id (map closed_column cols)"
| "closed_checks (CoalesceExpr args) = list_all id (map closed_checks args)"
| "closed_checks (MinMaxExpr opr minmaxtype coll args) = list_all id (map closed_checks args)"
| "closed_checks (SQLValueFunction svf) = True"
| "closed_checks (NullTest nulltesttype argisrow arg) = closed_checks arg"
| "closed_checks (BooleanTest booltesttype arg) = closed_checks arg"
| "closed_checks (CoerceToDomain arg resulttype constraints) = (closed_checks arg \<and> list_all id (map closed_constraint constraints))"
| "closed_checks CoerceToDomainValue = True"
| "closed_checks CurrentOfExpr = True"
| "closed_checks (NextValueExpr seqid seqtypid) = True"
| "closed_when (CaseWhen e result) = (closed_checks e \<and> closed_checks result)"
| "closed_column (RowCompareColumn left_expr right_expr opno opfamily coll) = (closed_checks left_expr \<and> closed_checks right_expr)"
| "closed_constraint (DOM_CONSTRAINT_NOTNULL name) = True"
| "closed_constraint (DOM_CONSTRAINT_CHECK name check_expr) = covers (\<lambda>k. 0) check_expr"

section \<open>The walker finds them\<close>

definition bounds_of :: "LastAttnumInfo \<Rightarrow> bounds" where
  "bounds_of info k = nat (case k of INNER \<Rightarrow> last_inner info | OUTER \<Rightarrow> last_outer info | SCAN \<Rightarrow> last_scan info)"

lemma covers_mono:
  shows "\<forall>m. covers n e \<longrightarrow> (\<forall>k. n k \<le> m k) \<longrightarrow> covers m e"
    and "\<forall>m. covers_when n w \<longrightarrow> (\<forall>k. n k \<le> m k) \<longrightarrow> covers_when m w"
    and "\<forall>m. covers_column n c \<longrightarrow> (\<forall>k. n k \<le> m k) \<longrightarrow> covers_column m c"
    and "\<forall>m. covers_constraint n d \<longrightarrow> (\<forall>k. n k \<le> m k) \<longrightarrow> covers_constraint m d"
  by (induction e and w and c and d) (auto simp: list_all_iff split: option.splits dest: order_trans)

definition le_info :: "LastAttnumInfo \<Rightarrow> LastAttnumInfo \<Rightarrow> bool" where
  "le_info a b \<longleftrightarrow> (\<forall>k. bounds_of a k \<le> bounds_of b k)"

lemma le_info_trans: "le_info a b \<Longrightarrow> le_info b c \<Longrightarrow> le_info a c"
  by (auto simp: le_info_def intro: order_trans)

lemma le_info_refl [simp]: "le_info a a"
  by (simp add: le_info_def)

definition upward :: "(LastAttnumInfo \<Rightarrow> bool) \<Rightarrow> bool" where
  "upward Q \<longleftrightarrow> (\<forall>a b. Q a \<longrightarrow> le_info a b \<longrightarrow> Q b)"

lemma upward_covers [simp]:
  "upward (\<lambda>a. covers (bounds_of a) e)" "upward (\<lambda>a. covers_when (bounds_of a) w)" "upward (\<lambda>a. covers_column (bounds_of a) c)"
  using covers_mono(1) [of _ e] covers_mono(2) [of _ w] covers_mono(3) [of _ c] by (simp_all add: upward_def le_info_def)

definition incr :: "(LastAttnumInfo \<Rightarrow> LastAttnumInfo) \<Rightarrow> bool" where
  "incr f \<longleftrightarrow> (\<forall>a. le_info a (f a))"

lemma incr_note_var: "incr (note_var varno attnum)"
  by (auto simp: incr_def le_info_def note_var_def bounds_of_def split: slot_kind.splits)

lemma incr_walk_all: "(\<And>f. f \<in> set fs \<Longrightarrow> incr f) \<Longrightarrow> incr (walk_all fs)"
  by (induction fs) (auto simp: incr_def intro: le_info_trans)

lemma incrD: "incr f \<Longrightarrow> le_info a b \<Longrightarrow> le_info a (f b)"
  by (auto simp: incr_def intro: le_info_trans)

lemma incr_ident: "incr (\<lambda>info. info)"
  by (simp add: incr_def)

lemma incr_comp: "incr f \<Longrightarrow> incr g \<Longrightarrow> incr (\<lambda>info. g (f info))"
  by (auto simp: incr_def intro: le_info_trans)

lemma incr_walk_map: "(\<And>x. x \<in> set xs \<Longrightarrow> incr (f x)) \<Longrightarrow> incr (walk_all (map f xs))"
  by (rule incr_walk_all) auto

lemma walker_incr:
  shows "incr (get_last_attnums_walker e)" and "incr (walk_when w)" and "incr (walk_column c)" and "incr (walk_constraint d)"
proof (induction e and w and c and d)
  case (CaseExpr arg whens df)
  let ?f = "\<lambda>a. case map_option get_last_attnums_walker arg of None \<Rightarrow> a | Some w \<Rightarrow> w a"
  have f: "le_info a (?f a)" for a using CaseExpr(1) by (cases arg) (auto simp: incr_def)
  have i: "incr (walk_all (map walk_when whens))" using CaseExpr(2) by (auto intro!: incr_walk_all)
  have "le_info a (get_last_attnums_walker df (walk_all (map walk_when whens) (?f a)))" for a
    by (rule incrD [OF CaseExpr(3) incrD [OF i f]])
  then show ?case by (simp add: incr_def)
next
  case (ScalarArrayOpExpr f coll useOr x y)
  then show ?case using incr_comp [of "get_last_attnums_walker x" "get_last_attnums_walker y"] by simp
next
  case (CaseWhen x y)
  then show ?case using incr_comp [of "get_last_attnums_walker x" "get_last_attnums_walker y"] by simp
next
  case (RowCompareColumn x y opno opfamily coll)
  then show ?case using incr_comp [of "get_last_attnums_walker x" "get_last_attnums_walker y"] by simp
qed (simp_all add: incr_note_var incr_ident incr_walk_map)

lemma after: "upward Q \<Longrightarrow> incr g \<Longrightarrow> Q a \<Longrightarrow> Q (g a)"
  by (auto simp: upward_def incr_def)

lemma walk_all_reach:
  assumes "\<And>y. y \<in> set xs \<Longrightarrow> incr (f y)" "x \<in> set xs" "\<And>a. Q (f x a)" "upward Q"
  shows "Q (walk_all (map f xs) a)"
  using assms(1,2)
proof (induction xs arbitrary: a)
  case (Cons y ys)
  have "incr (walk_all (map f ys))" using Cons(2) by (auto intro!: incr_walk_all)
  then show ?case using Cons assms(3,4) after [of Q "walk_all (map f ys)" "f y a"] by auto
qed simp

lemma walker_after:
  "covers (bounds_of a) e \<Longrightarrow> covers (bounds_of (get_last_attnums_walker e' a)) e"
  "covers_when (bounds_of a) w \<Longrightarrow> covers_when (bounds_of (get_last_attnums_walker e' a)) w"
  using after [OF upward_covers(1) walker_incr(1), of a e e'] after [OF upward_covers(2) walker_incr(1), of a w e'] by auto

lemma walk_all_covers:
  assumes "\<And>x. x \<in> set xs \<Longrightarrow> \<forall>a. covers (bounds_of (get_last_attnums_walker x a)) x" "x \<in> set xs"
  shows "covers (bounds_of (walk_all (map get_last_attnums_walker xs) a)) x"
  by (rule walk_all_reach [where Q = "\<lambda>a. covers (bounds_of a) x", OF walker_incr(1) assms(2)])
    (use assms in auto)

lemma walk_list_covers:
  assumes "\<And>x. x \<in> set xs \<Longrightarrow> closed_checks x \<longrightarrow> (\<forall>a. covers (bounds_of (get_last_attnums_walker x a)) x)" "list_all id (map closed_checks xs)"
  shows "list_all id (map (covers (bounds_of (walk_all (map get_last_attnums_walker xs) a))) xs)"
proof -
  have "\<forall>a. covers (bounds_of (get_last_attnums_walker x a)) x" if "x \<in> set xs" for x using assms that by (simp add: list_all_iff)
  then show ?thesis using walk_all_covers [of xs _ a] by (simp add: list_all_iff)
qed

lemma walker_covers:
  shows "closed_checks e \<longrightarrow> (\<forall>a. covers (bounds_of (get_last_attnums_walker e a)) e)"
    and "closed_when w \<longrightarrow> (\<forall>a. covers_when (bounds_of (walk_when w a)) w)"
    and "closed_column c \<longrightarrow> (\<forall>a. covers_column (bounds_of (walk_column c a)) c)"
    and "closed_constraint d \<longrightarrow> (\<forall>a. covers_constraint (bounds_of a) d)"
proof (induction e and w and c and d)
  case (Var varno varattno vartype)
  then show ?case by (auto simp: note_var_def bounds_of_def split: slot_kind.splits)
next
  case (CaseExpr arg whens df)
  have i: "incr (walk_all (map walk_when whens))" by (auto intro!: incr_walk_all walker_incr)
  show ?case
  proof (intro impI allI)
    fix a assume c: "closed_checks (CaseExpr arg whens df)"
    let ?a1 = "case map_option get_last_attnums_walker arg of None \<Rightarrow> a | Some w \<Rightarrow> w a" and ?a2 = "walk_all (map walk_when whens)"
    have "covers_when (bounds_of (?a2 ?a1)) x" if "x \<in> set whens" for x
      by (rule walk_all_reach [where Q = "\<lambda>a. covers_when (bounds_of a) x", OF walker_incr(2) that])
        (use CaseExpr(2) [OF that] c that in \<open>auto simp: list_all_iff\<close>)
    moreover have "covers (bounds_of (?a2 ?a1)) x" if "arg = Some x" for x
      using after [OF upward_covers(1) i, of ?a1 x] CaseExpr(1) c that by auto
    ultimately show "covers (bounds_of (get_last_attnums_walker (CaseExpr arg whens df) a)) (CaseExpr arg whens df)"
      using CaseExpr(3) c walker_after [where a = "?a2 ?a1" and e' = df] by (auto simp: list_all_iff split: option.splits)
  qed
next
  case (RowCompareExpr rctype cols)
  have "covers_column (bounds_of (walk_all (map walk_column cols) a)) x" if "x \<in> set cols" "closed_column x" for a x
    by (rule walk_all_reach [where Q = "\<lambda>a. covers_column (bounds_of a) x", OF walker_incr(3) that(1)])
      (use RowCompareExpr [OF that(1)] that(2) in auto)
  then show ?case by (simp add: list_all_iff)
next
  case (DOM_CONSTRAINT_CHECK name e)
  show ?case using covers_mono(1) [of "\<lambda>k. 0" e] by simp
next
  case (ScalarArrayOpExpr f coll useOr x y)
  then show ?case using walker_after(1) [of _ x y] by simp
next
  case (CaseWhen x y)
  then show ?case using walker_after(1) [of _ x y] by simp
next
  case (RowCompareColumn x y opno opfamily coll)
  then show ?case using walker_after(1) [of _ x y] by simp
next
  case (FuncExpr f coll args)
  then show ?case using walk_list_covers [of args] by simp
next
  case (OpExpr f coll args)
  then show ?case using walk_list_covers [of args] by simp
next
  case (DistinctExpr f coll args)
  then show ?case using walk_list_covers [of args] by simp
next
  case (NullIfExpr f coll args)
  then show ?case using walk_list_covers [of args] by simp
next
  case (BoolExpr boolop args)
  then show ?case using walk_list_covers [of args] by simp
next
  case (CoalesceExpr args)
  then show ?case using walk_list_covers [of args] by simp
next
  case (MinMaxExpr opr ty coll args)
  then show ?case using walk_list_covers [of args] by simp
next
  case (CoerceToDomain arg ty cons)
  then show ?case by (simp add: list_all_iff)
qed simp_all

section \<open>The meaning depends on these attributes only\<close>

definition agree :: "bounds \<Rightarrow> reader \<Rightarrow> reader \<Rightarrow> bool" where
  "agree n rd rd' \<longleftrightarrow> (\<forall>k i. i < n k \<longrightarrow> rd k i = rd' k i)"

lemma sem_list_agree:
  assumes "\<And>x. x \<in> set xs \<Longrightarrow> covers n x \<longrightarrow> sem fe ce x rd = sem fe ce x rd'" "list_all id (map (covers n) xs)"
  shows "map (\<lambda>m. m rd tv) (map (sem fe ce) xs) = map (\<lambda>m. m rd' tv) (map (sem fe ce) xs)"
  using assms by (simp add: list_all_iff)

lemma sem_agree:
  assumes "agree n rd rd'"
  shows "covers n e \<longrightarrow> sem fe ce e rd = sem fe ce e rd'"
    and "covers_when n w \<longrightarrow> fst (sem_when fe ce w) rd = fst (sem_when fe ce w) rd' \<and> snd (sem_when fe ce w) rd = snd (sem_when fe ce w) rd'"
    and "covers_column n c \<longrightarrow> (\<forall>tv. column_at rd tv (sem_column fe ce c) = column_at rd' tv (sem_column fe ce c))"
    and "covers_constraint n d \<longrightarrow> (\<forall>tv. map_option (\<lambda>m. m rd tv) (sem_constraint fe ce d) = map_option (\<lambda>m. m rd' tv) (sem_constraint fe ce d))"
proof (induction e and w and c and d)
  case (Var varno varattno vartype)
  then show ?case using assms by (auto simp: fun_eq_iff sem_var_def agree_def)
next
  case (FuncExpr f coll args)
  note eq = sem_list_agree [OF FuncExpr]
  show ?case unfolding covers.simps sem.simps by (rule impI) (simp only: eq)
next
  case (OpExpr f coll args)
  note eq = sem_list_agree [OF OpExpr]
  show ?case unfolding covers.simps sem.simps by (rule impI) (simp only: eq)
next
  case (DistinctExpr f coll args)
  note eq = sem_list_agree [OF DistinctExpr]
  show ?case unfolding covers.simps sem.simps by (rule impI) (simp only: eq)
next
  case (NullIfExpr f coll args)
  note eq = sem_list_agree [OF NullIfExpr]
  show ?case unfolding covers.simps sem.simps by (rule impI) (simp only: eq)
next
  case (BoolExpr boolop args)
  note eq = sem_list_agree [OF BoolExpr]
  show ?case unfolding covers.simps sem.simps by (rule impI) (simp only: eq)
next
  case (CoalesceExpr args)
  note eq = sem_list_agree [OF CoalesceExpr]
  show ?case unfolding covers.simps sem.simps by (rule impI) (simp only: eq)
next
  case (MinMaxExpr opr ty coll args)
  note eq = sem_list_agree [OF MinMaxExpr]
  show ?case unfolding covers.simps sem.simps by (rule impI) (simp only: eq)
next
  case (CaseExpr arg whens df)
  show ?case
  proof
    assume c: "covers n (CaseExpr arg whens df)"
    have w: "map (\<lambda>(c, m). (c rd (cv, snd tv), m rd tv)) (map (sem_when fe ce) whens) = map (\<lambda>(c, m). (c rd' (cv, snd tv), m rd' tv)) (map (sem_when fe ce) whens)" for cv tv
      using CaseExpr(2) c by (auto simp: list_all_iff case_prod_beta')
    have d: "sem fe ce df rd = sem fe ce df rd'" using CaseExpr(3) c by simp
    have "arg = Some x \<Longrightarrow> sem fe ce x rd = sem fe ce x rd'" for x using CaseExpr(1) [of x] c by auto
    then show "sem fe ce (CaseExpr arg whens df) rd = sem fe ce (CaseExpr arg whens df) rd'"
      unfolding sem.simps sem_case_def [abs_def] w d by (cases arg) simp_all
  qed
next
  case (RowCompareExpr rctype cols)
  then have eq: "map (column_at rd tv) (map (sem_column fe ce) cols) = map (column_at rd' tv) (map (sem_column fe ce) cols)"
    if "covers n (RowCompareExpr rctype cols)" for tv
    using that by (cases tv) (auto simp: list_all_iff)
  show ?case unfolding sem.simps by (rule impI) (simp only: eq [unfolded column_at_def])
next
  case (CoerceToDomain arg ty cons)
  then have eq: "map (map_option (\<lambda>m. m rd tv)) (map (sem_constraint fe ce) cons) = map (map_option (\<lambda>m. m rd' tv)) (map (sem_constraint fe ce) cons)"
    if "covers n (CoerceToDomain arg ty cons)" for tv
    using that by (cases tv) (auto simp: list_all_iff)
  have "covers n arg \<Longrightarrow> sem fe ce arg rd = sem fe ce arg rd'" using CoerceToDomain(1) by simp
  then show ?case unfolding sem.simps by (intro impI) (simp only: eq covers.simps)
qed (simp_all add: column_at_def)

section \<open>Deforming\<close>

text \<open>The attribute \<open>i\<close> of a slot, whether or not it has been deformed yet.\<close>

definition slot_attr :: "TupleTableSlot \<Rightarrow> nat \<Rightarrow> NullableDatum" where
  "slot_attr slot i =
     (if i < tts_nvalid slot then tts_values slot i
      else if i < length (tts_tuple slot) then tts_tuple slot ! i
      else case tts_missing slot of None \<Rightarrow> (0, True) | Some m \<Rightarrow> m i)"

text \<open>A slot from which \<open>n\<close> attributes can be had.\<close>

definition slot_provides :: "TupleTableSlot \<Rightarrow> nat \<Rightarrow> bool" where
  "slot_provides slot n \<longleftrightarrow> n \<le> length (tts_attrs slot) \<and> (tts_virtual slot \<longrightarrow> n \<le> tts_nvalid slot)"

lemma slot_getsomeattrs_ok:
  assumes "slot_provides slot n"
  obtains slot' where "slot_getsomeattrs slot n = Inr slot'" "n \<le> tts_nvalid slot'"
    "\<forall>i < tts_nvalid slot'. tts_values slot' i = slot_attr slot i"
proof (cases "tts_nvalid slot < n")
  case False
  then show thesis using that [of slot] by (simp add: slot_getsomeattrs_def slot_attr_def)
next
  case True
  define m where "m = min n (length (tts_tuple slot))"
  define s1 where "s1 = slot\<lparr>tts_values := (\<lambda>i. if tts_nvalid slot \<le> i \<and> i < m then tts_tuple slot ! i else tts_values slot i),
                  tts_nvalid := max (tts_nvalid slot) m\<rparr>"
  have g: "getsomeattrs slot n = Inr s1" using assms True by (auto simp: getsomeattrs_def slot_provides_def s1_def m_def Let_def)
  have int: "slot_getsomeattrs slot n =
      (if tts_nvalid s1 < n then Inr ((slot_getmissingattrs s1 (tts_nvalid s1) n)\<lparr>tts_nvalid := n\<rparr>) else Inr s1)"
    using g True assms by (simp add: slot_getsomeattrs_def slot_getsomeattrs_int_def slot_provides_def)
  have v: "tts_nvalid s1 = max (tts_nvalid slot) m" "m \<le> length (tts_tuple slot)" "m < n \<Longrightarrow> m = length (tts_tuple slot)"
    "tts_missing s1 = tts_missing slot"
    "tts_values s1 i = (if tts_nvalid slot \<le> i \<and> i < m then tts_tuple slot ! i else tts_values slot i)" for i
    by (auto simp: s1_def m_def)
  show thesis
  proof (cases "tts_nvalid s1 < n")
    case True
    let ?s2 = "(slot_getmissingattrs s1 (tts_nvalid s1) n)\<lparr>tts_nvalid := n\<rparr>"
    show thesis by (rule that [of ?s2]) (use True int v in \<open>auto simp: slot_getmissingattrs_def slot_attr_def\<close>)
  next
    case False
    show thesis by (rule that [of s1]) (use False int v in \<open>auto simp: slot_attr_def\<close>)
  qed
qed

end
