(* ===== verification/ExprEntry.thy ===== *)
theory ExprEntry
  imports ExprFetch
begin

text \<open>
  The entry points \<open>ExecInitExpr\<close>, \<open>ExecInitQual\<close>, \<open>ExecInitCheck\<close> and
  \<open>ExecBuildProjectionInfo\<close> with the interpreter: for every well-formed input, from any memory
  that has the preloaded constants, and for slots that provide the attributes, the run ends and
  gives the meaning of the expression.
\<close>

section \<open>Deforming steps\<close>

definition attrs_of :: "(slot_kind \<Rightarrow> TupleTableSlot) \<Rightarrow> reader" where
  "attrs_of sl k i = Inr (slot_attr (sl k) i)"

definition fetched :: "TupleTableSlot \<Rightarrow> nat \<Rightarrow> TupleTableSlot \<Rightarrow> bool" where
  "fetched slot n slot' \<longleftrightarrow> n \<le> tts_nvalid slot' \<and> (\<forall>i < tts_nvalid slot'. tts_values slot' i = slot_attr slot i)"

definition slot_ready :: "(slot_kind \<Rightarrow> slot_info) option \<Rightarrow> slot_kind \<Rightarrow> nat \<Rightarrow> TupleTableSlot \<Rightarrow> bool" where
  "slot_ready parent k n slot \<longleftrightarrow> slot_provides slot n \<and> (\<not> ExecComputeSlotInfo parent k \<longrightarrow> n \<le> tts_nvalid slot)"

lemma push_fetch_ext: "ext es (push_fetch parent k n es)"
  by (simp add: push_fetch_def)

lemma push_fetch_run:
  assumes "code P es (push_fetch parent k n es) Map.empty" "slot_ready parent k (nat n) (slots s k)"
  obtains slot' where "fetched (slots s k) (nat n) slot'"
    "run fe P (int (len es)) s = run fe P (int (len (push_fetch parent k n es))) (s\<lparr>slots := (slots s)(k := slot')\<rparr>)"
proof (cases "n > 0 \<and> ExecComputeSlotInfo parent k")
  case False
  then have "fetched (slots s k) (nat n) (slots s k)" using assms(2) by (auto simp: slot_ready_def fetched_def slot_attr_def)
  then show thesis by (rule that) (use False in \<open>auto simp: push_fetch_def\<close>)
next
  case True
  then have e: "push_fetch parent k n es = ExprEvalPushStep (SFetchsome k (nat n)) es" by (simp add: push_fetch_def)
  have p: "len es < length P" "P ! len es = SFetchsome k (nat n)" using assms(1) e by auto
  have "slot_provides (slots s k) (nat n)" using assms(2) by (simp add: slot_ready_def)
  then obtain slot' where g: "slot_getsomeattrs (slots s k) (nat n) = Inr slot'" "nat n \<le> tts_nvalid slot'"
    "\<forall>i < tts_nvalid slot'. tts_values slot' i = slot_attr (slots s k) i" by (rule slot_getsomeattrs_ok)
  have f: "fetched (slots s k) (nat n) slot'" using g(2,3) by (simp add: fetched_def)
  have ex: "exec_step fe (P ! len es) s = Inr (Next, s\<lparr>slots := (slots s)(k := slot')\<rparr>)" using p(2) g(1) by (simp add: exec_fetchsome_def)
  show thesis by (rule that [OF f]) (use run_step(2) [OF p(1) ex] e in simp)
qed

definition slots_ready :: "(slot_kind \<Rightarrow> slot_info) option \<Rightarrow> bounds \<Rightarrow> (slot_kind \<Rightarrow> TupleTableSlot) \<Rightarrow> bool" where
  "slots_ready parent n sl \<longleftrightarrow> (\<forall>k. slot_ready parent k (n k) (sl k))"

definition expr_bounds :: "Expr list \<Rightarrow> bounds" where
  "expr_bounds nodes = bounds_of (fold get_last_attnums_walker nodes \<lparr>last_inner = 0, last_outer = 0, last_scan = 0\<rparr>)"

lemma ext_slots: "ext es (ExecInitExprSlots parent nodes es)"
  unfolding ExecInitExprSlots_def ExecPushExprSlots_def by (blast intro: ext_trans push_fetch_ext)

lemma slots_run:
  assumes c: "code P es (ExecInitExprSlots parent nodes es) Map.empty" and r: "slots_ready parent (expr_bounds nodes) (slots s)"
  shows "sim fe P (len es) s (Inr ()) (len (ExecInitExprSlots parent nodes es))
    (\<lambda>_ s'. (\<exists>sl. s' = s\<lparr>slots := sl\<rparr> \<and> agree (expr_bounds nodes) (rd_of s') (attrs_of (slots s))))"
proof -
  define info where "info = fold get_last_attnums_walker nodes \<lparr>last_inner = 0, last_outer = 0, last_scan = 0\<rparr>"
  define e1 where "e1 = push_fetch parent INNER (last_inner info) es"
  define e2 where "e2 = push_fetch parent OUTER (last_outer info) e1"
  have e: "ExecInitExprSlots parent nodes es = push_fetch parent SCAN (last_scan info) e2"
    by (simp add: ExecInitExprSlots_def ExecPushExprSlots_def info_def e1_def e2_def)
  have x: "ext es e1" "ext e1 e2" "ext e2 (push_fetch parent SCAN (last_scan info) e2)"
    unfolding e1_def e2_def by (rule push_fetch_ext)+
  have cd: "code P es e1 Map.empty" "code P e1 e2 Map.empty" "code P e2 (push_fetch parent SCAN (last_scan info) e2) Map.empty"
    using c code_trans [OF x(1) ext_trans [OF x(2,3)]] code_trans [OF x(2,3)] unfolding e by auto
  have rk: "slot_ready parent k (expr_bounds nodes k) (slots s k)" for k using r by (simp add: slots_ready_def)
  have b: "slot_ready parent INNER (nat (last_inner info)) (slots s INNER)" "slot_ready parent OUTER (nat (last_outer info)) (slots s OUTER)"
    "slot_ready parent SCAN (nat (last_scan info)) (slots s SCAN)"
    using rk [of INNER] rk [of OUTER] rk [of SCAN] by (simp_all add: expr_bounds_def bounds_of_def info_def)
  from push_fetch_run [OF cd(1) [unfolded e1_def] b(1), of fe, folded e1_def] obtain i where i:
    "fetched (slots s INNER) (nat (last_inner info)) i"
    "run fe P (int (len es)) s = run fe P (int (len e1)) (s\<lparr>slots := (slots s)(INNER := i)\<rparr>)" .
  define s1 where "s1 = s\<lparr>slots := (slots s)(INNER := i)\<rparr>"
  have b2: "slot_ready parent OUTER (nat (last_outer info)) (slots s1 OUTER)" using b(2) by (simp add: s1_def)
  from push_fetch_run [OF cd(2) [unfolded e2_def] b2, of fe, folded e2_def] obtain j where j:
    "fetched (slots s1 OUTER) (nat (last_outer info)) j"
    "run fe P (int (len e1)) s1 = run fe P (int (len e2)) (s1\<lparr>slots := (slots s1)(OUTER := j)\<rparr>)" .
  define s2 where "s2 = s1\<lparr>slots := (slots s1)(OUTER := j)\<rparr>"
  have b3: "slot_ready parent SCAN (nat (last_scan info)) (slots s2 SCAN)" using b(3) by (simp add: s2_def s1_def)
  from push_fetch_run [OF cd(3) b3, of fe] obtain k where k: "fetched (slots s2 SCAN) (nat (last_scan info)) k"
    "run fe P (int (len e2)) s2 = run fe P (int (len (push_fetch parent SCAN (last_scan info) e2))) (s2\<lparr>slots := (slots s2)(SCAN := k)\<rparr>)" .
  define s3 where "s3 = s2\<lparr>slots := (slots s2)(SCAN := k)\<rparr>"
  have f: "fetched (slots s INNER) (nat (last_inner info)) (slots s3 INNER)" "fetched (slots s OUTER) (nat (last_outer info)) (slots s3 OUTER)"
    "fetched (slots s SCAN) (nat (last_scan info)) (slots s3 SCAN)"
    using i(1) j(1) k(1) by (simp_all add: s1_def s2_def s3_def)
  have "agree (expr_bounds nodes) (rd_of s3) (attrs_of (slots s))"
    unfolding agree_def
  proof (intro allI impI)
    fix q n assume "n < expr_bounds nodes q"
    then show "rd_of s3 q n = attrs_of (slots s) q n" using f
      by (cases q) (auto simp: expr_bounds_def bounds_of_def info_def [symmetric] rd_of_def slot_value_def attrs_of_def fetched_def)
  qed
  moreover have "s3 = s\<lparr>slots := slots s3\<rparr>" by (simp add: s1_def s2_def s3_def)
  moreover have "run fe P (int (len es)) s = run fe P (int (len (ExecInitExprSlots parent nodes es))) s3"
    using i(2) j(2) k(2) by (simp add: e s1_def [symmetric] s2_def [symmetric] s3_def [symmetric])
  ultimately show ?thesis unfolding sim_def by (simp del: rstate.surjective) blast
qed

lemma fold_walk_all: "fold f xs a = walk_all (map f xs) a"
  by (induction xs arbitrary: a) simp_all

lemma expr_bounds_covers: "list_all closed_checks nodes \<Longrightarrow> e \<in> set nodes \<Longrightarrow> covers (expr_bounds nodes) e"
  unfolding expr_bounds_def fold_walk_all
  by (rule walk_all_covers) (auto simp: list_all_iff walker_covers)

section \<open>Single expressions\<close>

lemma place_start: "place RES (ExecInitExprSlots parent nodes new_ExprState)"
  by (rule place_ext [OF _ ext_slots]) (simp add: place_def new_ExprState_def precells_def)

lemma code_self: "es' = ExprEvalPushStep SDone es \<Longrightarrow> code (steps es') new_ExprState es Map.empty"
  by (auto simp: code_def nth_append)

lemma new_len: "len new_ExprState = 0"
  by (simp add: new_ExprState_def)

definition start_tv :: "'w fenv \<Rightarrow> testvals" where
  "start_tv fe = (nd (fe_caseValue fe), nd (fe_domainValue fe))"

lemma tv_start: "ext new_ExprState es \<Longrightarrow> tv_of fe es s = start_tv fe"
  using extD(3,4) [of new_ExprState es] by (simp add: tv_of_def start_tv_def new_ExprState_def)

text \<open>What a run of a whole program gives: the outcome \<open>R\<close> and a final state as \<open>Q\<close> says.\<close>

definition ends :: "'w fenv \<Rightarrow> ExprEvalStep list \<Rightarrow> 'w rstate \<Rightarrow> 'x eres \<Rightarrow> ('x \<Rightarrow> 'w rstate \<Rightarrow> bool) \<Rightarrow> bool" where
  "ends fe P s R Q \<longleftrightarrow>
     (case R of Inl e \<Rightarrow> run fe P 0 s = Some (Inl e) | Inr x \<Rightarrow> \<exists>s'. run fe P 0 s = Some (Inr s') \<and> Q x s')"

lemma sim_ends:
  assumes "sim fe P 0 s R a Q" "a < length P" "P ! a = SDone"
  shows "ends fe P s R Q"
proof (cases R)
  case (Inr x)
  then obtain s' where s': "run fe P 0 s = run fe P (int a) s'" "Q x s'" using assms(1) by (auto simp: sim_def)
  have "run fe P (int a) s' = Some (Inr s')" by (rule run_step(4) [OF assms(2)]) (simp add: assms(3))
  then show ?thesis using s' Inr by (simp add: ends_def)
qed (use assms(1) in \<open>simp add: sim_def ends_def\<close>)

lemma ends_ExecInterpExpr:
  assumes "ends fe P s R Q"
  shows "case R of Inl e \<Rightarrow> ExecInterpExpr fe P s = Some (Inl e)
    | Inr x \<Rightarrow> \<exists>s'. ExecInterpExpr fe P s = Some (Inr (cells s' RES, s')) \<and> Q x s'"
  using assms by (auto simp: ends_def ExecInterpExpr_def split: sum.splits)

text \<open>The expression after its deforming steps.\<close>

lemma after_slots:
  assumes c: "code P new_ExprState (ExecInitExprSlots parent nodes new_ExprState) Map.empty"
    and r: "slots_ready parent (expr_bounds nodes) (slots s)"
    and k: "\<And>s'. cells s' = cells s \<Longrightarrow> world s' = world s \<Longrightarrow> resultslot s' = resultslot s \<Longrightarrow>
      agree (expr_bounds nodes) (rd_of s') (attrs_of (slots s)) \<Longrightarrow>
      sim fe P (len (ExecInitExprSlots parent nodes new_ExprState)) s' R b Q"
  shows "sim fe P 0 s R b Q"
proof -
  have "sim fe P 0 s (bindE (Inr ()) (\<lambda>_. R)) b Q"
    by (rule sim_bind [OF slots_run [OF c r, unfolded new_len]]) (auto intro!: k)
  then show ?thesis by simp
qed

lemma ExecInitExpr_steps:
  assumes "ExecInitExpr ce parent (Some e) = Inr (Some es)"
  obtains es1 where "ExecInitExprRec ce e RES (ExecInitExprSlots parent [e] new_ExprState) = Inr es1" "es = ExprEvalPushStep SDone es1"
  using assms by (auto simp: ExecInitExpr_def)

lemma ExecInitExpr_ends:
  assumes i: "ExecInitExpr ce parent (Some e) = Inr (Some es)" and wf: "wf_expr e" "closed_checks e"
    and s: "slots_ready parent (expr_bounds [e]) (slots s)" "holds es s"
  shows "ends fe (steps es) s (sem fe ce e (attrs_of (slots s)) (start_tv fe) (world s))
    (\<lambda>x s'. nd (cells s' RES) = fst x \<and> world s' = snd x \<and> holds es s')"
proof -
  let ?es0 = "ExecInitExprSlots parent [e] new_ExprState"
  obtain es1 where e: "ExecInitExprRec ce e RES ?es0 = Inr es1" "es = ExprEvalPushStep SDone es1" using i by (rule ExecInitExpr_steps)
  have cor: "correct fe (ExecInitExprRec ce e) (sem fe ce e)" using correct_ExecInitExprRec(1) wf by blast
  have x0: "ext new_ExprState ?es0" by (rule ext_slots)
  have x1: "ext ?es0 es1" by (rule correct_ext [OF cor e(1) place_start])
  have cd: "code (steps es) new_ExprState ?es0 Map.empty" "code (steps es) ?es0 es1 Map.empty"
    using code_self [OF e(2)] code_trans [OF x0 x1] by auto
  have cov: "covers (expr_bounds [e]) e" by (rule expr_bounds_covers) (use wf in simp_all)
  have h: "holds es s' = holds es1 s'" for s' by (simp add: holds_def e(2))
  show ?thesis
  proof (rule sim_ends [OF after_slots [OF cd(1) s(1)]])
    fix s' assume a: "cells s' = cells s" "world s' = world s" "agree (expr_bounds [e]) (rd_of s') (attrs_of (slots s))"
    have h1: "holds es1 s'" using s(2) a(1) unfolding h by (simp add: holds_def)
    have "sim fe (steps es) (len ?es0) s' (sem fe ce e (rd_of s') (tv_of fe ?es0 s') (world s')) (len es1) (done_at RES (scope RES ?es0 es1) s')"
      using cor e(1) place_start cd(2) h1 unfolding correct_def by blast
    then show "sim fe (steps es) (len ?es0) s' (sem fe ce e (attrs_of (slots s)) (start_tv fe) (world s)) (len es1)
        (\<lambda>x s'. nd (cells s' RES) = fst x \<and> world s' = snd x \<and> holds es s')"
      unfolding tv_start [OF x0] a(2) sem_agree(1) [OF a(3), rule_format, OF cov]
      by (rule sim_conseq) (auto simp: done_at_def h holds_scope [OF place_start x1 h1])
  qed (simp_all add: e(2))
qed

section \<open>Quals\<close>

text \<open>A qual list holds if every qual is true; evaluation stops at the first that is false or null.\<close>

fun sem_quals :: "('w \<Rightarrow> 'w answer) list \<Rightarrow> 'w \<Rightarrow> (bool \<times> 'w) eres" where
  "sem_quals [] w = Inr (True, w)"
| "sem_quals (m # ms) w = bindE (m w) (\<lambda>(v, w1). if istrue v then sem_quals ms w1 else Inr (False, w1))"

lemma init_quals_cases:
  assumes "init_quals (t # ts) es = Inr (es', js)"
  obtains es1 es2 js' where "t RES es = Inr es1" "es2 = ExprEvalPushStep (SQual (- 1) RES) es1"
    "init_quals ts es2 = Inr (es', js')" "js = len es1 # js'"
  using assms by (auto simp: Let_def)

lemma init_quals_ext:
  assumes "list_all2 (correct fe) ts ms" "init_quals ts es = Inr (es', js)" "place RES es"
  shows "ext es es' \<and> set js \<subseteq> {len es..<len es'}"
  using assms
proof (induction arbitrary: es js rule: list_all2_induct)
  case (Cons t ts m ms)
  from Cons(4) obtain es1 es2 js' where e: "t RES es = Inr es1" "es2 = ExprEvalPushStep (SQual (- 1) RES) es1"
    "init_quals ts es2 = Inr (es', js')" "js = len es1 # js'" by (rule init_quals_cases)
  have x1: "ext es es1" by (rule correct_ext [OF Cons(1) e(1) Cons(5)])
  have x2: "ext es es2" unfolding e(2) by (rule ext_trans [OF x1 ext_push])
  have ih: "ext es2 es'" "set js' \<subseteq> {len es2..<len es'}" using Cons(3) [OF e(3) place_ext [OF Cons(5) x2]] by auto
  have "len es \<le> len es1" "len es2 = Suc (len es1)" "len es2 \<le> len es'" using extD(1) [OF x1] extD(1) [OF ih(1)] e(2) by auto
  then show ?case using ext_trans [OF x2 ih(1)] ih(2) e(4) by auto
qed simp

definition qual_done :: "loc set \<Rightarrow> 'w rstate \<Rightarrow> bool \<times> 'w \<Rightarrow> 'w rstate \<Rightarrow> bool" where
  "qual_done W s x s' \<longleftrightarrow>
     \<not> snd (cells s' RES) \<and> DatumGetBool (fst (cells s' RES)) = fst x \<and> world s' = snd x \<and> keep W s s'"

lemma init_quals_correct:
  assumes "list_all2 (correct fe) ts ms" "init_quals ts es = Inr (es', js)" "ts \<noteq> [] \<or> istrue (nd (cells s RES))"
    and a: "place RES a" "ext es' d" "ext a d" "holds d s0"
    and "ext a es" "code P es es' (jmap js (len es'))" "keep (scope RES a d) s0 s"
  shows "sim fe P (len es) s (sem_quals (map (\<lambda>m. m (rd_of s0) (tv_of fe a s0)) ms) (world s)) (len es') (qual_done (scope RES a d) s0)"
  using assms(1-3,8-)
proof (induction arbitrary: es js s rule: list_all2_induct)
  case Nil then show ?case by (auto intro!: sim_ret simp: qual_done_def istrue_nd)
next
  case (Cons t ts m ms)
  let ?W = "scope RES a d" and ?m = "\<lambda>m. m (rd_of s0) (tv_of fe a s0)"
  from Cons(4) obtain es1 es2 js' where e: "t RES es = Inr es1" "es2 = ExprEvalPushStep (SQual (- 1) RES) es1"
    "init_quals ts es2 = Inr (es', js')" "js = len es1 # js'" by (rule init_quals_cases)
  have pl: "place RES es" by (rule place_ext [OF a(1) Cons(6)])
  have x1: "ext es es1" by (rule correct_ext [OF Cons(1) e(1) pl])
  have x2: "ext es es2" unfolding e(2) by (rule ext_trans [OF x1 ext_push])
  have x3: "ext es2 es'" "set js' \<subseteq> {len es2..<len es'}" using init_quals_ext [OF Cons(2) e(3) place_ext [OF pl x2]] by auto
  note c = code_open [OF x1 e(2) x3 Cons(7) [unfolded e(4)]]
  have x1d: "ext es1 d" using ext_trans [OF x3(1) a(2)] e(2) by (blast intro: ext_trans)
  have l: "len es2 = Suc (len es1)" by (simp add: e(2))
  have st: "P ! len es1 = SQual (int (len es')) RES" using c(3) by (simp add: set_jump_def)
  show ?case unfolding list.map sem_quals.simps
  proof (rule sim_bind [OF correct_part [OF Cons(1) e(1) pl Cons(6) x1d scope_self a(1) c(1) refl holds_scope [OF a(1,3,4) Cons(8)] Cons(8)]])
    fix x s1 assume d: "done_at RES ?W s0 x s1"
    then have k: "keep ?W s0 s1" "world s1 = snd x" "fst x = nd (cells s1 RES)" by (auto simp: done_at_def)
    show "sim fe P (len es1) s1 (case x of (v, w1) \<Rightarrow> if istrue v then sem_quals (map ?m ms) w1 else Inr (False, w1)) (len es') (qual_done ?W s0)"
    proof (cases "istrue (fst x)")
      case True
      have ex: "exec_step fe (P ! len es1) s1 = Inr (Next, s1)" using True st by (simp add: exec_qual_def k(3) istrue_nd)
      have "sim fe P (len es2) s1 (sem_quals (map ?m ms) (world s1)) (len es') (qual_done ?W s0)"
        by (rule Cons(3) [OF e(3) _ ext_trans [OF Cons(6) x2] c(4) k(1)]) (use True k(3) in simp)
      from sim_next [OF c(2) ex] this show ?thesis using True k(2) l by (simp add: case_prod_beta')
    next
      case False
      let ?s = "set_res RES (BoolGetDatum False, False) s1"
      have ex: "exec_step fe (P ! len es1) s1 = Inr (Goto (int (len es')), ?s)" using False st by (auto simp: exec_qual_def k(3) istrue_nd)
      have "qual_done ?W s0 (False, snd x) ?s" using k by (simp add: qual_done_def)
      from sim_goto [OF c(2) ex sim_ret [of "qual_done ?W s0", OF this]] show ?thesis using False by (simp add: case_prod_beta')
    qed
  qed
qed

lemma ExecInitQual_ends:
  assumes i: "ExecInitQual ce parent qual = Inr (Some es)" and wf: "list_all wf_expr qual" "list_all closed_checks qual"
    and s: "slots_ready parent (expr_bounds qual) (slots s)" "holds es s"
  shows "ends fe (steps es) s (sem_quals (map (\<lambda>e. sem fe ce e (attrs_of (slots s)) (start_tv fe)) qual) (world s))
    (\<lambda>x s'. \<not> snd (cells s' RES) \<and> DatumGetBool (fst (cells s' RES)) = fst x \<and> world s' = snd x \<and> holds es s')"
proof -
  let ?es0 = "ExecInitExprSlots parent qual new_ExprState"
  have ne: "qual \<noteq> []" using i by (auto simp: ExecInitQual_def)
  then obtain es1 js where e: "init_quals (map (ExecInitExprRec ce) qual) ?es0 = Inr (es1, js)" "es = ExprEvalPushStep SDone (adjust_jumps js es1)"
    using i by (auto simp: ExecInitQual_def)
  have cor: "list_all2 (correct fe) (map (ExecInitExprRec ce) qual) (map (sem fe ce) qual)"
    by (rule correct_args) (use correct_ExecInitExprRec(1) wf in \<open>auto simp: list_all_iff\<close>)
  have x0: "ext new_ExprState ?es0" by (rule ext_slots)
  have x1: "ext ?es0 es1" "set js \<subseteq> {len ?es0..<len es1}" using init_quals_ext [OF cor e(1) place_start] by auto
  have xa: "ext ?es0 (adjust_jumps js es1)" by (rule ext_adjust [OF x1(1)]) (use x1(2) in auto)
  have cd: "code (steps es) new_ExprState ?es0 Map.empty" "code (steps es) ?es0 es1 (jmap js (len es1))"
    using code_trans [OF x0 xa, THEN iffD1, OF code_self [OF e(2)]] unfolding code_adjust_all by auto
  have cov: "e \<in> set qual \<Longrightarrow> covers (expr_bounds qual) e" for e by (rule expr_bounds_covers [OF wf(2)])
  have h: "holds es s' = holds es1 s'" for s' by (simp add: holds_def e(2))
  show ?thesis
  proof (rule sim_ends [OF after_slots [OF cd(1) s(1)]])
    fix s' assume a: "cells s' = cells s" "world s' = world s" "agree (expr_bounds qual) (rd_of s') (attrs_of (slots s))"
    have h1: "holds es1 s'" using s(2) a(1) unfolding h by (simp add: holds_def)
    have m: "map (\<lambda>m. m (rd_of s') (start_tv fe)) (map (sem fe ce) qual) = map (\<lambda>e. sem fe ce e (attrs_of (slots s)) (start_tv fe)) qual"
      by (simp add: sem_agree(1) [OF a(3), rule_format] cov)
    have "sim fe (steps es) (len ?es0) s' (sem_quals (map (\<lambda>e. sem fe ce e (attrs_of (slots s)) (start_tv fe)) qual) (world s')) (len es1)
        (qual_done (scope RES ?es0 es1) s')"
      using init_quals_correct [OF cor e(1) _ place_start ext_refl x1(1) h1 ext_refl cd(2) keep_refl] ne unfolding tv_start [OF x0] m by simp
    then show "sim fe (steps es) (len ?es0) s' (sem_quals (map (\<lambda>e. sem fe ce e (attrs_of (slots s)) (start_tv fe)) qual) (world s)) (len es1)
        (\<lambda>x s'. \<not> snd (cells s' RES) \<and> DatumGetBool (fst (cells s' RES)) = fst x \<and> world s' = snd x \<and> holds es s')"
      unfolding a(2) by (rule sim_conseq) (auto simp: qual_done_def h holds_scope [OF place_start x1(1) h1])
  qed (simp_all add: e(2) nth_append)
qed

section \<open>Projection\<close>

text \<open>The result row: each target is evaluated in order and, unless it is a junk column that is left out, stored.\<close>

definition sem_target ::
  "'w fenv \<Rightarrow> cenv \<Rightarrow> bool \<Rightarrow> (bool \<times> Oid) list option \<Rightarrow> reader \<Rightarrow> TargetEntry \<Rightarrow> Datum option list \<Rightarrow> 'w \<Rightarrow> (Datum option list \<times> 'w) eres" where
  "sem_target fe ce junk inputDesc rd tle row w =
     bindE (sem fe ce (te_expr tle) rd (start_tv fe) w) (\<lambda>(v, w1).
       if \<not> junk \<and> te_resjunk tle then Inr (row, w1)
       else Inr (row[te_resno tle - 1 :=
          make_ro_opt fe (\<not> is_safe_var junk inputDesc tle \<and> ce_varlena ce (te_expr tle)) v], w1))"

fun sem_targets ::
  "'w fenv \<Rightarrow> cenv \<Rightarrow> bool \<Rightarrow> (bool \<times> Oid) list option \<Rightarrow> reader \<Rightarrow> TargetEntry list \<Rightarrow> Datum option list \<Rightarrow> 'w \<Rightarrow> (Datum option list \<times> 'w) eres" where
  "sem_targets fe ce junk inputDesc rd [] row w = Inr (row, w)"
| "sem_targets fe ce junk inputDesc rd (tle # tlist) row w =
     bindE (sem_target fe ce junk inputDesc rd tle row w) (\<lambda>(row1, w1). sem_targets fe ce junk inputDesc rd tlist row1 w1)"

definition target_ok :: "bool \<Rightarrow> nat \<Rightarrow> TargetEntry \<Rightarrow> bool" where
  "target_ok junk n tle \<longleftrightarrow>
     wf_expr (te_expr tle) \<and> closed_checks (te_expr tle) \<and> (junk \<or> \<not> te_resjunk tle \<longrightarrow> te_resno tle - 1 < n)"

definition row_of :: "'w rstate \<Rightarrow> Datum option list" where
  "row_of s = map nd (resultslot s)"

definition row_done :: "ExprState \<Rightarrow> 'w rstate \<Rightarrow> Datum option list \<times> 'w \<Rightarrow> 'w rstate \<Rightarrow> bool" where
  "row_done d s x s' \<longleftrightarrow> row_of s' = fst x \<and> world s' = snd x \<and> holds d s' \<and> slots s' = slots s"

lemma assign_result_run:
  assumes "n < length (resultslot s)"
  shows "assign_result n v s = Inr (Next, s\<lparr>resultslot := (resultslot s)[n := v]\<rparr>)"
    "row_of (s\<lparr>resultslot := (resultslot s)[n := v]\<rparr>) = (row_of s)[n := nd v]"
  using assms by (simp_all add: assign_result_def row_of_def map_update)

definition init_target :: "cenv \<Rightarrow> bool \<Rightarrow> (bool \<times> Oid) list option \<Rightarrow> TargetEntry \<Rightarrow> ExprState \<Rightarrow> ExprState eres" where
  "init_target ce junk inputDesc tle es =
     (if is_safe_var junk inputDesc tle then Inr (ExprEvalPushStep (assign_step tle) es)
      else
        bindE (ExecInitExprRec ce (te_expr tle) RES es) (\<lambda>es1.
          if \<not> junk \<and> te_resjunk tle then Inr es1
          else Inr (ExprEvalPushStep (SAssignTmp (ce_varlena ce (te_expr tle)) (te_resno tle - 1)) es1)))"

lemma init_targets_target:
  "init_targets ce junk inputDesc (tle # tlist) es = bindE (init_target ce junk inputDesc tle es) (init_targets ce junk inputDesc tlist)"
  by (simp add: init_target_def)

lemma init_target_ext:
  assumes "init_target ce junk inputDesc tle es = Inr es'" "target_ok junk n tle" "place RES es"
  shows "ext es es'"
proof (cases "is_safe_var junk inputDesc tle")
  case False
  have cor: "correct fe (ExecInitExprRec ce (te_expr tle)) (sem fe ce (te_expr tle))" for fe :: "'w fenv"
    using correct_ExecInitExprRec(1) assms(2) by (auto simp: target_ok_def)
  obtain es1 where e: "ExecInitExprRec ce (te_expr tle) RES es = Inr es1"
    "es' = es1 \<or> (\<exists>st. es' = ExprEvalPushStep st es1)" using assms(1) False by (auto simp: init_target_def split: if_splits)
  have "ext es es1" by (rule correct_ext [OF cor e(1) assms(3)])
  then show ?thesis using e(2) by (auto intro: ext_trans)
qed (use assms(1) in \<open>auto simp: init_target_def\<close>)

lemma is_safe_varD:
  assumes "is_safe_var junk inputDesc tle"
  obtains varno attnum vartype where "te_expr tle = Var varno attnum vartype" "0 < attnum" "junk \<or> \<not> te_resjunk tle"
  using assms by (auto simp: is_safe_var_def split: Expr.splits)

lemma init_target_correct:
  assumes i: "init_target ce junk inputDesc tle es = Inr es'" and ok: "target_ok junk (length (resultslot s)) tle" and pl: "place RES es"
    and x: "ext new_ExprState es" "ext es' d" and c: "code P es es' Map.empty" and h: "holds d s"
    and rd: "sem fe ce (te_expr tle) (rd_of s) = sem fe ce (te_expr tle) rd"
  shows "sim fe P (len es) s (sem_target fe ce junk inputDesc rd tle (row_of s) (world s)) (len es') (row_done d s)"
proof (cases "is_safe_var junk inputDesc tle")
  case True
  obtain varno attnum vartype where v: "te_expr tle = Var varno attnum vartype" "0 < attnum" "junk \<or> \<not> te_resjunk tle"
    using True by (rule is_safe_varD)
  let ?k = "slot_of_varno varno" and ?i = "nat attnum - 1" and ?n = "te_resno tle - 1"
  have e: "es' = ExprEvalPushStep (SAssignVar ?k ?n ?i) es" using i True v by (simp add: init_target_def assign_step_def)
  have p: "len es < length P" "P ! len es = SAssignVar ?k ?n ?i" using c e by auto
  have n: "?n < length (resultslot s)" using ok v(3) by (auto simp: target_ok_def)
  have m: "sem fe ce (te_expr tle) rd (start_tv fe) (world s) = bindE (slot_value (slots s ?k) ?i) (\<lambda>v. Inr (nd v, world s))"
    unfolding rd [symmetric] using v by (simp add: sem_var_def rd_of_def)
  show ?thesis
  proof (cases "slot_value (slots s ?k) ?i")
    case (Inl err)
    then show ?thesis using p m by (simp add: sim_def sem_target_def run_step(1) exec_assign_var_def)
  next
    case (Inr z)
    let ?s = "s\<lparr>resultslot := (resultslot s)[?n := z]\<rparr>"
    have ex: "exec_step fe (P ! len es) s = Inr (Next, ?s)" using p(2) Inr assign_result_run(1) [OF n] by (simp add: exec_assign_var_def)
    have "row_done d s ((row_of s)[?n := nd z], world s) ?s" using h assign_result_run(2) [OF n] by (simp add: row_done_def holds_def)
    from sim_next [OF p(1) ex sim_ret [of "row_done d s", OF this]] show ?thesis using e m Inr v(3) True by (auto simp: sem_target_def make_ro_opt_def)
  qed
next
  case False
  let ?n = "te_resno tle - 1" and ?st = "SAssignTmp (ce_varlena ce (te_expr tle)) (te_resno tle - 1)"
  have cor: "correct fe (ExecInitExprRec ce (te_expr tle)) (sem fe ce (te_expr tle))" using correct_ExecInitExprRec(1) ok by (auto simp: target_ok_def)
  obtain es1 where e: "ExecInitExprRec ce (te_expr tle) RES es = Inr es1" "es' = (if \<not> junk \<and> te_resjunk tle then es1 else ExprEvalPushStep ?st es1)"
    using i False by (auto simp: init_target_def split: if_splits)
  have x1: "ext es es1" "ext es1 es'" using correct_ext [OF cor e(1) pl] e(2) by auto
  have x1d: "ext es1 d" "ext es d" using ext_trans [OF x1(2) x(2)] ext_trans [OF x1(1)] by auto
  have cd: "code P es es1 Map.empty" "code P es1 es' Map.empty" using c code_trans [OF x1] by auto
  show ?thesis unfolding sem_target_def rd [symmetric] tv_start [OF x(1), symmetric, of fe s]
  proof (rule sim_bind [OF correct_part [OF cor e(1) pl ext_refl x1d(1) scope_self pl cd(1) refl h keep_refl]])
    fix y s1 assume y: "done_at RES (scope RES es d) s y s1"
    have k: "nd (cells s1 RES) = fst y" "world s1 = snd y" "slots s1 = slots s" "resultslot s1 = resultslot s" "holds d s1"
      using y holds_scope [OF pl x1d(2) h, of s1] by (auto simp: done_at_def keep_def)
    show "sim fe P (len es1) s1 (case y of (v, w1) \<Rightarrow> if \<not> junk \<and> te_resjunk tle then Inr (row_of s, w1)
       else Inr ((row_of s)[?n := make_ro_opt fe (\<not> is_safe_var junk inputDesc tle \<and> ce_varlena ce (te_expr tle)) v], w1)) (len es') (row_done d s)"
    proof (cases "\<not> junk \<and> te_resjunk tle")
      case True
      then show ?thesis using k e(2) by (auto simp: case_prod_beta' row_done_def row_of_def intro!: sim_ret)
    next
      case nj: False
      have p: "len es1 < length P" "P ! len es1 = ?st" using cd(2) e(2) nj by auto
      have n: "?n < length (resultslot s1)" using ok nj k(4) by (auto simp: target_ok_def)
      let ?v = "(if ce_varlena ce (te_expr tle) \<and> \<not> snd (cells s1 RES) then fe_make_ro fe (fst (cells s1 RES)) else fst (cells s1 RES), snd (cells s1 RES))"
      let ?s = "s1\<lparr>resultslot := (resultslot s1)[?n := ?v]\<rparr>"
      have ex: "exec_step fe (P ! len es1) s1 = Inr (Next, ?s)" using p(2) assign_result_run(1) [OF n]
        by (simp add: exec_assign_tmp_def case_prod_beta' Let_def)
      have v: "nd ?v = make_ro_opt fe (\<not> is_safe_var junk inputDesc tle \<and> ce_varlena ce (te_expr tle)) (fst y)"
        unfolding k(1) [symmetric] using False by (simp add: make_ro_opt_def nd_def)
      have "row_of s1 = row_of s" using k(4) by (simp add: row_of_def)
      then have "row_done d s ((row_of s)[?n := nd ?v], snd y) ?s" using k assign_result_run(2) [OF n, of ?v] by (simp add: row_done_def holds_def)
      from sim_next [OF p(1) ex sim_ret [of "row_done d s", OF this]] show ?thesis using e(2) nj unfolding v by (auto simp: case_prod_beta')
    qed
  qed
qed

lemma init_targets_cases:
  assumes "init_targets ce junk inputDesc (tle # tlist) es = Inr es'"
  obtains es1 where "init_target ce junk inputDesc tle es = Inr es1" "init_targets ce junk inputDesc tlist es1 = Inr es'"
  using assms unfolding init_targets_target by auto

lemma init_targets_ext:
  assumes "init_targets ce junk inputDesc tlist es = Inr es'" "list_all (target_ok junk n) tlist" "place RES es"
  shows "ext es es'"
  using assms
proof (induction tlist arbitrary: es)
  case (Cons tle tlist)
  from Cons(2) obtain es1 where e: "init_target ce junk inputDesc tle es = Inr es1" "init_targets ce junk inputDesc tlist es1 = Inr es'"
    by (rule init_targets_cases)
  have x: "ext es es1" by (rule init_target_ext [OF e(1) _ Cons(4)]) (use Cons(3) in auto)
  show ?case by (rule ext_trans [OF x Cons(1) [OF e(2) _ place_ext [OF Cons(4) x]]]) (use Cons(3) in auto)
qed simp

lemma init_targets_correct:
  assumes "init_targets ce junk inputDesc tlist es = Inr es'" "list_all (target_ok junk (length (resultslot s))) tlist" "place RES es"
    "ext new_ExprState es" "ext es' d" "code P es es' Map.empty" "holds d s"
    and "\<And>tle. tle \<in> set tlist \<Longrightarrow> sem fe ce (te_expr tle) (rd_of s) = sem fe ce (te_expr tle) rd"
  shows "sim fe P (len es) s (sem_targets fe ce junk inputDesc rd tlist (row_of s) (world s)) (len es') (row_done d s)"
  using assms
proof (induction tlist arbitrary: es s)
  case Nil then show ?case by (auto simp: row_done_def intro!: sim_ret)
next
  case (Cons tle tlist)
  from Cons(2) obtain es1 where e: "init_target ce junk inputDesc tle es = Inr es1" "init_targets ce junk inputDesc tlist es1 = Inr es'"
    by (rule init_targets_cases)
  have ok: "target_ok junk (length (resultslot s)) tle" "list_all (target_ok junk (length (resultslot s))) tlist" using Cons(3) by auto
  have x1: "ext es es1" by (rule init_target_ext [OF e(1) ok(1) Cons(4)])
  have pl1: "place RES es1" by (rule place_ext [OF Cons(4) x1])
  have x2: "ext es1 es'" by (rule init_targets_ext [OF e(2) ok(2) pl1])
  have cd: "code P es es1 Map.empty" "code P es1 es' Map.empty" using Cons(7) code_trans [OF x1 x2] by auto
  have rd1: "sem fe ce (te_expr tle) (rd_of s) = sem fe ce (te_expr tle) rd" using Cons(9) by simp
  show ?case unfolding sem_targets.simps
  proof (rule sim_bind [OF init_target_correct [OF e(1) ok(1) Cons(4,5) ext_trans [OF x2 Cons(6)] cd(1) Cons(8) rd1]])
    fix y s1 assume y: "row_done d s y s1"
    have len: "length (resultslot s1) = length (resultslot s)" if "sem_target fe ce junk inputDesc rd tle (row_of s) (world s) = Inr y"
      using that y by (auto simp: sem_target_def row_done_def row_of_def split: if_splits dest: arg_cong [of _ _ length])
    assume "sem_target fe ce junk inputDesc rd tle (row_of s) (world s) = Inr y"
    have rds: "rd_of s1 = rd_of s" using y by (simp add: rd_of_def row_done_def fun_eq_iff)
    have "sim fe P (len es1) s1 (sem_targets fe ce junk inputDesc rd tlist (row_of s1) (world s1)) (len es') (row_done d s1)"
      by (rule Cons(1) [OF e(2) _ pl1 ext_trans [OF Cons(5) x1] Cons(6) cd(2)])
        (use ok(2) y Cons(9) in \<open>auto simp: row_done_def rds len [OF \<open>sem_target fe ce junk inputDesc rd tle (row_of s) (world s) = Inr y\<close>]\<close>)
    then show "sim fe P (len es1) s1 (case y of (row1, w1) \<Rightarrow> sem_targets fe ce junk inputDesc rd tlist row1 w1) (len es') (row_done d s)"
      using y by (auto simp: row_done_def case_prod_beta' elim!: sim_conseq)
  qed
qed

end
