(* ===== verification/ExprRuns.thy ===== *)
theory ExprRuns
  imports ExprEntry
begin

text \<open>
  What the entry points of \<open>src/backend/executor/execExpr.c\<close> promise to the executor: programs of
  \<open>ExecInitExpr\<close>, \<open>ExecInitQual\<close>, \<open>ExecInitCheck\<close> and \<open>ExecBuildProjectionInfoExt\<close> run to an end and
  give the meaning of the expression, the truth of the quals and the result row; SQL's three-valued
  logic, \<open>ANY\<close>/\<open>ALL\<close> and \<open>GREATEST\<close>/\<open>LEAST\<close> follow from it; and the step array never overflows.
\<close>

section \<open>Projection\<close>

lemma projection_ends:
  assumes i: "ExecBuildProjectionInfoExt ce parent junk inputDesc tlist = Inr es"
    and ok: "list_all (target_ok junk (length (resultslot s))) tlist"
    and s: "slots_ready parent (expr_bounds (map te_expr tlist)) (slots s)" "holds es s"
  shows "ends fe (steps es) s (sem_targets fe ce junk inputDesc (attrs_of (slots s)) tlist (row_of s) (world s))
    (\<lambda>x s'. row_of s' = fst x \<and> world s' = snd x \<and> holds es s')"
proof -
  let ?nodes = "map te_expr tlist"
  let ?es0 = "ExecInitExprSlots parent ?nodes new_ExprState"
  obtain es1 where e: "init_targets ce junk inputDesc tlist ?es0 = Inr es1" "es = ExprEvalPushStep SDone es1"
    using i by (auto simp: ExecBuildProjectionInfoExt_def)
  have x0: "ext new_ExprState ?es0" by (rule ext_slots)
  have x1: "ext ?es0 es1" by (rule init_targets_ext [OF e(1) ok place_start])
  have cd: "code (steps es) new_ExprState ?es0 Map.empty" "code (steps es) ?es0 es1 Map.empty"
    using code_self [OF e(2)] code_trans [OF x0 x1] by auto
  have cl: "list_all closed_checks ?nodes" using ok by (auto simp: list_all_iff target_ok_def)
  have cov: "tle \<in> set tlist \<Longrightarrow> covers (expr_bounds ?nodes) (te_expr tle)" for tle
    by (rule expr_bounds_covers [OF cl]) simp
  have h: "holds es s' = holds es1 s'" for s' by (simp add: holds_def e(2))
  show ?thesis
  proof (rule sim_ends [OF after_slots [OF cd(1) s(1)]])
    fix s' assume a: "cells s' = cells s" "world s' = world s" "resultslot s' = resultslot s"
      "agree (expr_bounds ?nodes) (rd_of s') (attrs_of (slots s))"
    have h1: "holds es1 s'" using s(2) a(1) unfolding h by (simp add: holds_def)
    have r: "row_of s' = row_of s" by (simp add: row_of_def a(3))
    have "sim fe (steps es) (len ?es0) s' (sem_targets fe ce junk inputDesc (attrs_of (slots s)) tlist (row_of s') (world s')) (len es1) (row_done es1 s')"
      by (rule init_targets_correct [OF e(1) _ place_start x0 ext_refl cd(2) h1])
        (use ok a(3) in \<open>simp_all add: sem_agree(1) [OF a(4), rule_format] cov\<close>)
    then show "sim fe (steps es) (len ?es0) s' (sem_targets fe ce junk inputDesc (attrs_of (slots s)) tlist (row_of s) (world s)) (len es1)
        (\<lambda>x s'. row_of s' = fst x \<and> world s' = snd x \<and> holds es s')"
      unfolding a(2) r by (rule sim_conseq) (auto simp: row_done_def h)
  qed (simp_all add: e(2))
qed

section \<open>The step array\<close>

lemma alloc_ok_new: "alloc_ok new_ExprState"
  by (simp add: alloc_ok_def new_ExprState_def)

lemma ext_alloc: "ext a b \<Longrightarrow> alloc_ok a \<Longrightarrow> alloc_ok b"
  by (simp add: ext_def)

section \<open>Inputs of a run\<close>

text \<open>
  What a caller of a ready expression provides: a well-formed tree whose checks are closed, slots
  that hold or can deform every attribute the tree reads, and the memory with the constants the
  translation has preloaded.
\<close>

definition ready :: "(slot_kind \<Rightarrow> slot_info) option \<Rightarrow> Expr list \<Rightarrow> ExprState \<Rightarrow> 'w rstate \<Rightarrow> bool" where
  "ready parent nodes es s \<longleftrightarrow>
     list_all wf_expr nodes \<and> list_all closed_checks nodes \<and>
     slots_ready parent (expr_bounds nodes) (slots s) \<and> holds es s"

definition meaning_in :: "'w fenv \<Rightarrow> cenv \<Rightarrow> 'w rstate \<Rightarrow> Expr \<Rightarrow> 'w \<Rightarrow> 'w answer" where
  "meaning_in fe ce s e = sem fe ce e (attrs_of (slots s)) (start_tv fe)"

text \<open>An expression that has a value in a state and does not change the world.\<close>

definition evaluates :: "'w fenv \<Rightarrow> cenv \<Rightarrow> 'w rstate \<Rightarrow> Expr \<Rightarrow> Datum option \<Rightarrow> bool" where
  "evaluates fe ce s e v \<longleftrightarrow> meaning_in fe ce s e (world s) = Inr (v, world s)"

lemma run_meaning:
  assumes "ExecInitExpr ce parent (Some e) = Inr (Some es)" "ready parent [e] es s"
  shows "case meaning_in fe ce s e (world s) of
      Inl err \<Rightarrow> ExecInterpExpr fe (steps es) s = Some (Inl err)
    | Inr (v, w) \<Rightarrow> \<exists>d s'. ExecInterpExpr fe (steps es) s = Some (Inr (d, s')) \<and> nd d = v \<and> world s' = w \<and> holds es s'"
  using ends_ExecInterpExpr [OF ExecInitExpr_ends [OF assms(1), of s fe]] assms(2)
  by (auto simp: ready_def meaning_in_def split: sum.splits prod.splits) (metis prod.collapse)

lemma run_value:
  assumes "ExecInitExpr ce parent (Some e) = Inr (Some es)" "ready parent [e] es s" "evaluates fe ce s e v"
    and "Q v"
  shows "\<exists>d s'. ExecInterpExpr fe (steps es) s = Some (Inr (d, s')) \<and> world s' = world s \<and> Q (nd d)"
  using run_meaning [OF assms(1,2), of fe] assms(3,4) by (auto simp: evaluates_def)

section \<open>Three-valued logic\<close>

lemma sem_and_values:
  assumes "list_all2 (\<lambda>m v. m w = Inr (v, w)) ms vs"
  obtains r where "sem_and anynull ms w = Inr (r, w)"
    "istrue r \<longleftrightarrow> \<not> anynull \<and> list_all istrue vs" "isfalse r \<longleftrightarrow> list_ex isfalse vs"
proof -
  have "\<exists>r. sem_and anynull ms w = Inr (r, w) \<and>
      (istrue r \<longleftrightarrow> \<not> anynull \<and> list_all istrue vs) \<and> (isfalse r \<longleftrightarrow> list_ex isfalse vs)"
    using assms
  proof (induction anynull ms w arbitrary: vs rule: sem_and.induct)
    case (2 anynull m w)
    then obtain v where "vs = [v]" "m w = Inr (v, w)" by (auto simp: list_all2_Cons1)
    then show ?case by (cases v; cases anynull) (simp_all add: istrue_def isfalse_def)
  next
    case (3 anynull m m' ms w)
    then obtain v vs' where v: "vs = v # vs'" "m w = Inr (v, w)" "list_all2 (\<lambda>m v. m w = Inr (v, w)) (m' # ms) vs'"
      by (auto simp: list_all2_Cons1)
    show ?case
    proof (cases "isfalse v")
      case True then show ?thesis using v by (auto simp: istrue_def isfalse_def split: option.splits)
    next
      case False
      then show ?thesis using "3.IH" [of "(v, w)" v w vs'] v by (auto simp: istrue_def isfalse_def split: option.splits)
    qed
  qed (simp add: istrue_def isfalse_def sbool_def)
  then show thesis using that by blast
qed

lemma sem_or_values:
  assumes "list_all2 (\<lambda>m v. m w = Inr (v, w)) ms vs"
  obtains r where "sem_or anynull ms w = Inr (r, w)"
    "istrue r \<longleftrightarrow> list_ex istrue vs" "isfalse r \<longleftrightarrow> \<not> anynull \<and> list_all isfalse vs"
proof -
  have "\<exists>r. sem_or anynull ms w = Inr (r, w) \<and>
      (istrue r \<longleftrightarrow> list_ex istrue vs) \<and> (isfalse r \<longleftrightarrow> \<not> anynull \<and> list_all isfalse vs)"
    using assms
  proof (induction anynull ms w arbitrary: vs rule: sem_or.induct)
    case (2 anynull m w)
    then obtain v where "vs = [v]" "m w = Inr (v, w)" by (auto simp: list_all2_Cons1)
    then show ?case by (cases v; cases anynull) (simp_all add: istrue_def isfalse_def)
  next
    case (3 anynull m m' ms w)
    then obtain v vs' where v: "vs = v # vs'" "m w = Inr (v, w)" "list_all2 (\<lambda>m v. m w = Inr (v, w)) (m' # ms) vs'"
      by (auto simp: list_all2_Cons1)
    show ?case
    proof (cases "istrue v")
      case True then show ?thesis using v by (auto simp: istrue_def isfalse_def split: option.splits)
    next
      case False
      then show ?thesis using "3.IH" [of "(v, w)" v w vs'] v by (auto simp: istrue_def isfalse_def split: option.splits)
    qed
  qed (simp add: istrue_def isfalse_def sbool_def)
  then show thesis using that by blast
qed

section \<open>Entry points\<close>

text \<open>
  C1. The program of an expression always ends. It raises exactly the error the expression means, or
  leaves the value the expression means, with null as null, and the world the expression leads to.
\<close>

theorem ExecInterpExpr_sem:
  assumes "ExecInitExpr ce parent (Some e) = Inr (Some es)" "ready parent [e] es s"
  shows "case meaning_in fe ce s e (world s) of
      Inl err \<Rightarrow> ExecInterpExpr fe (steps es) s = Some (Inl err)
    | Inr (v, w) \<Rightarrow> \<exists>d s'. ExecInterpExpr fe (steps es) s = Some (Inr (d, s')) \<and> nd d = v \<and> world s' = w \<and> holds es s'"
  by (rule run_meaning [OF assms])

text \<open>
  C10. \<open>ExecQual\<close> on a qual list evaluates the quals in order, stops at the first that is false or null
  and is true exactly if all are true; an empty list is true.
\<close>

theorem ExecQual_sem:
  assumes "ExecInitQual ce parent qual = Inr q" "case q of None \<Rightarrow> True | Some es \<Rightarrow> ready parent qual es s"
  shows "case sem_quals (map (meaning_in fe ce s) qual) (world s) of
      Inl err \<Rightarrow> ExecQual fe q s = Some (Inl err)
    | Inr (b, w) \<Rightarrow> \<exists>s'. ExecQual fe q s = Some (Inr (b, s')) \<and> world s' = w"
proof (cases q)
  case None
  then have "qual = []" using assms(1) by (auto simp: ExecInitQual_def bindE_def split: if_splits sum.splits prod.splits)
  then show ?thesis using None by (simp add: ExecQual_def)
next
  case (Some es)
  then show ?thesis
    using ends_ExecInterpExpr [OF ExecInitQual_ends [of ce parent qual es s fe]] assms
    by (auto simp: ExecQual_def ready_def meaning_in_def [abs_def] case_prod_unfold split: sum.splits) (metis prod.collapse)+
qed

text \<open>
  C21. \<open>ExecCheck\<close> on a list of check clauses is their conjunction, where null counts as true.
\<close>

theorem ExecCheck_sem:
  assumes "ExecInitCheck ce parent qual = Inr (Some es)" "ready parent [make_ands_explicit qual] es s"
  shows "case meaning_in fe ce s (make_ands_explicit qual) (world s) of
      Inl err \<Rightarrow> ExecCheck fe (Some es) s = Some (Inl err)
    | Inr (v, w) \<Rightarrow> \<exists>s'. ExecCheck fe (Some es) s = Some (Inr (\<not> isfalse v, s')) \<and> world s' = w"
proof -
  have "ExecInitExpr ce parent (Some (make_ands_explicit qual)) = Inr (Some es)"
    using assms(1) by (auto simp: ExecInitCheck_def split: if_splits)
  from run_meaning [OF this assms(2), of fe] show ?thesis
    by (auto simp: ExecCheck_def isfalse_def nd_def split: sum.splits prod.splits)
qed

text \<open>
  C8. A projection evaluates the targets in order and ends with the result row that holds at each
  column the value of its target and is unchanged elsewhere, or with the first error.
\<close>

theorem projection_row:
  assumes "ExecBuildProjectionInfoExt ce parent junk inputDesc tlist = Inr es"
    and "list_all (target_ok junk (length (resultslot s))) tlist" "ready parent (map te_expr tlist) es s"
  shows "case sem_targets fe ce junk inputDesc (attrs_of (slots s)) tlist (row_of s) (world s) of
      Inl err \<Rightarrow> ExecInterpExpr fe (steps es) s = Some (Inl err)
    | Inr (row, w) \<Rightarrow> \<exists>d s'. ExecInterpExpr fe (steps es) s = Some (Inr (d, s')) \<and> row_of s' = row \<and> world s' = w"
proof -
  have "slots_ready parent (expr_bounds (map te_expr tlist)) (slots s)" "holds es s" using assms(3) by (auto simp: ready_def)
  from ends_ExecInterpExpr [OF projection_ends [OF assms(1,2) this, of fe]]
  show ?thesis by (auto split: sum.splits prod.splits)
qed

section \<open>SQL semantics of runs\<close>

lemma evaluates_args:
  "list_all2 (evaluates fe ce s) args vs \<Longrightarrow>
     list_all2 (\<lambda>m v. m (world s) = Inr (v, world s)) (map (\<lambda>m. m (attrs_of (slots s)) (start_tv fe)) (map (sem fe ce) args)) vs"
  by (auto simp: list_all2_conv_all_nth evaluates_def meaning_in_def)

lemma sem_args_values:
  "list_all2 (\<lambda>m v. m w = Inr (v, w)) ms vs \<Longrightarrow> sem_args ms w = Inr (vs, w)"
  by (induction rule: list_all2_induct) auto

text \<open>
  C23. A run of \<open>AND\<close> or \<open>OR\<close> follows three-valued logic: \<open>AND\<close> is true if all arguments are true and
  false if one is false, \<open>OR\<close> true if one is true and false if all are false, and null otherwise.
\<close>

theorem bool_expr_run:
  assumes "ExecInitExpr ce parent (Some (BoolExpr boolop args)) = Inr (Some es)" "ready parent [BoolExpr boolop args] es s"
    and "list_all2 (evaluates fe ce s) args vs" "boolop = AND_EXPR \<or> boolop = OR_EXPR"
  shows "\<exists>d s'. ExecInterpExpr fe (steps es) s = Some (Inr (d, s')) \<and> world s' = world s \<and>
     (istrue (nd d) \<longleftrightarrow> (if boolop = AND_EXPR then list_all istrue vs else list_ex istrue vs)) \<and>
     (isfalse (nd d) \<longleftrightarrow> (if boolop = AND_EXPR then list_ex isfalse vs else list_all isfalse vs))"
proof -
  note a = evaluates_args [OF assms(3)]
  obtain r1 r2 where r: "sem_and False (map (\<lambda>m. m (attrs_of (slots s)) (start_tv fe)) (map (sem fe ce) args)) (world s) = Inr (r1, world s)"
    "istrue r1 \<longleftrightarrow> list_all istrue vs" "isfalse r1 \<longleftrightarrow> list_ex isfalse vs"
    "sem_or False (map (\<lambda>m. m (attrs_of (slots s)) (start_tv fe)) (map (sem fe ce) args)) (world s) = Inr (r2, world s)"
    "istrue r2 \<longleftrightarrow> list_ex istrue vs" "isfalse r2 \<longleftrightarrow> list_all isfalse vs"
    by (metis sem_and_values [OF a, of False] sem_or_values [OF a, of False])
  let ?r = "if boolop = AND_EXPR then r1 else r2"
  have e: "evaluates fe ce s (BoolExpr boolop args) ?r"
    "istrue ?r \<longleftrightarrow> (if boolop = AND_EXPR then list_all istrue vs else list_ex istrue vs)"
    "isfalse ?r \<longleftrightarrow> (if boolop = AND_EXPR then list_ex isfalse vs else list_all isfalse vs)"
    using r assms(4) by (auto simp: evaluates_def meaning_in_def sem_bool_def)
  then show ?thesis using run_value [OF assms(1,2) e(1), of "\<lambda>v. (istrue v \<longleftrightarrow> _) \<and> (isfalse v \<longleftrightarrow> _)"] by blast
qed

text \<open>
  The result of the operator of \<open>scalar op ANY (array)\<close> on one element, for an operator that is a
  function \<open>f\<close> of the element.
\<close>

definition element_result :: "bool \<Rightarrow> (Datum option \<Rightarrow> Datum option) \<Rightarrow> Datum option \<Rightarrow> Datum option" where
  "element_result strict f elt = (if strict \<and> elt = None then None else f elt)"

lemma sem_element_value:
  assumes "\<And>elt. sem_call fe opf coll [scalar, elt] w = Inr (f elt, w)"
  shows "sem_element fe strict opf coll scalar elt w =
    Inr (map_option (\<lambda>d. BoolGetDatum (DatumGetBool d)) (element_result strict f elt), w)"
  using assms by (simp add: sem_element_def element_result_def)

lemma istrue_norm [simp]:
  "istrue (map_option (\<lambda>d. BoolGetDatum (DatumGetBool d)) v) = istrue v"
  "isfalse (map_option (\<lambda>d. BoolGetDatum (DatumGetBool d)) v) = isfalse v"
  by (cases v; simp add: istrue_def isfalse_def)+

text \<open>
  C24. \<open>scalar op ANY (array)\<close> is true if the operator is true for some element and false if it is
  false for all, \<open>ALL\<close> is true if it is true for all and false if it is false for some element; an
  element for which the operator is null makes the undecided cases null. A strict operator is null
  for a null element.
\<close>

theorem scalar_array_run:
  assumes "ExecInitExpr ce parent (Some (ScalarArrayOpExpr opf coll useOr se ae)) = Inr (Some es)"
    "ready parent [ScalarArrayOpExpr opf coll useOr se ae] es s"
    and "evaluates fe ce s se (Some v)" "evaluates fe ce s ae (Some a)" "fe_array_items fe a (world s) = items"
    and call: "\<And>elt. sem_call fe opf coll [Some v, elt] (world s) = Inr (f elt, world s)"
    and "vs = map (element_result (fn_strict (ce_fmgr ce opf)) f) items"
  shows "\<exists>d s'. ExecInterpExpr fe (steps es) s = Some (Inr (d, s')) \<and> world s' = world s \<and>
     (istrue (nd d) \<longleftrightarrow> (if useOr then list_ex istrue vs else list_all istrue vs)) \<and>
     (isfalse (nd d) \<longleftrightarrow> (if useOr then list_all isfalse vs else list_ex isfalse vs))"
proof -
  let ?st = "fn_strict (ce_fmgr ce opf)" and ?n = "map_option (\<lambda>d. BoolGetDatum (DatumGetBool d))"
  let ?ms = "map (sem_element fe ?st opf coll (Some v)) items"
  have m: "list_all2 (\<lambda>m v. m (world s) = Inr (v, world s)) ?ms (map ?n vs)"
    by (simp add: list_all2_conv_all_nth sem_element_value [OF call] assms(7))
  obtain r1 r2 where r: "sem_and False ?ms (world s) = Inr (r1, world s)"
    "istrue r1 \<longleftrightarrow> list_all istrue (map ?n vs)" "isfalse r1 \<longleftrightarrow> list_ex isfalse (map ?n vs)"
    "sem_or False ?ms (world s) = Inr (r2, world s)"
    "istrue r2 \<longleftrightarrow> list_ex istrue (map ?n vs)" "isfalse r2 \<longleftrightarrow> list_all isfalse (map ?n vs)"
    by (metis sem_and_values [OF m, of False] sem_or_values [OF m, of False])
  let ?r = "if useOr then r2 else r1"
  have e: "evaluates fe ce s (ScalarArrayOpExpr opf coll useOr se ae) ?r"
    using r(1,4) assms(3-5) by (simp add: evaluates_def meaning_in_def sem_scalararray_def)
  have "istrue ?r \<longleftrightarrow> (if useOr then list_ex istrue vs else list_all istrue vs)"
    "isfalse ?r \<longleftrightarrow> (if useOr then list_all isfalse vs else list_ex isfalse vs)"
    using r(2,3,5,6) by (simp_all add: list.pred_map list_ex_iff comp_def)
  then show ?thesis using run_value [OF assms(1,2) e, of "\<lambda>v. (istrue v \<longleftrightarrow> _) \<and> (isfalse v \<longleftrightarrow> _)"] by blast
qed

text \<open>The comparison support function orders the values by a key, without changing the world.\<close>

definition compares :: "'w fenv \<Rightarrow> Oid \<Rightarrow> Oid \<Rightarrow> 'w \<Rightarrow> (Datum \<Rightarrow> int) \<Rightarrow> bool" where
  "compares fe f coll w key \<longleftrightarrow>
     (\<forall>a b. \<exists>d. fe_call fe f coll [Some a, Some b] w = Inr ((d, False), w) \<and>
        sgn (DatumGetInt32 d) = sgn (key a - key b))"

definition better :: "MinMaxOp \<Rightarrow> (Datum \<Rightarrow> int) \<Rightarrow> Datum \<Rightarrow> Datum \<Rightarrow> bool" where
  "better opr key x y = (case opr of IS_GREATEST \<Rightarrow> key y \<le> key x | IS_LEAST \<Rightarrow> key x \<le> key y)"

definition extremum :: "MinMaxOp \<Rightarrow> (Datum \<Rightarrow> int) \<Rightarrow> Datum option set \<Rightarrow> Datum option \<Rightarrow> bool" where
  "extremum opr key vs r \<longleftrightarrow> r \<in> insert None vs \<and> (\<forall>y. Some y \<in> vs \<longrightarrow> (\<exists>x. r = Some x \<and> better opr key x y))"

lemma extremum_better:
  "extremum opr key vs r \<Longrightarrow> b \<in> vs \<Longrightarrow> (\<And>y. v = Some y \<Longrightarrow> \<exists>x. b = Some x \<and> better opr key x y) \<Longrightarrow>
     extremum opr key (insert v vs) r"
  unfolding extremum_def by (auto simp: better_def split: MinMaxOp.splits) (metis order_trans)+

lemma sem_minmax_extremum:
  assumes "compares fe f coll w key"
  shows "\<exists>r. sem_minmax fe opr f coll vs best w = Inr (r, w) \<and> extremum opr key (insert best (set vs)) r"
proof (induction vs arbitrary: best)
  case Nil then show ?case by (auto simp: extremum_def better_def split: MinMaxOp.splits)
next
  case (Cons v vs)
  show ?case
  proof (cases v)
    case None
    then show ?thesis using Cons [of best] by (auto simp: extremum_def)
  next
    case v: (Some y)
    show ?thesis
    proof (cases best)
      case None
      then show ?thesis using Cons [of v] v by (auto simp: extremum_def)
    next
      case (Some b)
      obtain d where d: "fe_call fe f coll [Some b, Some y] w = Inr ((d, False), w)"
        "sgn (DatumGetInt32 d) = sgn (key b - key y)" using assms by (auto simp: compares_def)
      define b' where "b' = (if (opr = IS_LEAST \<and> DatumGetInt32 d > 0) \<or> (opr = IS_GREATEST \<and> DatumGetInt32 d < 0) then y else b)"
      have "better opr key b' y" "better opr key b' b"
        using d(2) by (auto simp: b'_def better_def sgn_if split: if_splits MinMaxOp.splits)
      moreover obtain r where r: "sem_minmax fe opr f coll vs (Some b') w = Inr (r, w)" "extremum opr key (insert (Some b') (set vs)) r"
        using Cons by blast
      moreover have "sem_minmax fe opr f coll (v # vs) best w = sem_minmax fe opr f coll vs (Some b') w"
        using d(1) v Some by (simp add: sem_call_def b'_def)
      ultimately have "extremum opr key (insert (Some b) (insert (Some y) (insert (Some b') (set vs)))) r"
        by (blast intro: extremum_better)
      then show ?thesis using r v Some \<open>sem_minmax fe opr f coll (v # vs) best w = _\<close>
        by (auto simp: extremum_def b'_def)
    qed
  qed
qed

text \<open>
  C25. \<open>GREATEST\<close> and \<open>LEAST\<close> give an argument that no other argument exceeds or falls below, for a
  comparison function that orders the values by a key. Null arguments are ignored; the result is null
  only if all arguments are.
\<close>

theorem min_max_run:
  assumes "ExecInitExpr ce parent (Some (MinMaxExpr opr typ coll args)) = Inr (Some es)" "ready parent [MinMaxExpr opr typ coll args] es s"
    and "list_all2 (evaluates fe ce s) args vs" "compares fe (ce_cmp_proc ce typ) coll (world s) key"
  shows "\<exists>d s'. ExecInterpExpr fe (steps es) s = Some (Inr (d, s')) \<and> world s' = world s \<and>
     (case nd d of
        None \<Rightarrow> list_all (\<lambda>v. v = None) vs
      | Some x \<Rightarrow> Some x \<in> set vs \<and> list_all (\<lambda>v. case v of None \<Rightarrow> True | Some y \<Rightarrow> better opr key x y) vs)"
proof -
  obtain r where r: "sem_minmax fe opr (ce_cmp_proc ce typ) coll vs None (world s) = Inr (r, world s)"
    "extremum opr key (insert None (set vs)) r" using sem_minmax_extremum [OF assms(4)] by blast
  have e: "evaluates fe ce s (MinMaxExpr opr typ coll args) r"
    using sem_args_values [OF evaluates_args [OF assms(3)]] r(1) by (simp add: evaluates_def meaning_in_def)
  have "case r of None \<Rightarrow> list_all (\<lambda>v. v = None) vs
      | Some x \<Rightarrow> Some x \<in> set vs \<and> list_all (\<lambda>v. case v of None \<Rightarrow> True | Some y \<Rightarrow> better opr key x y) vs"
    using r(2) by (auto simp: extremum_def list_all_iff split: option.splits) (metis option.exhaust)+
  then show ?thesis by (rule run_value [OF assms(1,2) e])
qed

text \<open>The branch a searched \<open>CASE\<close> takes: the first one whose condition is true, or the default.\<close>

fun taken :: "CaseWhen list \<Rightarrow> Datum option list \<Rightarrow> Expr \<Rightarrow> Expr" where
  "taken (CaseWhen c result # whens) (v # vs) d = (if istrue v then result else taken whens vs d)"
| "taken _ _ d = d"

fun condition :: "CaseWhen \<Rightarrow> Expr" where
  "condition (CaseWhen c result) = c"

lemma sem_case_taken:
  assumes "list_all2 (\<lambda>w v. sem fe ce (condition w) rd tv wd = Inr (v, wd)) whens vs" "fst tv = nd (fe_caseValue fe)"
  shows "sem fe ce (CaseExpr None whens d) rd tv wd = sem fe ce (taken whens vs d) rd tv wd"
proof -
  have "sem_whens (map (\<lambda>(c, m). (c rd tv, m rd tv)) (map (sem_when fe ce) whens)) (sem fe ce d rd tv) wd = sem fe ce (taken whens vs d) rd tv wd"
    using assms(1)
  proof (induction rule: list_all2_induct)
    case (Cons w whens v vs)
    then show ?case by (cases w) simp
  qed simp
  moreover have "(nd (fe_caseValue fe), snd tv) = tv" using assms(2) by (cases tv) simp
  ultimately show ?thesis by (simp add: sem_case_def)
qed

text \<open>
  C22. A searched \<open>CASE\<close> gives what its first branch with a true condition gives, or the default; the
  results of the other branches are not evaluated, so their errors and effects do not occur.
\<close>

theorem case_run:
  assumes "ExecInitExpr ce parent (Some (CaseExpr None whens d)) = Inr (Some es)" "ready parent [CaseExpr None whens d] es s"
    and "list_all2 (\<lambda>w. evaluates fe ce s (condition w)) whens vs"
  shows "case meaning_in fe ce s (taken whens vs d) (world s) of
      Inl err \<Rightarrow> ExecInterpExpr fe (steps es) s = Some (Inl err)
    | Inr (v, w) \<Rightarrow> \<exists>x s'. ExecInterpExpr fe (steps es) s = Some (Inr (x, s')) \<and> nd x = v \<and> world s' = w \<and> holds es s'"
proof -
  have "meaning_in fe ce s (CaseExpr None whens d) (world s) = meaning_in fe ce s (taken whens vs d) (world s)"
    unfolding meaning_in_def by (rule sem_case_taken, rule list_all2_mono [OF assms(3)])
      (simp_all add: evaluates_def meaning_in_def start_tv_def)
  then show ?thesis using run_meaning [OF assms(1,2), of fe] by (simp only:)
qed

text \<open>A constraint with the value of its check on the value \<open>v\<close> of the domain, and when it is violated.\<close>

fun checked :: "'w fenv \<Rightarrow> cenv \<Rightarrow> Oid \<Rightarrow> 'w rstate \<Rightarrow> Datum option \<Rightarrow> DomainConstraint \<Rightarrow> Datum option \<Rightarrow> bool" where
  "checked fe ce ty s v (DOM_CONSTRAINT_NOTNULL name) c = True"
| "checked fe ce ty s v (DOM_CONSTRAINT_CHECK name e) c \<longleftrightarrow>
     sem fe ce e (attrs_of (slots s)) (fst (start_tv fe), make_ro_opt fe (ce_typ_varlena ce ty) v) (world s) = Inr (c, world s)"

fun violation :: "Datum option \<Rightarrow> DomainConstraint \<times> Datum option \<Rightarrow> err_code option" where
  "violation v (DOM_CONSTRAINT_NOTNULL name, c) = (if v = None then Some ERRCODE_NOT_NULL_VIOLATION else None)"
| "violation v (DOM_CONSTRAINT_CHECK name e, c) = (if isfalse c then Some ERRCODE_CHECK_VIOLATION else None)"

fun first_violation :: "Datum option \<Rightarrow> (DomainConstraint \<times> Datum option) list \<Rightarrow> err_code option" where
  "first_violation v [] = None"
| "first_violation v (c # cs) = (case violation v c of None \<Rightarrow> first_violation v cs | Some e \<Rightarrow> Some e)"

lemma sem_constraints_checked:
  assumes "list_all2 (checked fe ce ty s v) cons cs"
  shows "sem_constraints v (map (map_option (\<lambda>m. m (attrs_of (slots s)) (fst (start_tv fe), make_ro_opt fe (ce_typ_varlena ce ty) v)))
      (map (sem_constraint fe ce) cons)) (world s) =
    (case first_violation v (zip cons cs) of None \<Rightarrow> Inr (v, world s) | Some err \<Rightarrow> Inl (ERROR err))"
  using assms
proof (induction rule: list_all2_induct)
  case (Cons con cons c cs)
  then show ?case by (cases con) simp_all
qed simp

text \<open>
  C26. A coercion to a domain gives the value itself if the value satisfies every constraint, where a
  check that is null counts as satisfied, and otherwise raises the error of the first constraint
  that is violated.
\<close>

theorem domain_run:
  assumes "ExecInitExpr ce parent (Some (CoerceToDomain arg ty cons)) = Inr (Some es)" "ready parent [CoerceToDomain arg ty cons] es s"
    and "evaluates fe ce s arg v" "list_all2 (checked fe ce ty s v) cons cs"
  shows "case first_violation v (zip cons cs) of
      Some err \<Rightarrow> ExecInterpExpr fe (steps es) s = Some (Inl (ERROR err))
    | None \<Rightarrow> \<exists>x s'. ExecInterpExpr fe (steps es) s = Some (Inr (x, s')) \<and> nd x = v \<and> world s' = world s"
proof -
  have "meaning_in fe ce s (CoerceToDomain arg ty cons) (world s) =
      (case first_violation v (zip cons cs) of None \<Rightarrow> Inr (v, world s) | Some err \<Rightarrow> Inl (ERROR err))"
    using assms(3) sem_constraints_checked [OF assms(4)] by (simp add: meaning_in_def evaluates_def)
  then show ?thesis using run_meaning [OF assms(1,2), of fe] by (auto split: option.splits)
qed

text \<open>
  C27. The step array of a translated expression never overflows: the steps fit into the allocated
  entries, and once the array has outgrown its first 16 entries at most half of it is unused.
\<close>

theorem step_array_fits:
  assumes "ExecInitExpr ce parent (Some e) = Inr (Some es)" "wf_expr e"
  shows "length (steps es) \<le> steps_alloc es \<and> steps_alloc es \<le> max 16 (2 * length (steps es))"
proof -
  obtain es1 where e: "ExecInitExprRec ce e RES (ExecInitExprSlots parent [e] new_ExprState) = Inr es1" "es = ExprEvalPushStep SDone es1"
    using assms(1) by (rule ExecInitExpr_steps)
  have cor: "correct fe (ExecInitExprRec ce e) (sem fe ce e)" for fe :: "unit fenv" using correct_ExecInitExprRec(1) assms(2) by blast
  have "alloc_ok es1" by (rule ext_alloc [OF correct_ext [OF cor e(1) place_start] ext_alloc [OF ext_slots alloc_ok_new]])
  then have "alloc_ok es" unfolding e(2) by (rule alloc_ok_push)
  then show ?thesis by (simp add: alloc_ok_def)
qed

section \<open>Concrete runs\<close>

text \<open>
  A small catalogue: function 1 is \<open>>\<close> on integers and function 2 their comparison, both strict; every
  array datum stands for \<open>{3, NULL, 9}\<close>; the scanned tuple is \<open>(7, NULL)\<close>.
\<close>

lemma slot_kind_all: "(\<forall>k. P k) \<longleftrightarrow> P INNER \<and> P OUTER \<and> P SCAN"
  by (metis slot_kind.exhaust)

definition ex_call :: "Oid \<Rightarrow> Oid \<Rightarrow> Datum option list \<Rightarrow> unit \<Rightarrow> (NullableDatum \<times> unit) eres" where
  "ex_call f coll vs w =
     (case vs of
        [Some a, Some b] \<Rightarrow>
          if f = 1 then Inr ((BoolGetDatum (b < a), False), w)
          else Inr ((Int32GetDatum (if a < b then - 1 else if b < a then 1 else 0), False), w)
      | _ \<Rightarrow> Inr ((0, True), w))"

definition ex_fe :: "unit fenv" where
  "ex_fe = \<lparr>fe_call = ex_call, fe_make_ro = id, fe_array_items = (\<lambda>a w. [Some 3, None, Some 9]), fe_row_nulls = (\<lambda>d w. Inr []),
     fe_sysattr = (\<lambda>k n w. Inr (0, True)), fe_param_exec = (\<lambda>n w. (False, (0, True))), fe_set_param_plan = (\<lambda>n w. Inr w),
     fe_param_extern = (\<lambda>n w. None), fe_subplan = (\<lambda>n w. Inr ((0, True), w)), fe_alternative_subplan = (\<lambda>n w. Inr ((0, True), w)),
     fe_sql_value = (\<lambda>n w. Inr ((0, True), w)), fe_nextval = (\<lambda>n w. Inr (1, w)), fe_aggvalue = (\<lambda>n w. (0, True)),
     fe_grouped_cols = (\<lambda>w. []), fe_caseValue = (0, True), fe_domainValue = (0, True)\<rparr>"

definition ex_ce :: cenv where
  "ex_ce = \<lparr>ce_fmgr = (\<lambda>f. \<lparr>fn_strict = True, fn_retset = False, fn_stats = 2\<rparr>), ce_acl_ok = (\<lambda>f. True), ce_track_functions = 0,
     ce_parent = True, ce_agg_parent = False, ce_grouping_sets = False, ce_varlena = (\<lambda>e. False), ce_typ_varlena = (\<lambda>t. False),
     ce_output_func = (\<lambda>e. 0), ce_input_func = (\<lambda>t. (0, 0)), ce_row_proc = (\<lambda>f g. 2), ce_cmp_proc = (\<lambda>t. 2)\<rparr>"

definition ex_slot :: TupleTableSlot where
  "ex_slot = \<lparr>tts_nvalid = 0, tts_values = (\<lambda>i. (0, True)), tts_tuple = [(7, False), (0, True)], tts_missing = None,
     tts_attrs = [(False, 23), (False, 23)], tts_virtual = False\<rparr>"

definition ex_state :: "ExprState \<Rightarrow> unit rstate" where
  "ex_state es = \<lparr>cells = (\<lambda>c. case map_of (preload es) c of None \<Rightarrow> (0, True) | Some v \<Rightarrow> v), flags = (\<lambda>c. False),
     slots = (\<lambda>k. ex_slot), resultslot = [(0, True), (0, True)], world = ()\<rparr>"

fun prog_of :: "ExprState option eres \<Rightarrow> ExprState" where
  "prog_of (Inr (Some es)) = es"
| "prog_of _ = new_ExprState"

fun compiled :: "ExprState option eres \<Rightarrow> bool" where
  "compiled (Inr (Some es)) = True"
| "compiled _ = False"

lemma compiled_prog: "compiled r \<Longrightarrow> r = Inr (Some (prog_of r))"
  by (cases r rule: compiled.cases) auto

definition ex_gt :: Expr where
  "ex_gt = OpExpr 1 0 [Var 1 1 23, Const 5 False]"

definition ex_null :: Expr where
  "ex_null = OpExpr 1 0 [Var 1 2 23, Const 5 False]"

definition ex_prog :: "Expr \<Rightarrow> ExprState" where
  "ex_prog e = prog_of (ExecInitExpr ex_ce None (Some e))"

lemma bindE_weak_cong: "a = b \<Longrightarrow> bindE a f = bindE b f"
  by simp

lemmas init_defs = ExecInitExpr_def ExecInitExprSlots_def ExecPushExprSlots_def push_fetch_def note_var_def ExecComputeSlotInfo_def
  init_func_def ExecInitFunc_def func_step_op_def init_var_def const_value_def slot_of_varno_def INNER_VAR_def OUTER_VAR_def FUNC_MAX_ARGS_def
  palloc_cells_def ExprEvalPushStep_def new_ExprState_def RES_def

lemmas ready_defs = ready_def slots_ready_def slot_kind_all slot_ready_def slot_provides_def expr_bounds_def bounds_of_def holds_def

lemmas ex_defs = ex_prog_def ex_ce_def ex_gt_def ex_null_def ex_state_def ex_slot_def

lemmas ex_sem_defs = evaluates_def meaning_in_def ex_fe_def ex_call_def sem_var_def attrs_of_def slot_attr_def sem_funcexpr_def sem_call_def

lemma ex_gt_run:
  "ExecInitExpr ex_ce None (Some ex_gt) = Inr (Some (ex_prog ex_gt))"
  "ready None [ex_gt] (ex_prog ex_gt) (ex_state (ex_prog ex_gt))"
  "evaluates ex_fe ex_ce (ex_state es) ex_gt (sbool True)"
  "evaluates ex_fe ex_ce (ex_state es) ex_null None"
  by (simp_all add: ex_defs init_defs ready_defs ex_sem_defs slot_of_varno_def INNER_VAR_def OUTER_VAR_def sbool_def)

theorem ExecInterpExpr_sem_witness:
  "\<exists>s'. ExecInterpExpr ex_fe (steps (ex_prog ex_gt)) (ex_state (ex_prog ex_gt)) = Some (Inr ((1, False), s'))"
  using ExecInterpExpr_sem [OF ex_gt_run(1,2), of ex_fe] ex_gt_run(3) [of "ex_prog ex_gt"]
  by (auto simp: evaluates_def sbool_def BoolGetDatum_def nd_Some_iff)

definition ex_qual_prog :: "Expr list \<Rightarrow> ExprState" where
  "ex_qual_prog qual = prog_of (ExecInitQual ex_ce None qual)"

theorem ExecQual_sem_witness:
  "\<exists>s'. ExecQual ex_fe (Some (ex_qual_prog [ex_gt, ex_null])) (ex_state (ex_qual_prog [ex_gt, ex_null])) = Some (Inr (False, s'))"
proof -
  let ?q = "[ex_gt, ex_null]"
  let ?es = "ex_qual_prog ?q"
  have i: "ExecInitQual ex_ce None ?q = Inr (Some ?es)" "ready None ?q ?es (ex_state ?es)"
    by (simp_all add: ex_qual_prog_def ExecInitQual_def ex_defs init_defs ready_defs adjust_jumps_def set_jump_def)
  show ?thesis using ExecQual_sem [OF i(1), of "ex_state ?es" ex_fe] i(2) ex_gt_run(3,4) [of ?es]
    by (auto simp: evaluates_def istrue_def sbool_def)
qed

definition ex_check_prog :: "Expr list \<Rightarrow> ExprState" where
  "ex_check_prog qual = prog_of (ExecInitCheck ex_ce None qual)"

theorem ExecCheck_sem_witness:
  "\<exists>s'. ExecCheck ex_fe (Some (ex_check_prog [ex_null])) (ex_state (ex_check_prog [ex_null])) = Some (Inr (True, s'))"
proof -
  let ?es = "ex_check_prog [ex_null]"
  have i: "ExecInitCheck ex_ce None [ex_null] = Inr (Some ?es)" "ready None [make_ands_explicit [ex_null]] ?es (ex_state ?es)"
    by (simp_all add: ex_check_prog_def ExecInitCheck_def make_ands_explicit_def ex_defs init_defs ready_defs)
  show ?thesis using ExecCheck_sem [OF i, of ex_fe] ex_gt_run(4) [of ?es]
    by (auto simp: evaluates_def make_ands_explicit_def isfalse_def)
qed

definition ex_targets :: "TargetEntry list" where
  "ex_targets = [\<lparr>te_expr = ex_gt, te_resno = 2, te_resjunk = False\<rparr>, \<lparr>te_expr = Var 1 1 23, te_resno = 1, te_resjunk = False\<rparr>]"

definition ex_proj :: ExprState where
  "ex_proj = (case ExecBuildProjectionInfoExt ex_ce None True None ex_targets of Inr es \<Rightarrow> es | Inl _ \<Rightarrow> new_ExprState)"

theorem projection_row_witness:
  "\<exists>d s'. ExecInterpExpr ex_fe (steps ex_proj) (ex_state ex_proj) = Some (Inr (d, s')) \<and> row_of s' = [Some 7, Some 1]"
proof -
  have i: "ExecBuildProjectionInfoExt ex_ce None True None ex_targets = Inr ex_proj"
    "list_all (target_ok True (length (resultslot (ex_state ex_proj)))) ex_targets"
    "ready None (map te_expr ex_targets) ex_proj (ex_state ex_proj)"
    by (simp_all add: ex_proj_def ex_targets_def target_ok_def ExecBuildProjectionInfoExt_def is_safe_var_def assign_step_def
        ex_defs init_defs ready_defs)
  show ?thesis using projection_row [OF i, of ex_fe]
    by (auto simp: ex_targets_def sem_target_def row_of_def ex_defs ex_sem_defs is_safe_var_def make_ro_opt_def
        slot_of_varno_def INNER_VAR_def OUTER_VAR_def BoolGetDatum_def)
qed

definition ex_and :: Expr where
  "ex_and = BoolExpr AND_EXPR [ex_gt, ex_null]"

lemma ex_and_run:
  "ExecInitExpr ex_ce None (Some ex_and) = Inr (Some (ex_prog ex_and))"
  "ready None [ex_and] (ex_prog ex_and) (ex_state (ex_prog ex_and))"
  by (simp_all add: ex_and_def ex_defs init_defs ready_defs init_bool_def bool_step_op_def adjust_jumps_def set_jump_def)

theorem bool_expr_run_witness:
  "\<exists>d s'. ExecInterpExpr ex_fe (steps (ex_prog ex_and)) (ex_state (ex_prog ex_and)) = Some (Inr (d, s')) \<and> nd d = None"
  using bool_expr_run [OF ex_and_run [unfolded ex_and_def], of ex_fe "[sbool True, None]"] ex_gt_run(3,4)
  by (auto simp: ex_and_def istrue_def isfalse_def sbool_def split: option.splits)

definition ex_case :: Expr where
  "ex_case = CaseExpr None [CaseWhen ex_gt (Var 1 1 23)] CurrentOfExpr"

lemma ex_case_run:
  "ExecInitExpr ex_ce None (Some ex_case) = Inr (Some (ex_prog ex_case))"
  "ready None [ex_case] (ex_prog ex_case) (ex_state (ex_prog ex_case))"
  by (simp_all add: ex_case_def ex_defs init_defs ready_defs init_case_def init_case_arg_def adjust_jumps_def set_jump_def
      cong: bindE_weak_cong let_weak_cong del: bindE_eq_Inr)

theorem case_run_witness:
  "\<exists>d s'. ExecInterpExpr ex_fe (steps (ex_prog ex_case)) (ex_state (ex_prog ex_case)) = Some (Inr (d, s')) \<and> nd d = Some 7"
proof -
  have v: "meaning_in ex_fe ex_ce (ex_state es) (Var 1 1 23) w = Inr (Some 7, w)" for es w
    by (simp add: ex_defs ex_sem_defs slot_of_varno_def INNER_VAR_def OUTER_VAR_def)
  have e: "list_all2 (\<lambda>w. evaluates ex_fe ex_ce (ex_state es) (condition w))
      [CaseWhen ex_gt (Var 1 1 23)] [sbool True]" for es
    using ex_gt_run(3,4) by simp
  have t: "taken [CaseWhen ex_gt (Var 1 1 23)] [sbool True] CurrentOfExpr = Var 1 1 23"
    by (simp add: istrue_def sbool_def)
  show ?thesis using case_run [OF ex_case_run [unfolded ex_case_def] e] by (auto simp only: t v ex_case_def sum.case prod.case)
qed

definition ex_domain :: Expr where
  "ex_domain = CoerceToDomain (Var 1 1 23) 99
     [DOM_CONSTRAINT_NOTNULL ''given'', DOM_CONSTRAINT_CHECK ''above'' (OpExpr 1 0 [CoerceToDomainValue, Const 9 False])]"

lemma ex_domain_run:
  "ExecInitExpr ex_ce None (Some ex_domain) = Inr (Some (ex_prog ex_domain))"
  "ready None [ex_domain] (ex_prog ex_domain) (ex_state (ex_prog ex_domain))"
  by (simp_all add: ex_domain_def ex_defs init_defs ready_defs init_coerce_to_domain_def init_checkvalue_def init_domainval_def
      cong: bindE_weak_cong let_weak_cong del: bindE_eq_Inr)

theorem domain_run_witness:
  "ExecInterpExpr ex_fe (steps (ex_prog ex_domain)) (ex_state (ex_prog ex_domain)) = Some (Inl (ERROR ERRCODE_CHECK_VIOLATION))"
proof -
  have e: "evaluates ex_fe ex_ce (ex_state es) (Var 1 1 23) (Some 7)" for es
    by (simp add: ex_defs ex_sem_defs slot_of_varno_def INNER_VAR_def OUTER_VAR_def)
  show ?thesis using domain_run [OF ex_domain_run [unfolded ex_domain_def] e, of "[None, sbool False]"]
    by (simp add: ex_domain_def ex_ce_def ex_state_def ex_sem_defs make_ro_opt_def sbool_def isfalse_def)
qed

definition ex_any :: Expr where
  "ex_any = ScalarArrayOpExpr 1 0 True (Var 1 1 23) (Const 0 False)"

lemma ex_any_run:
  "ExecInitExpr ex_ce None (Some ex_any) = Inr (Some (ex_prog ex_any))"
  "ready None [ex_any] (ex_prog ex_any) (ex_state (ex_prog ex_any))"
  by (simp_all add: ex_any_def ex_defs init_defs ready_defs init_scalar_array_def init_scalararrayop_def)

theorem scalar_array_run_witness:
  "\<exists>d s'. ExecInterpExpr ex_fe (steps (ex_prog ex_any)) (ex_state (ex_prog ex_any)) = Some (Inr (d, s')) \<and> istrue (nd d)"
proof -
  let ?f = "\<lambda>elt :: Datum option. case elt of None \<Rightarrow> None | Some b \<Rightarrow> Some (BoolGetDatum (b < 7))"
  have "sem_call ex_fe 1 0 [Some 7, elt] () = Inr (?f elt, ())" for elt
    by (cases elt) (simp_all add: sem_call_def ex_fe_def ex_call_def)
  then have e: "evaluates ex_fe ex_ce (ex_state es) (Var 1 1 23) (Some 7)" "evaluates ex_fe ex_ce (ex_state es) (Const 0 False) (Some 0)"
    "fe_array_items ex_fe 0 (world (ex_state es)) = [Some 3, None, Some 9]"
    "sem_call ex_fe 1 0 [Some 7, elt] (world (ex_state es)) = Inr (?f elt, world (ex_state es))" for es elt
    by (simp_all add: ex_defs ex_sem_defs slot_of_varno_def INNER_VAR_def OUTER_VAR_def)
  show ?thesis using scalar_array_run [OF ex_any_run [unfolded ex_any_def] e(1-4) refl]
    by (auto simp: ex_any_def element_result_def istrue_def)
qed

definition ex_least :: Expr where
  "ex_least = MinMaxExpr IS_LEAST 23 0 [Const 9 False, Var 1 2 23, Var 1 1 23]"

lemma ex_least_run:
  "ExecInitExpr ex_ce None (Some ex_least) = Inr (Some (ex_prog ex_least))"
  "ready None [ex_least] (ex_prog ex_least) (ex_state (ex_prog ex_least))"
  by (simp_all add: ex_least_def ex_defs init_defs ready_defs init_min_max_def)

lemma ex_compare_codes:
  "DatumGetInt32 (Int32GetDatum (- 1)) = - 1" "DatumGetInt32 (Int32GetDatum 0) = 0" "DatumGetInt32 (Int32GetDatum 1) = 1"
  by code_simp+

lemma ex_compares: "compares ex_fe 2 0 () uint"
  by (auto simp: compares_def ex_fe_def ex_call_def ex_compare_codes word_less_def)

theorem min_max_run_witness:
  "\<exists>d s'. ExecInterpExpr ex_fe (steps (ex_prog ex_least)) (ex_state (ex_prog ex_least)) = Some (Inr (d, s')) \<and> nd d = Some 7"
proof -
  have e: "list_all2 (evaluates ex_fe ex_ce (ex_state es)) [Const 9 False, Var 1 2 23, Var 1 1 23] [Some 9, None, Some 7]" for es
    by (simp add: ex_defs ex_sem_defs slot_of_varno_def INNER_VAR_def OUTER_VAR_def)
  have c: "compares ex_fe (ce_cmp_proc ex_ce 23) 0 (world (ex_state es)) uint" for es
    using ex_compares by (simp add: ex_ce_def)
  show ?thesis using min_max_run [OF ex_least_run [unfolded ex_least_def] e c]
    by (auto simp: ex_least_def better_def split: option.splits)
qed

theorem step_array_fits_witness: "length (steps (ex_prog ex_and)) \<le> steps_alloc (ex_prog ex_and)"
  using step_array_fits [OF ex_and_run(1)] ex_and_run(2) by (simp add: ready_def)

end
