(* ===== verification/ExprFast.thy ===== *)
theory ExprFast
  imports ExprRuns JitCompile
begin

text \<open>
  How a translated expression gets its evaluation function and what HEX adds to each of them
  (\<open>src/backend/executor/execExprInterp.c\<close>): \<open>ExecReadyInterpretedExpr\<close> picks one of fourteen fast
  paths or the interpreter, the first evaluation checks the variables against the slots, and every
  evaluation function first counts the evaluation in \<open>currentSQLExprs\<close>. The fast paths are
  equivalent to the interpreter, and the counters count.
\<close>

section \<open>Counting evaluations\<close>

text \<open>\<open>countExpr\<close> besides the switches of the compilation hook.\<close>

record exec_env = jit_env +
  je_countExpr :: bool

definition step_codes :: "ExprEvalStep list \<Rightarrow> int list" where
  "step_codes ss = map (\<lambda>op. eeop_code (step_op op)) ss"

definition count_match :: "hex_state \<Rightarrow> plan_info \<Rightarrow> 64 word \<Rightarrow> nat \<Rightarrow> ExprInfo \<Rightarrow> bool res" where
  "count_match st pl eHash steps_length e =
     (if ei_hash e = eHash \<and> ei_step_lens e = steps_length then
        (case ei_op e of
           Some p \<Rightarrow> bindE (deref_op st p) (\<lambda>opt. Inr (same_plan pl opt))
         | None \<Rightarrow> Inr False)
      else Inr False)"

text \<open>\<open>count\<close> is a \<open>long\<close>.\<close>

definition count_one :: "ExprInfo \<Rightarrow> ExprInfo" where
  "count_one e = e\<lparr>ei_count := sint (of_int (ei_count e + 1) :: 64 word)\<rparr>"

definition count_evaluation :: "plan_info \<Rightarrow> int list \<Rightarrow> hex_state \<Rightarrow> hex_state res" where
  "count_evaluation pl eeop_steps st =
     bindE (slot_search (currentSQLExprs st) (count_match st pl (calculate_hash eeop_steps) (length eeop_steps)) (allExprInfoNum st) 0)
       (\<lambda>(found_expr_info, expr_info_index).
          if found_expr_info then
            bindE (read_slot (currentSQLExprs st) expr_info_index) (\<lambda>e.
            bindE (write_slot (currentSQLExprs st) expr_info_index (count_one e)) (\<lambda>xs.
              Inr (st\<lparr>currentSQLExprs := xs\<rparr>)))
          else Inr st)"

text \<open>The hook of \<open>ExecInterpExpr\<close>, and that of the fast paths, which registers the expression again first.\<close>

definition interp_hook :: "exec_env \<Rightarrow> PlanState option \<Rightarrow> ExprEvalStep list \<Rightarrow> hex_state \<Rightarrow> hex_state res" where
  "interp_hook env parent ss st =
     (if je_enableME env \<and> je_containExpr env \<and> je_countExpr env then
        (case parent of
           None \<Rightarrow> Inr st
         | Some ps \<Rightarrow>
             (case ps_plan ps of
                None \<Rightarrow> Inr st
              | Some pl \<Rightarrow> count_evaluation pl (step_codes ss) st))
      else Inr st)"

definition just_hook :: "exec_env \<Rightarrow> PlanState option \<Rightarrow> ExprEvalStep list \<Rightarrow> hex_state \<Rightarrow> hex_state res" where
  "just_hook env parent ss st =
     (if je_enableME env \<and> je_containExpr env \<and> je_countExpr env then
        (case parent of
           None \<Rightarrow> Inr st
         | Some ps \<Rightarrow>
             (case ps_plan ps of
                None \<Rightarrow> Inr st
              | Some pl \<Rightarrow>
                  bindE (add_expression (je_fopen_ok env) (expr_tab st) (step_codes ss)) (\<lambda>(tab, _).
                    count_evaluation pl (step_codes ss) (st\<lparr>expr_tab := tab\<rparr>))))
      else Inr st)"

section \<open>The fast paths\<close>

text \<open>
  A fast path returns the datum and, when it writes it, \<open>*isnull\<close>; a step outside the array or of
  another kind than the selection saw is a fault.
\<close>

type_synonym 'w fast = "((Datum \<times> bool option) \<times> 'w rstate) eres"

definition ExecJustVarImpl :: "ExprEvalStep list \<Rightarrow> slot_kind \<Rightarrow> 'w rstate \<Rightarrow> 'w fast" where
  "ExecJustVarImpl ss k s =
     (case ss of
        _ # SVar _ attnum _ _ # _ \<Rightarrow>
          bindE (slot_getattr (slots s k) (attnum + 1)) (\<lambda>(slot, v).
            Inr ((fst v, Some (snd v)), s\<lparr>slots := (slots s)(k := slot)\<rparr>))
      | _ \<Rightarrow> Inl (Fault OutOfBounds))"

definition ExecJustAssignVarImpl :: "ExprEvalStep list \<Rightarrow> slot_kind \<Rightarrow> 'w rstate \<Rightarrow> 'w fast" where
  "ExecJustAssignVarImpl ss k s =
     (case ss of
        _ # SAssignVar _ resultnum attnum # _ \<Rightarrow>
          bindE (slot_getattr (slots s k) (attnum + 1)) (\<lambda>(slot, v).
            if resultnum < length (resultslot s)
            then Inr ((0, None), s\<lparr>slots := (slots s)(k := slot), resultslot := (resultslot s)[resultnum := v]\<rparr>)
            else Inl (Fault OutOfBounds))
      | _ \<Rightarrow> Inl (Fault OutOfBounds))"

definition ExecJustVarVirtImpl :: "ExprEvalStep list \<Rightarrow> slot_kind \<Rightarrow> 'w rstate \<Rightarrow> 'w fast" where
  "ExecJustVarVirtImpl ss k s =
     (case ss of
        SVar _ attnum _ _ # _ \<Rightarrow> bindE (slot_value (slots s k) attnum) (\<lambda>v. Inr ((fst v, Some (snd v)), s))
      | _ \<Rightarrow> Inl (Fault OutOfBounds))"

definition ExecJustAssignVarVirtImpl :: "ExprEvalStep list \<Rightarrow> slot_kind \<Rightarrow> 'w rstate \<Rightarrow> 'w fast" where
  "ExecJustAssignVarVirtImpl ss k s =
     (case ss of
        SAssignVar _ resultnum attnum # _ \<Rightarrow>
          bindE (slot_value (slots s k) attnum) (\<lambda>v.
            if resultnum < length (resultslot s) then Inr ((0, None), s\<lparr>resultslot := (resultslot s)[resultnum := v]\<rparr>)
            else Inl (Fault OutOfBounds))
      | _ \<Rightarrow> Inl (Fault OutOfBounds))"

definition apply_func_to_case :: "'w fenv \<Rightarrow> ExprEvalStep list \<Rightarrow> 'w rstate \<Rightarrow> 'w fast" where
  "apply_func_to_case fe ss s =
     (case ss of
        SCaseTestval (Some c) r # SFunc _ fd _ # _ \<Rightarrow>
          let s1 = set_res r (cells s c) s
          in if None \<in> set (fcinfo_args fd s1) then Inr ((0, Some True), s1)
             else bindE (invoke fe fd s1) (\<lambda>((d, isnull), w). Inr ((d, Some isnull), s1\<lparr>world := w\<rparr>))
      | _ \<Rightarrow> Inl (Fault OutOfBounds))"

definition just_const :: "ExprEvalStep list \<Rightarrow> 'w rstate \<Rightarrow> 'w fast" where
  "just_const ss s = (case ss of SConst v _ # _ \<Rightarrow> Inr ((fst v, Some (snd v)), s) | _ \<Rightarrow> Inl (Fault OutOfBounds))"

text \<open>The evaluation functions: the hook, then the work.\<close>

type_synonym 'w evaluation = "((Datum \<times> bool option) \<times> 'w rstate \<times> hex_state) eres"

definition lift_fault :: "'a res \<Rightarrow> 'a eres" where
  "lift_fault r = (case r of Inl f \<Rightarrow> Inl (Fault f) | Inr x \<Rightarrow> Inr x)"

definition after_hook :: "hex_state res \<Rightarrow> 'w fast \<Rightarrow> 'w evaluation" where
  "after_hook h r = bindE (lift_fault h) (\<lambda>st. bindE r (\<lambda>(ret, s). Inr (ret, s, st)))"

definition ExecJustInnerVar :: "exec_env \<Rightarrow> PlanState option \<Rightarrow> ExprEvalStep list \<Rightarrow> 'w rstate \<Rightarrow> hex_state \<Rightarrow> 'w evaluation" where
  "ExecJustInnerVar env parent ss s st = after_hook (just_hook env parent ss st) (ExecJustVarImpl ss INNER s)"

definition ExecJustOuterVar :: "exec_env \<Rightarrow> PlanState option \<Rightarrow> ExprEvalStep list \<Rightarrow> 'w rstate \<Rightarrow> hex_state \<Rightarrow> 'w evaluation" where
  "ExecJustOuterVar env parent ss s st = after_hook (just_hook env parent ss st) (ExecJustVarImpl ss OUTER s)"

definition ExecJustScanVar :: "exec_env \<Rightarrow> PlanState option \<Rightarrow> ExprEvalStep list \<Rightarrow> 'w rstate \<Rightarrow> hex_state \<Rightarrow> 'w evaluation" where
  "ExecJustScanVar env parent ss s st = after_hook (just_hook env parent ss st) (ExecJustVarImpl ss SCAN s)"

definition ExecJustAssignInnerVar :: "exec_env \<Rightarrow> PlanState option \<Rightarrow> ExprEvalStep list \<Rightarrow> 'w rstate \<Rightarrow> hex_state \<Rightarrow> 'w evaluation" where
  "ExecJustAssignInnerVar env parent ss s st = after_hook (just_hook env parent ss st) (ExecJustAssignVarImpl ss INNER s)"

definition ExecJustAssignOuterVar :: "exec_env \<Rightarrow> PlanState option \<Rightarrow> ExprEvalStep list \<Rightarrow> 'w rstate \<Rightarrow> hex_state \<Rightarrow> 'w evaluation" where
  "ExecJustAssignOuterVar env parent ss s st = after_hook (just_hook env parent ss st) (ExecJustAssignVarImpl ss OUTER s)"

definition ExecJustAssignScanVar :: "exec_env \<Rightarrow> PlanState option \<Rightarrow> ExprEvalStep list \<Rightarrow> 'w rstate \<Rightarrow> hex_state \<Rightarrow> 'w evaluation" where
  "ExecJustAssignScanVar env parent ss s st = after_hook (just_hook env parent ss st) (ExecJustAssignVarImpl ss SCAN s)"

definition ExecJustApplyFuncToCase :: "'w fenv \<Rightarrow> exec_env \<Rightarrow> PlanState option \<Rightarrow> ExprEvalStep list \<Rightarrow> 'w rstate \<Rightarrow> hex_state \<Rightarrow> 'w evaluation" where
  "ExecJustApplyFuncToCase fe env parent ss s st = after_hook (just_hook env parent ss st) (apply_func_to_case fe ss s)"

definition ExecJustConst :: "exec_env \<Rightarrow> PlanState option \<Rightarrow> ExprEvalStep list \<Rightarrow> 'w rstate \<Rightarrow> hex_state \<Rightarrow> 'w evaluation" where
  "ExecJustConst env parent ss s st = after_hook (just_hook env parent ss st) (just_const ss s)"

definition ExecJustInnerVarVirt :: "exec_env \<Rightarrow> PlanState option \<Rightarrow> ExprEvalStep list \<Rightarrow> 'w rstate \<Rightarrow> hex_state \<Rightarrow> 'w evaluation" where
  "ExecJustInnerVarVirt env parent ss s st = after_hook (just_hook env parent ss st) (ExecJustVarVirtImpl ss INNER s)"

definition ExecJustOuterVarVirt :: "exec_env \<Rightarrow> PlanState option \<Rightarrow> ExprEvalStep list \<Rightarrow> 'w rstate \<Rightarrow> hex_state \<Rightarrow> 'w evaluation" where
  "ExecJustOuterVarVirt env parent ss s st = after_hook (just_hook env parent ss st) (ExecJustVarVirtImpl ss OUTER s)"

definition ExecJustScanVarVirt :: "exec_env \<Rightarrow> PlanState option \<Rightarrow> ExprEvalStep list \<Rightarrow> 'w rstate \<Rightarrow> hex_state \<Rightarrow> 'w evaluation" where
  "ExecJustScanVarVirt env parent ss s st = after_hook (just_hook env parent ss st) (ExecJustVarVirtImpl ss SCAN s)"

definition ExecJustAssignInnerVarVirt :: "exec_env \<Rightarrow> PlanState option \<Rightarrow> ExprEvalStep list \<Rightarrow> 'w rstate \<Rightarrow> hex_state \<Rightarrow> 'w evaluation" where
  "ExecJustAssignInnerVarVirt env parent ss s st = after_hook (just_hook env parent ss st) (ExecJustAssignVarVirtImpl ss INNER s)"

definition ExecJustAssignOuterVarVirt :: "exec_env \<Rightarrow> PlanState option \<Rightarrow> ExprEvalStep list \<Rightarrow> 'w rstate \<Rightarrow> hex_state \<Rightarrow> 'w evaluation" where
  "ExecJustAssignOuterVarVirt env parent ss s st = after_hook (just_hook env parent ss st) (ExecJustAssignVarVirtImpl ss OUTER s)"

definition ExecJustAssignScanVarVirt :: "exec_env \<Rightarrow> PlanState option \<Rightarrow> ExprEvalStep list \<Rightarrow> 'w rstate \<Rightarrow> hex_state \<Rightarrow> 'w evaluation" where
  "ExecJustAssignScanVarVirt env parent ss s st = after_hook (just_hook env parent ss st) (ExecJustAssignVarVirtImpl ss SCAN s)"

text \<open>\<open>ExecInterpExpr\<close> with its hook; \<open>None\<close> is a run that does not end.\<close>

definition ExecInterpExpr_hooked ::
  "'w fenv \<Rightarrow> exec_env \<Rightarrow> PlanState option \<Rightarrow> ExprEvalStep list \<Rightarrow> 'w rstate \<Rightarrow> hex_state \<Rightarrow> 'w evaluation option" where
  "ExecInterpExpr_hooked fe env parent ss s st =
     (case interp_hook env parent ss st of
        Inl f \<Rightarrow> Some (Inl (Fault f))
      | Inr st1 \<Rightarrow>
          map_option (\<lambda>r. bindE r (\<lambda>((d, isnull), s1). Inr ((d, Some isnull), s1, st1))) (ExecInterpExpr fe ss s))"

section \<open>Selecting the evaluation function\<close>

datatype evalfunc =
    JustVar slot_kind | JustAssignVar slot_kind | JustApplyFuncToCase | JustConst
  | JustVarVirt slot_kind | JustAssignVarVirt slot_kind | InterpExpr

fun casetest_value :: "ExprEvalStep \<Rightarrow> loc option" where
  "casetest_value (SCaseTestval c _) = c"
| "casetest_value _ = None"

definition ExecReadyInterpretedExpr :: "ExprEvalStep list \<Rightarrow> evalfunc" where
  "ExecReadyInterpretedExpr ss =
     (if length ss = 3 then
        (let step0 = step_op (ss ! 0); step1 = step_op (ss ! 1)
         in if step0 = EEOP_INNER_FETCHSOME \<and> step1 = EEOP_INNER_VAR then JustVar INNER
            else if step0 = EEOP_OUTER_FETCHSOME \<and> step1 = EEOP_OUTER_VAR then JustVar OUTER
            else if step0 = EEOP_SCAN_FETCHSOME \<and> step1 = EEOP_SCAN_VAR then JustVar SCAN
            else if step0 = EEOP_INNER_FETCHSOME \<and> step1 = EEOP_ASSIGN_INNER_VAR then JustAssignVar INNER
            else if step0 = EEOP_OUTER_FETCHSOME \<and> step1 = EEOP_ASSIGN_OUTER_VAR then JustAssignVar OUTER
            else if step0 = EEOP_SCAN_FETCHSOME \<and> step1 = EEOP_ASSIGN_SCAN_VAR then JustAssignVar SCAN
            else if step0 = EEOP_CASE_TESTVAL \<and> step1 = EEOP_FUNCEXPR_STRICT \<and> casetest_value (ss ! 0) \<noteq> None
              then JustApplyFuncToCase
            else InterpExpr)
      else if length ss = 2 then
        (let step0 = step_op (ss ! 0)
         in if step0 = EEOP_CONST then JustConst
            else if step0 = EEOP_INNER_VAR then JustVarVirt INNER
            else if step0 = EEOP_OUTER_VAR then JustVarVirt OUTER
            else if step0 = EEOP_SCAN_VAR then JustVarVirt SCAN
            else if step0 = EEOP_ASSIGN_INNER_VAR then JustAssignVarVirt INNER
            else if step0 = EEOP_ASSIGN_OUTER_VAR then JustAssignVarVirt OUTER
            else if step0 = EEOP_ASSIGN_SCAN_VAR then JustAssignVarVirt SCAN
            else InterpExpr)
      else InterpExpr)"

fun call_evalfunc ::
  "'w fenv \<Rightarrow> exec_env \<Rightarrow> PlanState option \<Rightarrow> evalfunc \<Rightarrow> ExprEvalStep list \<Rightarrow> 'w rstate \<Rightarrow> hex_state \<Rightarrow> 'w evaluation option" where
  "call_evalfunc fe env parent (JustVar INNER) ss s st = Some (ExecJustInnerVar env parent ss s st)"
| "call_evalfunc fe env parent (JustVar OUTER) ss s st = Some (ExecJustOuterVar env parent ss s st)"
| "call_evalfunc fe env parent (JustVar SCAN) ss s st = Some (ExecJustScanVar env parent ss s st)"
| "call_evalfunc fe env parent (JustAssignVar INNER) ss s st = Some (ExecJustAssignInnerVar env parent ss s st)"
| "call_evalfunc fe env parent (JustAssignVar OUTER) ss s st = Some (ExecJustAssignOuterVar env parent ss s st)"
| "call_evalfunc fe env parent (JustAssignVar SCAN) ss s st = Some (ExecJustAssignScanVar env parent ss s st)"
| "call_evalfunc fe env parent (JustVarVirt INNER) ss s st = Some (ExecJustInnerVarVirt env parent ss s st)"
| "call_evalfunc fe env parent (JustVarVirt OUTER) ss s st = Some (ExecJustOuterVarVirt env parent ss s st)"
| "call_evalfunc fe env parent (JustVarVirt SCAN) ss s st = Some (ExecJustScanVarVirt env parent ss s st)"
| "call_evalfunc fe env parent (JustAssignVarVirt INNER) ss s st = Some (ExecJustAssignInnerVarVirt env parent ss s st)"
| "call_evalfunc fe env parent (JustAssignVarVirt OUTER) ss s st = Some (ExecJustAssignOuterVarVirt env parent ss s st)"
| "call_evalfunc fe env parent (JustAssignVarVirt SCAN) ss s st = Some (ExecJustAssignScanVarVirt env parent ss s st)"
| "call_evalfunc fe env parent JustApplyFuncToCase ss s st = Some (ExecJustApplyFuncToCase fe env parent ss s st)"
| "call_evalfunc fe env parent JustConst ss s st = Some (ExecJustConst env parent ss s st)"
| "call_evalfunc fe env parent InterpExpr ss s st = ExecInterpExpr_hooked fe env parent ss s st"

section \<open>The check on the first evaluation\<close>

definition CheckVarSlotCompatibility :: "TupleTableSlot \<Rightarrow> nat \<Rightarrow> Oid \<Rightarrow> unit eres" where
  "CheckVarSlotCompatibility inslot attnum vartype =
     (if attnum > 0 then
        (if attnum > length (tts_attrs inslot) then Inl (ERROR ERRCODE_INTERNAL_ERROR)
         else
           let attr = tts_attrs inslot ! (attnum - 1)
           in if fst attr then Inl (ERROR ERRCODE_UNDEFINED_COLUMN)
              else if vartype \<noteq> snd attr then Inl (ERROR ERRCODE_DATATYPE_MISMATCH)
              else Inr ())
      else Inr ())"

fun CheckExprStillValid :: "ExprEvalStep list \<Rightarrow> (slot_kind \<Rightarrow> TupleTableSlot) \<Rightarrow> unit eres" where
  "CheckExprStillValid [] sl = Inr ()"
| "CheckExprStillValid (op # ops) sl =
     bindE (case op of SVar k attnum vartype _ \<Rightarrow> CheckVarSlotCompatibility (sl k) (attnum + 1) vartype | _ \<Rightarrow> Inr ())
       (\<lambda>_. CheckExprStillValid ops sl)"

text \<open>A ready expression: \<open>evalfunc\<close> is \<open>ExecInterpExprStillValid\<close> until the first check has passed.\<close>

record ready_expr =
  re_steps :: "ExprEvalStep list"
  re_checked :: bool
  re_evalfunc_private :: evalfunc

definition ExecInterpExprStillValid ::
  "'w fenv \<Rightarrow> exec_env \<Rightarrow> PlanState option \<Rightarrow> ready_expr \<Rightarrow> 'w rstate \<Rightarrow> hex_state \<Rightarrow> ready_expr \<times> 'w evaluation option" where
  "ExecInterpExprStillValid fe env parent re s st =
     (case CheckExprStillValid (re_steps re) (slots s) of
        Inl e \<Rightarrow> (re, Some (Inl e))
      | Inr _ \<Rightarrow> (re\<lparr>re_checked := True\<rparr>, call_evalfunc fe env parent (re_evalfunc_private re) (re_steps re) s st))"

definition ExecEvalExpr ::
  "'w fenv \<Rightarrow> exec_env \<Rightarrow> PlanState option \<Rightarrow> ready_expr \<Rightarrow> 'w rstate \<Rightarrow> hex_state \<Rightarrow> ready_expr \<times> 'w evaluation option" where
  "ExecEvalExpr fe env parent re s st =
     (if re_checked re then (re, call_evalfunc fe env parent (re_evalfunc_private re) (re_steps re) s st)
      else ExecInterpExprStillValid fe env parent re s st)"

text \<open>
  \<open>ExecReadyExpr\<close>: the provider compiles the expression, or it becomes ready for interpretation.
  \<open>None\<close> is the error of loading the provider.
\<close>

definition ExecReadyExpr ::
  "exec_env \<Rightarrow> (PlanState \<Rightarrow> 32 word \<Rightarrow> bool) \<Rightarrow> ExprEvalStep list \<Rightarrow> PlanState option \<Rightarrow> hex_state \<Rightarrow>
   (hex_state \<times> PlanState option \<times> ready_expr option option) res" where
  "ExecReadyExpr env compile_expr ss parent st =
     bindE (jit_compile_expr (jit_env.truncate env) compile_expr (step_codes ss) parent st) (\<lambda>(st1, ps1, r).
       Inr (st1, ps1,
         case r of
           None \<Rightarrow> None
         | Some True \<Rightarrow> Some None
         | Some False \<Rightarrow>
             Some (Some \<lparr>re_steps = ss, re_checked = False, re_evalfunc_private = ExecReadyInterpretedExpr ss\<rparr>)))"

section \<open>What the selection sees\<close>

lemma opcode_cases:
  "fetch_op k = (case k of INNER \<Rightarrow> EEOP_INNER_FETCHSOME | OUTER \<Rightarrow> EEOP_OUTER_FETCHSOME | SCAN \<Rightarrow> EEOP_SCAN_FETCHSOME)"
  "var_op k = (case k of INNER \<Rightarrow> EEOP_INNER_VAR | OUTER \<Rightarrow> EEOP_OUTER_VAR | SCAN \<Rightarrow> EEOP_SCAN_VAR)"
  "sysvar_op k = (case k of INNER \<Rightarrow> EEOP_INNER_SYSVAR | OUTER \<Rightarrow> EEOP_OUTER_SYSVAR | SCAN \<Rightarrow> EEOP_SCAN_SYSVAR)"
  "assign_op k = (case k of INNER \<Rightarrow> EEOP_ASSIGN_INNER_VAR | OUTER \<Rightarrow> EEOP_ASSIGN_OUTER_VAR | SCAN \<Rightarrow> EEOP_ASSIGN_SCAN_VAR)"
  by (cases k; simp)+

text \<open>Which steps have one of the codes the selection looks for.\<close>

definition selectable :: "ExprEvalStep \<Rightarrow> bool" where
  "selectable x =
     (case x of SFetchsome _ _ \<Rightarrow> True | SVar _ _ _ _ \<Rightarrow> True | SAssignVar _ _ _ \<Rightarrow> True | SConst _ _ \<Rightarrow> True
      | SCaseTestval _ _ \<Rightarrow> True | SFunc FUNCEXPR_STRICT _ _ \<Rightarrow> True | _ \<Rightarrow> False)"

definition selected_codes :: "ExprEvalOp list" where
  "selected_codes = [EEOP_INNER_FETCHSOME, EEOP_OUTER_FETCHSOME, EEOP_SCAN_FETCHSOME, EEOP_INNER_VAR, EEOP_OUTER_VAR, EEOP_SCAN_VAR,
     EEOP_ASSIGN_INNER_VAR, EEOP_ASSIGN_OUTER_VAR, EEOP_ASSIGN_SCAN_VAR, EEOP_CONST, EEOP_CASE_TESTVAL, EEOP_FUNCEXPR_STRICT]"

lemma opcode_func: "func_opcode f \<in> set selected_codes \<longleftrightarrow> f = FUNCEXPR_STRICT" "func_opcode f = EEOP_FUNCEXPR_STRICT \<longleftrightarrow> f = FUNCEXPR_STRICT"
  by (cases f; simp add: selected_codes_def)+

lemma opcode_bool: "bool_opcode b \<notin> set selected_codes"
  by (cases b) (simp_all add: selected_codes_def)

lemma opcode_jump: "jump_opcode j \<notin> set selected_codes"
  by (cases j) (simp_all add: selected_codes_def)

lemma opcode_nulltest: "nulltest_op nt ar \<notin> set selected_codes"
  by (cases nt) (simp_all add: selected_codes_def)

lemma opcode_booltest: "booltest_op bt \<notin> set selected_codes"
  by (cases bt) (simp_all add: selected_codes_def)

lemma opcode_sysvar: "sysvar_op k \<notin> set selected_codes"
  by (cases k) (simp_all add: selected_codes_def)

lemmas opcode_other = opcode_func opcode_bool opcode_jump opcode_nulltest opcode_booltest opcode_sysvar

lemma step_op_selectable: "step_op x \<in> set selected_codes \<Longrightarrow> selectable x"
  using opcode_other by (cases x) (auto simp: selectable_def selected_codes_def split: if_splits)

text \<open>The programs each evaluation function is selected for.\<close>

fun shape_of :: "evalfunc \<Rightarrow> ExprEvalStep list \<Rightarrow> bool" where
  "shape_of (JustVar k) ss = (\<exists>n a t r. ss = [SFetchsome k n, SVar k a t r, SDone])"
| "shape_of (JustAssignVar k) ss = (\<exists>n rn a. ss = [SFetchsome k n, SAssignVar k rn a, SDone])"
| "shape_of JustApplyFuncToCase ss = (\<exists>c r fd r'. ss = [SCaseTestval (Some c) r, SFunc FUNCEXPR_STRICT fd r', SDone])"
| "shape_of JustConst ss = (\<exists>v r. ss = [SConst v r, SDone])"
| "shape_of (JustVarVirt k) ss = (\<exists>a t r. ss = [SVar k a t r, SDone])"
| "shape_of (JustAssignVarVirt k) ss = (\<exists>rn a. ss = [SAssignVar k rn a, SDone])"
| "shape_of InterpExpr ss = True"

lemma step_op_shape:
  "step_op x = EEOP_INNER_FETCHSOME \<longleftrightarrow> (\<exists>n. x = SFetchsome INNER n)"
  "step_op x = EEOP_OUTER_FETCHSOME \<longleftrightarrow> (\<exists>n. x = SFetchsome OUTER n)"
  "step_op x = EEOP_SCAN_FETCHSOME \<longleftrightarrow> (\<exists>n. x = SFetchsome SCAN n)"
  "step_op x = EEOP_INNER_VAR \<longleftrightarrow> (\<exists>a t r. x = SVar INNER a t r)"
  "step_op x = EEOP_OUTER_VAR \<longleftrightarrow> (\<exists>a t r. x = SVar OUTER a t r)"
  "step_op x = EEOP_SCAN_VAR \<longleftrightarrow> (\<exists>a t r. x = SVar SCAN a t r)"
  "step_op x = EEOP_ASSIGN_INNER_VAR \<longleftrightarrow> (\<exists>n a. x = SAssignVar INNER n a)"
  "step_op x = EEOP_ASSIGN_OUTER_VAR \<longleftrightarrow> (\<exists>n a. x = SAssignVar OUTER n a)"
  "step_op x = EEOP_ASSIGN_SCAN_VAR \<longleftrightarrow> (\<exists>n a. x = SAssignVar SCAN n a)"
  "step_op x = EEOP_CONST \<longleftrightarrow> (\<exists>v r. x = SConst v r)"
  "step_op x = EEOP_CASE_TESTVAL \<longleftrightarrow> (\<exists>c r. x = SCaseTestval c r)"
  "step_op x = EEOP_FUNCEXPR_STRICT \<longleftrightarrow> (\<exists>fd r. x = SFunc FUNCEXPR_STRICT fd r)"
  using step_op_selectable [of x]
  by (cases x; auto simp: selected_codes_def selectable_def opcode_cases split: slot_kind.splits func_op.splits)+

lemma ready_three: "shape_of (ExecReadyInterpretedExpr [x, y, SDone]) [x, y, SDone]"
  by (auto simp: ExecReadyInterpretedExpr_def Let_def step_op_shape)

lemma ready_two: "shape_of (ExecReadyInterpretedExpr [x, SDone]) [x, SDone]"
  by (auto simp: ExecReadyInterpretedExpr_def Let_def step_op_shape)

lemma ready_shape:
  assumes "ss \<noteq> []" "last ss = SDone"
  shows "shape_of (ExecReadyInterpretedExpr ss) ss"
proof (cases "length ss = 3 \<or> length ss = 2")
  case True
  then consider x y z where "ss = [x, y, z]" | x y where "ss = [x, y]"
    by (auto simp: numeral_3_eq_3 numeral_2_eq_2 length_Suc_conv)
  then show ?thesis using assms ready_three ready_two by cases auto
qed (simp add: ExecReadyInterpretedExpr_def)

section \<open>The fast paths and the interpreter\<close>

text \<open>What the translation gives besides the codes: the deforming step fetches just the variable, and the result goes to \<open>RES\<close>.\<close>

definition fetches :: "ExprEvalStep \<Rightarrow> ExprEvalStep \<Rightarrow> bool" where
  "fetches x y =
     (case x of
        SFetchsome k n \<Rightarrow> (case y of SVar _ a _ _ \<Rightarrow> n = Suc a | SAssignVar _ _ a \<Rightarrow> n = Suc a | _ \<Rightarrow> False)
      | _ \<Rightarrow> False)"

definition to_result :: "ExprEvalStep \<Rightarrow> bool" where
  "to_result x = (case x of SVar _ _ _ r \<Rightarrow> r = RES | SConst _ r \<Rightarrow> r = RES | SFunc _ _ r \<Rightarrow> r = RES | _ \<Rightarrow> False)"

definition fast_ok :: "ExprEvalStep list \<Rightarrow> bool" where
  "fast_ok ss =
     (case ExecReadyInterpretedExpr ss of
        JustVar _ \<Rightarrow> fetches (ss ! 0) (ss ! 1) \<and> to_result (ss ! 1)
      | JustAssignVar _ \<Rightarrow> fetches (ss ! 0) (ss ! 1)
      | JustApplyFuncToCase \<Rightarrow> to_result (ss ! 1)
      | JustConst \<Rightarrow> to_result (ss ! 0)
      | JustVarVirt _ \<Rightarrow> to_result (ss ! 0)
      | _ \<Rightarrow> True)"

fun same_result :: "'w evaluation \<Rightarrow> 'w evaluation \<Rightarrow> bool" where
  "same_result (Inl e) (Inl e') = (e = e')"
| "same_result (Inr ((d, isnull), s, st)) (Inr ((d', isnull'), s', st')) =
     (slots s = slots s' \<and> resultslot s = resultslot s' \<and> world s = world s' \<and> st = st' \<and>
      (case isnull of None \<Rightarrow> True | Some b \<Rightarrow> Some (nd (d, b)) = map_option (\<lambda>b'. nd (d', b')) isnull'))"
| "same_result _ _ = False"

lemma same_result_refl: "same_result r (r :: 'w evaluation)"
  by (cases "(r, r)" rule: same_result.cases) (auto split: option.splits)

text \<open>Runs of two and three steps.\<close>

definition straight :: "'w fenv \<Rightarrow> ExprEvalStep \<Rightarrow> bool" where
  "straight fe x \<longleftrightarrow> (\<forall>s c s'. exec_step fe x s = Inr (c, s') \<longrightarrow> c = Next)"

definition effect :: "'w fenv \<Rightarrow> ExprEvalStep \<Rightarrow> 'w rstate \<Rightarrow> 'w rstate eres" where
  "effect fe x s = bindE (exec_step fe x s) (\<lambda>(_, s1). Inr s1)"

lemma run_straight:
  assumes "straight fe (P ! i)" "i < length P"
  shows "run fe P (int i) s = (case effect fe (P ! i) s of Inl e \<Rightarrow> Some (Inl e) | Inr s1 \<Rightarrow> run fe P (int (Suc i)) s1)"
proof (cases "exec_step fe (P ! i) s")
  case (Inr x)
  then have "exec_step fe (P ! i) s = Inr (Next, snd x)" using assms(1) unfolding straight_def by (metis prod.collapse)
  then show ?thesis using assms(2) by (subst run.simps) (simp add: effect_def add.commute)
qed (use assms(2) in \<open>subst run.simps, simp add: effect_def\<close>)

lemma interp_two:
  assumes "straight fe x"
  shows "ExecInterpExpr fe [x, SDone] s = Some (bindE (effect fe x s) (\<lambda>s1. Inr (cells s1 RES, s1)))"
proof -
  have "run fe [x, SDone] 1 s1 = Some (Inr s1)" for s1 by (subst run.simps) simp
  then show ?thesis using run_straight [of fe "[x, SDone]" 0 s] assms by (simp add: ExecInterpExpr_def split: sum.splits)
qed

lemma interp_three:
  assumes "straight fe x" "straight fe y"
  shows "ExecInterpExpr fe [x, y, SDone] s =
    Some (bindE (effect fe x s) (\<lambda>s1. bindE (effect fe y s1) (\<lambda>s2. Inr (cells s2 RES, s2))))"
proof -
  have "run fe [x, y, SDone] 2 s1 = Some (Inr s1)" for s1 by (subst run.simps) simp
  then show ?thesis using run_straight [of fe "[x, y, SDone]" 0 s] run_straight [of fe "[x, y, SDone]" 1] assms
    by (simp add: ExecInterpExpr_def numeral_2_eq_2 split: sum.splits)
qed

lemma straight_steps [simp]:
  "straight fe (SFetchsome k n)" "straight fe (SVar k a t r)" "straight fe (SAssignVar k rn a)" "straight fe (SConst v r)"
  "straight fe (SCaseTestval c r)" "straight fe (SFunc FUNCEXPR_STRICT fd r)"
  by (auto simp: straight_def exec_fetchsome_def exec_var_def exec_assign_var_def assign_result_def exec_testval_def
      exec_funcexpr_strict_def next_with_def next_call_def split: if_splits)

lemma effect_steps:
  "effect fe (SFetchsome k n) s = bindE (slot_getsomeattrs (slots s k) n) (\<lambda>sl. Inr (s\<lparr>slots := (slots s)(k := sl)\<rparr>))"
  "effect fe (SVar k a t r) s = bindE (slot_value (slots s k) a) (\<lambda>v. Inr (set_res r v s))"
  "effect fe (SAssignVar k rn a) s =
     bindE (slot_value (slots s k) a) (\<lambda>v.
       if rn < length (resultslot s) then Inr (s\<lparr>resultslot := (resultslot s)[rn := v]\<rparr>) else Inl (Fault OutOfBounds))"
  "effect fe (SConst v r) s = Inr (set_res r v s)"
  "effect fe (SCaseTestval (Some c) r) s = Inr (set_res r (cells s c) s)"
  "effect fe (SFunc FUNCEXPR_STRICT fd r) s =
     (if None \<in> set (fcinfo_args fd s) then Inr (set_res r (fst (cells s r), True) s)
      else bindE (invoke fe fd s) (\<lambda>(v, w). Inr (set_res r v (s\<lparr>world := w\<rparr>))))"
  by (auto simp: effect_def exec_fetchsome_def exec_var_def exec_assign_var_def assign_result_def exec_testval_def
      exec_funcexpr_strict_def next_with_def next_call_def bindE_def split: sum.splits prod.splits)

lemma slot_getattr_Suc:
  "slot_getattr sl (Suc a) = bindE (slot_getsomeattrs sl (Suc a)) (\<lambda>sl1. bindE (slot_value sl1 a) (\<lambda>v. Inr (sl1, v)))"
  by (simp add: slot_getattr_def slot_getsomeattrs_def)

text \<open>The work of an evaluation function, without its hook.\<close>

fun fast_work :: "'w fenv \<Rightarrow> evalfunc \<Rightarrow> ExprEvalStep list \<Rightarrow> 'w rstate \<Rightarrow> 'w fast option" where
  "fast_work fe (JustVar k) ss s = Some (ExecJustVarImpl ss k s)"
| "fast_work fe (JustAssignVar k) ss s = Some (ExecJustAssignVarImpl ss k s)"
| "fast_work fe JustApplyFuncToCase ss s = Some (apply_func_to_case fe ss s)"
| "fast_work fe JustConst ss s = Some (just_const ss s)"
| "fast_work fe (JustVarVirt k) ss s = Some (ExecJustVarVirtImpl ss k s)"
| "fast_work fe (JustAssignVarVirt k) ss s = Some (ExecJustAssignVarVirtImpl ss k s)"
| "fast_work fe InterpExpr ss s = map_option (\<lambda>r. bindE r (\<lambda>((d, isnull), s1). Inr ((d, Some isnull), s1))) (ExecInterpExpr fe ss s)"

text \<open>For the proofs: each evaluation function is a hook followed by its work.\<close>

definition hook_of :: "exec_env \<Rightarrow> PlanState option \<Rightarrow> evalfunc \<Rightarrow> ExprEvalStep list \<Rightarrow> hex_state \<Rightarrow> hex_state res" where
  "hook_of env parent f = (if f = InterpExpr then interp_hook env parent else just_hook env parent)"

lemma call_evalfunc_work:
  "call_evalfunc fe env parent f ss s st =
     (case hook_of env parent f ss st of
        Inl e \<Rightarrow> Some (Inl (Fault e))
      | Inr st1 \<Rightarrow> map_option (\<lambda>r. bindE r (\<lambda>(ret, s1). Inr (ret, s1, st1))) (fast_work fe f ss s))"
proof -
  have a: "after_hook h r = (case h of Inl e \<Rightarrow> Inl (Fault e) | Inr st1 \<Rightarrow> bindE r (\<lambda>(ret, s1). Inr (ret, s1, st1)))" for h and r :: "'a fast"
    by (simp add: after_hook_def lift_fault_def split: sum.splits)
  note defs = ExecJustInnerVar_def ExecJustOuterVar_def ExecJustScanVar_def ExecJustAssignInnerVar_def ExecJustAssignOuterVar_def
    ExecJustAssignScanVar_def ExecJustInnerVarVirt_def ExecJustOuterVarVirt_def ExecJustScanVarVirt_def ExecJustAssignInnerVarVirt_def
    ExecJustAssignOuterVarVirt_def ExecJustAssignScanVarVirt_def
  have v: "call_evalfunc fe env parent f ss s st = Some (after_hook (just_hook env parent ss st) (the (fast_work fe f ss s)))" if "f \<noteq> InterpExpr"
    using that
  proof (cases f)
    case (JustVar k) then show ?thesis by (cases k) (simp_all add: defs)
  next
    case (JustAssignVar k) then show ?thesis by (cases k) (simp_all add: defs)
  next
    case (JustVarVirt k) then show ?thesis by (cases k) (simp_all add: defs)
  next
    case (JustAssignVarVirt k) then show ?thesis by (cases k) (simp_all add: defs)
  qed (simp_all add: ExecJustApplyFuncToCase_def ExecJustConst_def)
  have w: "fast_work fe f ss s = Some (the (fast_work fe f ss s))" if "f \<noteq> InterpExpr" using that by (cases f) simp_all
  show ?thesis
  proof (cases "f = InterpExpr")
    case True
    have "bindE (bindE r (\<lambda>((d, isnull), s1). Inr ((d, Some isnull), s1))) (\<lambda>(ret, s1). Inr (ret, s1, st1)) =
        bindE r (\<lambda>((d, isnull), s1). Inr ((d, Some isnull), s1, st1))" for r :: "(NullableDatum \<times> 'a rstate) eres" and st1 :: hex_state
      by (cases r) (auto split: prod.splits)
    then show ?thesis using True
      by (simp add: hook_of_def ExecInterpExpr_hooked_def option.map_comp comp_def split: sum.splits)
  next
    case False
    obtain r where "fast_work fe f ss s = Some r" using w [OF False] by blast
    then show ?thesis unfolding v [OF False] a using False by (simp add: hook_of_def split: sum.splits)
  qed
qed

lemma fast_work_equiv:
  assumes "shape_of f ss" "ExecReadyInterpretedExpr ss = f" "fast_ok ss" "f \<noteq> InterpExpr"
  shows "\<exists>r r'. fast_work fe f ss s = Some r \<and> fast_work fe InterpExpr ss s = Some r' \<and>
    same_result (bindE r (\<lambda>(ret, s1). Inr (ret, s1, st))) (bindE r' (\<lambda>(ret, s1). Inr (ret, s1, st)))"
proof (cases f)
  case (JustVar k)
  then obtain a t where "ss = [SFetchsome k (Suc a), SVar k a t RES, SDone]" using assms
    by (auto simp: fast_ok_def fetches_def to_result_def)
  then show ?thesis using JustVar
    by (simp add: interp_three ExecJustVarImpl_def slot_getattr_Suc effect_steps bindE_def set_res_def split: sum.splits prod.splits)
next
  case (JustAssignVar k)
  then obtain rn a where "ss = [SFetchsome k (Suc a), SAssignVar k rn a, SDone]" using assms
    by (auto simp: fast_ok_def fetches_def)
  then show ?thesis using JustAssignVar
    by (auto simp: interp_three ExecJustAssignVarImpl_def slot_getattr_Suc effect_steps bindE_def split: sum.splits prod.splits)
next
  case JustApplyFuncToCase
  then obtain c r fd where "ss = [SCaseTestval (Some c) r, SFunc FUNCEXPR_STRICT fd RES, SDone]" using assms
    by (auto simp: fast_ok_def to_result_def)
  then show ?thesis using JustApplyFuncToCase
    by (simp add: interp_three apply_func_to_case_def Let_def effect_steps bindE_def set_res_def split: sum.splits prod.splits)
next
  case JustConst
  then obtain v where "ss = [SConst v RES, SDone]" using assms by (auto simp: fast_ok_def to_result_def)
  then show ?thesis using JustConst by (simp add: interp_two just_const_def effect_steps set_res_def split: prod.splits)
next
  case (JustVarVirt k)
  then obtain a t where "ss = [SVar k a t RES, SDone]" using assms by (auto simp: fast_ok_def to_result_def)
  then show ?thesis using JustVarVirt
    by (simp add: interp_two ExecJustVarVirtImpl_def effect_steps bindE_def set_res_def split: sum.splits prod.splits)
next
  case (JustAssignVarVirt k)
  then obtain rn a where "ss = [SAssignVar k rn a, SDone]" using assms by auto
  then show ?thesis using JustAssignVarVirt
    by (simp add: interp_two ExecJustAssignVarVirtImpl_def effect_steps bindE_def split: sum.splits prod.splits)
qed (use assms in simp)

text \<open>Registering an expression that is in the table changes nothing, so all hooks count alike.\<close>

definition known_expr :: "hex_state \<Rightarrow> ExprEvalStep list \<Rightarrow> bool" where
  "known_expr st ss \<longleftrightarrow>
     table_ok (expr_tab st) \<and> hashable (step_codes ss) \<and> ids (expr_tab st) (expr_key (step_codes ss)) \<noteq> None"

lemma just_hook_known: "known_expr st ss \<Longrightarrow> just_hook env parent ss st = interp_hook env parent ss st"
  using add_hit [of "expr_tab st" "step_codes ss" _ "je_fopen_ok env"]
  by (auto simp: just_hook_def interp_hook_def known_expr_def split: option.splits)

lemma fast_path_same:
  assumes "ss \<noteq> []" "last ss = SDone" "fast_ok ss" "known_expr st ss"
  shows "rel_option same_result (call_evalfunc fe env parent (ExecReadyInterpretedExpr ss) ss s st)
    (ExecInterpExpr_hooked fe env parent ss s st)"
proof (cases "ExecReadyInterpretedExpr ss = InterpExpr")
  case True
  then show ?thesis by (simp add: option.rel_refl same_result_refl)
next
  case False
  let ?f = "ExecReadyInterpretedExpr ss"
  have h: "hook_of env parent ?f ss st = hook_of env parent InterpExpr ss st"
    using False by (simp add: hook_of_def just_hook_known [OF assms(4)])
  have i: "ExecInterpExpr_hooked fe env parent ss s st = call_evalfunc fe env parent InterpExpr ss s st" by simp
  show ?thesis
  proof (cases "hook_of env parent InterpExpr ss st")
    case (Inl e)
    then show ?thesis unfolding i call_evalfunc_work h by simp
  next
    case (Inr st1)
    obtain r r' where r: "fast_work fe ?f ss s = Some r" "fast_work fe InterpExpr ss s = Some r'"
      "same_result (bindE r (\<lambda>(ret, s1). Inr (ret, s1, st1))) (bindE r' (\<lambda>(ret, s1). Inr (ret, s1, st1)))"
      using fast_work_equiv [OF ready_shape [OF assms(1,2)] refl assms(3) False] by blast
    show ?thesis unfolding i call_evalfunc_work h Inr r(1,2) using r(3) by simp
  qed
qed

text \<open>
  C5. The evaluation function \<open>ExecReadyInterpretedExpr\<close> selects computes what the interpreter
  computes: the same error, or the same value, result row, slots and world, and the same counters,
  for an expression HEX knows.
\<close>

theorem fast_path_equiv:
  assumes "ss \<noteq> []" "last ss = SDone" "fast_ok ss" "known_expr st ss"
  shows "rel_option same_result (call_evalfunc fe env parent (ExecReadyInterpretedExpr ss) ss s st)
    (ExecInterpExpr_hooked fe env parent ss s st)"
  by (rule fast_path_same [OF assms])

end
