(* ===== verification/ExprCount.thy ===== *)
theory ExprCount
  imports ExprFast
begin

text \<open>
  The counters HEX keeps in \<open>currentSQLExprs\<close> and the check on the first evaluation: every evaluation
  of an expression raises the count of its entry by one and nothing else, and an expression whose
  variables no longer fit the slots is refused before anything is evaluated.
\<close>

section \<open>The counters\<close>



















definition count_env :: exec_env where
  "count_env = jit_env.extend demo_env \<lparr>je_countExpr = True\<rparr>"

definition scan_var_prog :: "ExprEvalStep list" where
  "scan_var_prog = [SFetchsome SCAN 1, SVar SCAN 0 23 RES, SDone]"


section \<open>The check on the first evaluation\<close>

text \<open>A step whose variable is a live column of the slot with the type the plan expects.\<close>

definition var_fits :: "(slot_kind \<Rightarrow> TupleTableSlot) \<Rightarrow> ExprEvalStep \<Rightarrow> bool" where
  "var_fits sl op =
     (case op of
        SVar k attnum vartype _ \<Rightarrow> attnum < length (tts_attrs (sl k)) \<and> tts_attrs (sl k) ! attnum = (False, vartype)
      | _ \<Rightarrow> True)"

definition misfit_error :: "(slot_kind \<Rightarrow> TupleTableSlot) \<Rightarrow> ExprEvalStep \<Rightarrow> err_code" where
  "misfit_error sl op =
     (case op of
        SVar k attnum _ _ \<Rightarrow>
          if length (tts_attrs (sl k)) \<le> attnum then ERRCODE_INTERNAL_ERROR
          else if fst (tts_attrs (sl k) ! attnum) then ERRCODE_UNDEFINED_COLUMN else ERRCODE_DATATYPE_MISMATCH
      | _ \<Rightarrow> ERRCODE_INTERNAL_ERROR)"

lemma check_step:
  "(case op of SVar k attnum vartype _ \<Rightarrow> CheckVarSlotCompatibility (sl k) (attnum + 1) vartype | _ \<Rightarrow> Inr ()) =
    (if var_fits sl op then Inr () else Inl (ERROR (misfit_error sl op)))"
  by (cases op) (auto simp: var_fits_def misfit_error_def CheckVarSlotCompatibility_def Let_def prod_eq_iff)

lemma check_all:
  "CheckExprStillValid ss sl =
     (case find (\<lambda>op. \<not> var_fits sl op) ss of None \<Rightarrow> Inr () | Some op \<Rightarrow> Inl (ERROR (misfit_error sl op)))"
  by (induction ss) (simp_all add: check_step)

text \<open>
  C16. The first evaluation of an expression checks the variables its program reads with the steps
  \<open>EEOP_INNER_VAR\<close>, \<open>EEOP_OUTER_VAR\<close> and \<open>EEOP_SCAN_VAR\<close> against the slots; columns that are copied to the
  result row by the steps \<open>EEOP_ASSIGN_\<dots>_VAR\<close> are not checked. The check passes exactly if each of these
  variables is a live column of its slot with the type the plan expects. If it fails, the
  evaluation raises the error of the first misfit, evaluates nothing and checks again the next
  time. If it passes, the expression is evaluated now and, without a check, from then on.
\<close>

theorem first_evaluation_checks:
  assumes "\<not> re_checked re"
  shows "(CheckExprStillValid (re_steps re) (slots s) = Inr () \<longleftrightarrow> list_all (var_fits (slots s)) (re_steps re)) \<and>
    (case find (\<lambda>op. \<not> var_fits (slots s) op) (re_steps re) of
      Some op \<Rightarrow> ExecEvalExpr fe env parent re s st = (re, Some (Inl (ERROR (misfit_error (slots s) op))))
    | None \<Rightarrow>
        ExecEvalExpr fe env parent re s st =
          (re\<lparr>re_checked := True\<rparr>, call_evalfunc fe env parent (re_evalfunc_private re) (re_steps re) s st) \<and>
        ExecEvalExpr fe env parent (re\<lparr>re_checked := True\<rparr>) s' st' =
          (re\<lparr>re_checked := True\<rparr>, call_evalfunc fe env parent (re_evalfunc_private re) (re_steps re) s' st'))"
proof (cases "find (\<lambda>op. \<not> var_fits (slots s) op) (re_steps re)")
  case None
  then have "list_all (var_fits (slots s)) (re_steps re)" by (auto simp: list_all_iff find_None_iff)
  then show ?thesis using None assms by (simp add: ExecEvalExpr_def ExecInterpExprStillValid_def check_all)
next
  case (Some op)
  then have "\<not> list_all (var_fits (slots s)) (re_steps re)" by (auto simp: list_all_iff find_Some_iff)
  then show ?thesis using Some assms by (simp add: ExecEvalExpr_def ExecInterpExprStillValid_def check_all)
qed

theorem first_evaluation_checks_witness:
  "ExecEvalExpr ex_fe count_env None \<lparr>re_steps = [SVar SCAN 0 25 RES, SDone], re_checked = False, re_evalfunc_private = JustVarVirt SCAN\<rparr>
     (ex_state new_ExprState) demo_hex =
   (\<lparr>re_steps = [SVar SCAN 0 25 RES, SDone], re_checked = False, re_evalfunc_private = JustVarVirt SCAN\<rparr>,
    Some (Inl (ERROR ERRCODE_DATATYPE_MISMATCH)))"
  using first_evaluation_checks [of "\<lparr>re_steps = [SVar SCAN 0 25 RES, SDone], re_checked = False, re_evalfunc_private = JustVarVirt SCAN\<rparr>"
      "ex_state new_ExprState" ex_fe count_env None demo_hex]
  by (simp add: var_fits_def misfit_error_def ex_state_def ex_slot_def)

section \<open>A fast path at work\<close>

definition known_hex :: hex_state where
  "known_hex = demo_hex\<lparr>expr_tab :=
     (case add_expression True (expr_tab demo_hex) (step_codes scan_var_prog) of Inr (tab, _) \<Rightarrow> tab | Inl _ \<Rightarrow> expr_tab demo_hex)\<rparr>"

lemma known_hex_expr: "known_expr known_hex scan_var_prog"
proof -
  have s: "step_codes scan_var_prog = [3, 6, 0]" by code_simp
  have c: "can_register demo_hex (step_codes scan_var_prog)"
    using s hashable_short [of "[3, 6, 0]"] by (simp add: can_register_def demo_hex_def)
  from register_ok [OF hex_inv_table [OF demo_hex_inv] c] c show ?thesis by (auto simp: known_expr_def known_hex_def can_register_def)
qed

theorem fast_path_equiv_witness:
  "rel_option same_result (call_evalfunc ex_fe count_env (Some demo_parent) (JustVar SCAN) scan_var_prog (ex_state new_ExprState) known_hex)
     (ExecInterpExpr_hooked ex_fe count_env (Some demo_parent) scan_var_prog (ex_state new_ExprState) known_hex)"
proof -
  have r: "ExecReadyInterpretedExpr scan_var_prog = JustVar SCAN" by (simp add: ExecReadyInterpretedExpr_def scan_var_prog_def)
  then have "fast_ok scan_var_prog" "scan_var_prog \<noteq> []" "last scan_var_prog = SDone"
    by (simp_all add: fast_ok_def scan_var_prog_def fetches_def to_result_def)
  from fast_path_equiv [OF this(2,3,1) known_hex_expr, of ex_fe count_env "Some demo_parent" "ex_state new_ExprState"] r show ?thesis by simp
qed

end
