(* ===== verification/ExprShape.thy ===== *)
theory ExprShape
  imports ExprCount
begin

text \<open>
  What the translation leaves at the end of a program: the last step writes the place of the result,
  a program of one variable step comes from a tree with just that variable, and deforming steps
  occur at the start only. So the programs of \<open>ExecInitExpr\<close> meet the conditions of the fast paths,
  and the selected evaluation function gives the meaning of the expression.
\<close>

section \<open>The last step\<close>

definition final :: "loc \<Rightarrow> ExprEvalStep \<Rightarrow> bool" where
  "final r x =
     (case x of SVar _ _ _ r' \<Rightarrow> r' = r | SConst _ r' \<Rightarrow> r' = r | SFunc _ _ r' \<Rightarrow> r' = r | SAssignVar _ _ _ \<Rightarrow> False | _ \<Rightarrow> True)"

definition no_fetch :: "ExprEvalStep \<Rightarrow> bool" where
  "no_fetch x = (case x of SFetchsome _ _ \<Rightarrow> False | _ \<Rightarrow> True)"

definition is_var :: "ExprEvalStep \<Rightarrow> bool" where
  "is_var x = (case x of SVar _ _ _ _ \<Rightarrow> True | _ \<Rightarrow> False)"

text \<open>One state follows another: more steps, and no deforming step among the new ones.\<close>

definition follows :: "ExprState \<Rightarrow> ExprState \<Rightarrow> bool" where
  "follows es es' \<longleftrightarrow> len es \<le> len es' \<and> (list_all no_fetch (steps es) \<longrightarrow> list_all no_fetch (steps es'))"

definition adds :: "translation \<Rightarrow> bool" where
  "adds t \<longleftrightarrow> (\<forall>r es es'. t r es = Inr es' \<longrightarrow> follows es es' \<and> len es < len es' \<and> final r (last (steps es')))"

lemma follows_refl [simp]: "follows es es"
  by (simp add: follows_def)

lemma follows_trans: "follows a b \<Longrightarrow> follows b c \<Longrightarrow> follows a c"
  by (auto simp: follows_def)

lemma follows_pushI: "follows es es' \<Longrightarrow> no_fetch x \<Longrightarrow> follows es (ExprEvalPushStep x es')"
  by (auto simp: follows_def)

lemma follows_cong: "steps a = steps a' \<Longrightarrow> steps b = steps b' \<Longrightarrow> follows a b = follows a' b'"
  by (simp add: follows_def)

lemma set_jump_kinds [simp]: "no_fetch (set_jump t x) = no_fetch x" "final r (set_jump t x) = final r x" "is_var (set_jump t x) = is_var x"
  by (cases x; simp add: set_jump_def no_fetch_def final_def is_var_def)+

lemma no_fetch_simps [simp]:
  "no_fetch (SFunc f fd r)" "no_fetch (SBool b a j r)" "no_fetch (SJump o' j r)" "no_fetch (SRowCompareStep fd i j r)"
  "no_fetch (SRowCompareFinal rc r)" "no_fetch (SConst v r)" "no_fetch (SMakeReadonly c d)" "no_fetch (SDomainNotNull ty r)"
  "no_fetch (SDomainCheck ty nm c r)" "no_fetch (SMinMax op' fn coll ba nn r)" "no_fetch (SScalarArrayOp u fd r)"
  by (simp_all add: no_fetch_def)

lemma fold_jumps:
  "length (fold (\<lambda>j ss. ss[j := set_jump t (ss ! j)]) js ss) = length ss"
  "list_all no_fetch ss \<Longrightarrow> list_all no_fetch (fold (\<lambda>j ss. ss[j := set_jump t (ss ! j)]) js ss)"
proof -
  show "length (fold (\<lambda>j ss. ss[j := set_jump t (ss ! j)]) js ss) = length ss" by (induction js arbitrary: ss) simp_all
  show "list_all no_fetch ss \<Longrightarrow> list_all no_fetch (fold (\<lambda>j ss. ss[j := set_jump t (ss ! j)]) js ss)"
  proof (induction js arbitrary: ss)
    case (Cons j js)
    have "list_all no_fetch (ss[j := set_jump t (ss ! j)])"
      using Cons.prems by (simp add: list_all_length) (metis nth_list_update_eq nth_list_update_neq set_jump_kinds(1))
    then show ?case using Cons.IH by simp
  qed simp
qed

lemma adjust_last:
  assumes "steps es \<noteq> []"
  shows "last (steps (adjust_jumps js es)) = last (steps es) \<or> last (steps (adjust_jumps js es)) = set_jump (int (len es)) (last (steps es))"
proof -
  have l: "len (adjust_jumps js es) = len es" by simp
  then have "steps (adjust_jumps js es) \<noteq> []" using assms by (metis length_0_conv)
  then show ?thesis using assms l adjust_nth [of "len es - 1" es js] by (simp add: last_conv_nth)
qed

lemma adjust_kinds:
  "steps es \<noteq> [] \<Longrightarrow> final r (last (steps (adjust_jumps js es))) = final r (last (steps es))"
  "steps es \<noteq> [] \<Longrightarrow> is_var (last (steps (adjust_jumps js es))) = is_var (last (steps es))"
  using adjust_last [of es js] by auto

lemma follows_adjust: "follows a es \<Longrightarrow> follows a (adjust_jumps js es)"
  using fold_jumps(1,2) by (simp add: follows_def adjust_jumps_def)

section \<open>The loops\<close>

lemma addsD: "adds t \<Longrightarrow> t r es = Inr es' \<Longrightarrow> follows es es' \<and> len es < len es' \<and> final r (last (steps es'))"
  by (simp add: adds_def)

lemma follows_palloc: "palloc_cells n es = (c, es1) \<Longrightarrow> follows es1 es' = follows es es' \<and> len es1 = len es"
  by (auto simp: palloc_cells_def follows_def)

lemma init_func_args_follows:
  "list_all (\<lambda>a. adds (snd a)) args \<Longrightarrow> init_func_args args base es = Inr es' \<Longrightarrow> follows es es'"
proof (induction args arbitrary: base es)
  case (Cons a args)
  obtain con t where a: "a = (con, t)" by (cases a)
  with Cons.prems obtain es1 where e: "(case con of Some v \<Rightarrow> Inr (es\<lparr>preload := preload es @ [(base, v)]\<rparr>) | None \<Rightarrow> t base es) = Inr es1"
    "init_func_args args (Suc base) es1 = Inr es'" by auto
  have "follows es es1"
  proof (cases con)
    case None then show ?thesis using e(1) Cons.prems(1) a addsD [of t base es es1] by simp
  next
    case (Some v) then show ?thesis using e(1) by (auto simp: follows_def)
  qed
  then show ?case using Cons.IH [OF _ e(2)] Cons.prems(1) by (auto intro: follows_trans)
qed simp

lemma init_cell_args_follows:
  "list_all adds args \<Longrightarrow> init_cell_args args base es = Inr es' \<Longrightarrow> follows es es'"
proof (induction args arbitrary: base es)
  case (Cons t args)
  then obtain es1 where e: "t base es = Inr es1" "init_cell_args args (Suc base) es1 = Inr es'" by auto
  have "follows es es1" using addsD [of t, OF _ e(1)] Cons.prems(1) by auto
  then show ?case using Cons.IH [OF _ e(2)] Cons.prems(1) by (auto intro: follows_trans)
qed simp

lemma init_bool_args_follows:
  "list_all adds args \<Longrightarrow> init_bool_args op' an r off n args es = Inr (es', js) \<Longrightarrow>
     follows es es' \<and> (args = [] \<and> es' = es \<or> len es < len es' \<and> (\<exists>b j. last (steps es') = SBool b an j r))"
proof (induction args arbitrary: off es js)
  case (Cons t args)
  from Cons.prems(2) obtain es1 js' where e: "t r es = Inr es1"
    "init_bool_args op' an r (Suc off) n args (ExprEvalPushStep (SBool (bool_step_op op' off n) an (- 1) r) es1) = Inr (es', js')"
    by (auto simp: Let_def)
  have f: "follows es es1" "len es < len es1" using addsD [of t, OF _ e(1)] Cons.prems(1) by auto
  note f2 = follows_pushI [OF f(1)]
  have ih: "follows (ExprEvalPushStep (SBool (bool_step_op op' off n) an (- 1) r) es1) es'"
    "args = [] \<and> es' = ExprEvalPushStep (SBool (bool_step_op op' off n) an (- 1) r) es1 \<or>
      len es < len es' \<and> (\<exists>b j. last (steps es') = SBool b an j r)"
    using Cons.IH [OF _ e(2)] Cons.prems(1) f(2) by auto
  then show ?case using follows_trans [OF f2 ih(1)] f(2) by auto
qed simp

lemma init_coalesce_follows:
  "list_all adds args \<Longrightarrow> init_coalesce r args es = Inr (es', js) \<Longrightarrow>
     follows es es' \<and> (args = [] \<and> es' = es \<or> len es < len es' \<and> (\<exists>j. last (steps es') = SJump JUMP_IF_NOT_NULL j r))"
proof (induction args arbitrary: es js)
  case (Cons t args)
  from Cons.prems(2) obtain es1 js' where e: "t r es = Inr es1"
    "init_coalesce r args (ExprEvalPushStep (SJump JUMP_IF_NOT_NULL (- 1) r) es1) = Inr (es', js')"
    by (auto simp: Let_def)
  have f: "follows es es1" "len es < len es1" using addsD [of t, OF _ e(1)] Cons.prems(1) by auto
  note f2 = follows_pushI [OF f(1)]
  have ih: "follows (ExprEvalPushStep (SJump JUMP_IF_NOT_NULL (- 1) r) es1) es'"
    "args = [] \<and> es' = ExprEvalPushStep (SJump JUMP_IF_NOT_NULL (- 1) r) es1 \<or>
      len es < len es' \<and> (\<exists>j. last (steps es') = SJump JUMP_IF_NOT_NULL j r)"
    using Cons.IH [OF _ e(2)] Cons.prems(1) f(2) by auto
  then show ?case using follows_trans [OF f2 ih(1)] f(2) by auto
qed simp

lemma init_columns_follows:
  "list_all (\<lambda>(l, rt, _). adds l \<and> adds rt) cols \<Longrightarrow> init_columns ce r cols es = Inr (es', js) \<Longrightarrow> follows es es'"
proof (induction cols arbitrary: es js)
  case (Cons c cols)
  obtain l rt opno opfamily coll where c: "c = (l, rt, opno, opfamily, coll)" by (cases c) auto
  from Cons.prems(2) c obtain fd es1 es2 es3 js' where e: "init_row_column ce opno opfamily coll es = Inr (fd, es1)"
    "l (fd_args fd) es1 = Inr es2" "rt (Suc (fd_args fd)) es2 = Inr es3"
    "init_columns ce r cols (ExprEvalPushStep (SRowCompareStep fd (- 1) (- 1) r) es3) = Inr (es', js')"
    by (auto simp: Let_def)
  have "steps es1 = steps es" using e(1) by (auto simp: init_row_column_def palloc_cells_def Let_def split: if_splits)
  moreover have "follows es1 es2" "follows es2 es3" using Cons.prems(1) c addsD [of l, OF _ e(2)] addsD [of rt, OF _ e(3)] by auto
  ultimately have "follows es (ExprEvalPushStep (SRowCompareStep fd (- 1) (- 1) r) es3)" by (auto simp: follows_def)
  moreover have "follows (ExprEvalPushStep (SRowCompareStep fd (- 1) (- 1) r) es3) es'" using Cons.IH [OF _ e(4)] Cons.prems(1) by auto
  ultimately show ?case by (rule follows_trans)
qed simp

lemma init_whens_follows:
  "list_all (\<lambda>(c, m). adds c \<and> adds m) whens \<Longrightarrow> init_whens cv r whens es = Inr (es', js) \<Longrightarrow>
     follows es es' \<and> (whens = [] \<and> es' = es \<or> len es < len es')"
proof (induction whens arbitrary: es js)
  case (Cons w whens)
  obtain c m where w: "w = (c, m)" by (cases w)
  let ?es2 = "\<lambda>es1. ExprEvalPushStep (SJump JUMP_IF_NOT_TRUE (- 1) r) (es1\<lparr>innermost_caseval := innermost_caseval es\<rparr>)"
  from Cons.prems(2) w obtain es1 es3 js1 js' where e: "c r (es\<lparr>innermost_caseval := cv\<rparr>) = Inr es1" "m r (?es2 es1) = Inr es3"
    "init_whens cv r whens (adjust_jumps js1 (ExprEvalPushStep (SJump JUMP (- 1) r) es3)) = Inr (es', js')"
    by (auto simp: Let_def)
  have "follows (es\<lparr>innermost_caseval := cv\<rparr>) es1" "follows (?es2 es1) es3" "len es < len es1"
    using Cons.prems(1) w addsD [of c, OF _ e(1)] addsD [of m, OF _ e(2)] by auto
  then have "follows es (ExprEvalPushStep (SJump JUMP (- 1) r) es3)" and l: "len es < Suc (len es3)" by (auto simp: follows_def)
  then have f: "follows es (adjust_jumps js1 (ExprEvalPushStep (SJump JUMP (- 1) r) es3))" by (intro follows_adjust)
  have "follows (adjust_jumps js1 (ExprEvalPushStep (SJump JUMP (- 1) r) es3)) es'" using Cons.IH [OF _ e(3)] Cons.prems(1) by auto
  with f l show ?case using follows_trans [OF f] by (auto simp: follows_def)
qed simp

definition neutral :: "ExprEvalStep \<Rightarrow> bool" where
  "neutral x = (case x of SVar _ _ _ _ \<Rightarrow> False | SConst _ _ \<Rightarrow> False | SFunc _ _ _ \<Rightarrow> False | SAssignVar _ _ _ \<Rightarrow> False | _ \<Rightarrow> True)"

lemma neutralD: "neutral x \<Longrightarrow> final r x \<and> \<not> is_var x"
  by (cases x) (simp_all add: neutral_def final_def is_var_def)

definition con_adds :: "string \<times> translation option \<Rightarrow> bool" where
  "con_adds c = (case snd c of None \<Rightarrow> True | Some t \<Rightarrow> adds t)"

lemma init_domainval_follows:
  "init_domainval ce ty r dv es = (d, es') \<Longrightarrow> follows es es'"
  by (auto simp: init_domainval_def palloc_cells_def Let_def follows_def split: option.splits if_splits)

lemma init_checkvalue_follows: "init_checkvalue cv es = (c, es') \<Longrightarrow> follows es es'"
  by (auto simp: init_checkvalue_def palloc_cells_def follows_def split: option.splits)

lemma init_constraints_follows:
  assumes "list_all con_adds cons" "init_constraints ce ty r cv dv cons es = Inr es'"
  shows "follows es es' \<and> (cons = [] \<and> es' = es \<or> len es < len es' \<and> neutral (last (steps es')))"
  using assms
proof (induction ce ty r cv dv cons es rule: init_constraints.induct)
  case (2 ce ty r cv dv name cons es)
  let ?es1 = "ExprEvalPushStep (SDomainNotNull ty r) es"
  have f: "follows es ?es1" by (rule follows_pushI) simp_all
  have n: "neutral (SDomainNotNull ty r)" by (simp add: neutral_def)
  have ih: "follows ?es1 es'" "cons = [] \<and> es' = ?es1 \<or> len ?es1 < len es' \<and> neutral (last (steps es'))"
    using "2.IH" "2.prems" by auto
  then show ?case using follows_trans [OF f ih(1)] n by auto
next
  case (3 ce ty r cv dv name t cons es)
  obtain c es1 where c: "init_checkvalue cv es = (c, es1)" by fastforce
  obtain d es2 where d: "init_domainval ce ty r dv es1 = (d, es2)" by fastforce
  from "3.prems"(2) c d obtain es3 where e: "t c (es2\<lparr>innermost_domainval := Some d\<rparr>) = Inr es3"
    "init_constraints ce ty r (Some c) (Some d) cons
      (ExprEvalPushStep (SDomainCheck ty name c r) (es3\<lparr>innermost_domainval := innermost_domainval es\<rparr>)) = Inr es'" by auto
  let ?es4 = "ExprEvalPushStep (SDomainCheck ty name c r) (es3\<lparr>innermost_domainval := innermost_domainval es\<rparr>)"
  have t: "adds t" using "3.prems"(1) by (simp add: con_adds_def)
  have f: "follows es es2" by (rule follows_trans [OF init_checkvalue_follows [OF c] init_domainval_follows [OF d]])
  have f4: "follows es ?es4" "len es < len ?es4" using f addsD [OF t e(1)] by (auto simp: follows_def)
  have n: "neutral (SDomainCheck ty name c r)" by (simp add: neutral_def)
  have ih: "follows ?es4 es'" "cons = [] \<and> es' = ?es4 \<or> len ?es4 < len es' \<and> neutral (last (steps es'))"
    using "3.IH" [OF c [symmetric] refl d [symmetric] refl, of es3] e "3.prems"(1) by auto
  then show ?case using follows_trans [OF f4(1) ih(1)] f4(2) n by auto
qed simp

section \<open>The shape of a translation\<close>

definition shape :: "translation \<Rightarrow> (LastAttnumInfo \<Rightarrow> LastAttnumInfo) \<Rightarrow> bool" where
  "shape t walk \<longleftrightarrow>
     adds t \<and>
     (\<forall>r es es'. t r es = Inr es' \<longrightarrow> len es' = Suc (len es) \<longrightarrow> is_var (last (steps es')) \<longrightarrow>
        (\<exists>vn a ty. last (steps es') = SVar (slot_of_varno vn) a ty r \<and> walk = note_var vn (int (Suc a))))"

lemma shapeI:
  assumes "\<And>r es es'. t r es = Inr es' \<Longrightarrow> follows es es' \<and> len es < len es' \<and> final r (last (steps es')) \<and> \<not> is_var (last (steps es'))"
  shows "shape t walk"
  using assms by (auto simp: shape_def adds_def)

lemma shapeI2:
  assumes "\<And>r es es'. t r es = Inr es' \<Longrightarrow> follows es es' \<and> len es < len es' \<and> final r (last (steps es')) \<and>
    (len es' = Suc (len es) \<and> is_var (last (steps es')) \<longrightarrow>
      (\<exists>vn a ty. last (steps es') = SVar (slot_of_varno vn) a ty r \<and> walk = note_var vn (int (Suc a))))"
  shows "shape t walk"
  using assms unfolding shape_def adds_def by blast

lemma shapeD:
  "shape t walk \<Longrightarrow> t r es = Inr es' \<Longrightarrow> len es' = Suc (len es) \<Longrightarrow> is_var (last (steps es')) \<Longrightarrow>
     \<exists>vn a ty. last (steps es') = SVar (slot_of_varno vn) a ty r \<and> walk = note_var vn (int (Suc a))"
  unfolding shape_def by blast

lemma shape_adds: "shape t walk \<Longrightarrow> adds t"
  by (simp add: shape_def)

lemma shape_var: "shape (init_var vn an ty) (note_var vn an)"
  by (auto simp: shape_def adds_def init_var_def final_def is_var_def follows_def no_fetch_def split: if_splits)

lemma shape_func: "list_all (\<lambda>a. adds (snd a)) args \<Longrightarrow> shape (init_func ce f fn coll args) walk"
proof (rule shapeI)
  fix r es es' assume a: "list_all (\<lambda>a. adds (snd a)) args" "init_func ce f fn coll args r es = Inr es'"
  then obtain fd es1 es2 where e: "ExecInitFunc ce fn coll (length args) es = Inr (fd, es1)" "init_func_args args (fd_args fd) es1 = Inr es2"
    "es' = ExprEvalPushStep (SFunc f fd r) es2" by (auto simp: init_func_def)
  have "steps es1 = steps es" using e(1) by (auto simp: ExecInitFunc_def palloc_cells_def Let_def split: if_splits)
  then show "follows es es' \<and> len es < len es' \<and> final r (last (steps es')) \<and> \<not> is_var (last (steps es'))"
    using init_func_args_follows [OF a(1) e(2)] e(3) by (auto simp: follows_def final_def is_var_def)
qed

lemma push_eq [simp]: "ExprEvalPushStep x es = ExprEvalPushStep y es \<longleftrightarrow> x = y"
  by (auto dest: arg_cong [of _ _ steps])

lemma shape_unary:
  assumes "adds t" "\<And>r es. \<exists>x. push r es = ExprEvalPushStep x es \<and> neutral x \<and> no_fetch x"
  shows "shape (init_unary push t) walk"
proof (rule shapeI)
  fix r es es' assume "init_unary push t r es = Inr es'"
  then obtain es1 where e: "t r es = Inr es1" "es' = push r es1" by (auto simp: init_unary_def)
  obtain x where x: "push r es1 = ExprEvalPushStep x es1" "neutral x" "no_fetch x" using assms(2) by blast
  show "follows es es' \<and> len es < len es' \<and> final r (last (steps es')) \<and> \<not> is_var (last (steps es'))"
    using addsD [OF assms(1) e(1)] e(2) x neutralD [OF x(2)] by (auto simp: follows_def)
qed

lemma shape_push:
  "(\<And>r es. neutral (st r es) \<and> no_fetch (st r es)) \<Longrightarrow> shape (\<lambda>r es. Inr (ExprEvalPushStep (st r es) es)) walk"
proof (rule shapeI)
  fix r es es' assume n: "\<And>r es. neutral (st r es) \<and> no_fetch (st r es)" and e: "Inr (ExprEvalPushStep (st r es) es) = (Inr es' :: ExprState eres)"
  show "follows es es' \<and> len es < len es' \<and> final r (last (steps es')) \<and> \<not> is_var (last (steps es'))"
    using n [of r es] neutralD [of "st r es" r] e by (auto simp: follows_def)
qed

lemma shape_scalar_array: "adds a \<Longrightarrow> adds b \<Longrightarrow> shape (init_scalar_array ce f coll u a b) walk"
proof (rule shapeI)
  fix r es es' assume t: "adds a" "adds b" and "init_scalar_array ce f coll u a b r es = Inr es'"
  then obtain fd es1 es2 es3 where e: "init_scalararrayop ce f coll es = Inr (fd, es1)" "a (fd_args fd) es1 = Inr es2" "b r es2 = Inr es3"
    "es' = ExprEvalPushStep (SScalarArrayOp u fd r) es3" by (auto simp: init_scalar_array_def)
  have "steps es1 = steps es" using e(1) by (auto simp: init_scalararrayop_def palloc_cells_def Let_def split: if_splits)
  then show "follows es es' \<and> len es < len es' \<and> final r (last (steps es')) \<and> \<not> is_var (last (steps es'))"
    using addsD [OF t(1) e(2)] addsD [OF t(2) e(3)] e(4) by (auto simp: follows_def final_def is_var_def)
qed

lemma shape_bool: "list_all adds args \<Longrightarrow> args \<noteq> [] \<Longrightarrow> shape (init_bool op' args) walk"
proof (rule shapeI)
  fix r es es' assume a: "list_all adds args" "args \<noteq> []" and "init_bool op' args r es = Inr es'"
  then obtain an es1 es2 js where e: "(if op' \<noteq> NOT_EXPR then palloc_cells 1 es else (0, es)) = (an, es1)"
    "init_bool_args op' an r 0 (length args) args es1 = Inr (es2, js)" "es' = adjust_jumps js es2"
    by (auto simp: init_bool_def split: prod.splits)
  have s: "steps es1 = steps es" using e(1) by (auto simp: palloc_cells_def split: if_splits)
  from init_bool_args_follows [OF a(1) e(2)] a(2) obtain b j where
    f: "follows es1 es2" "len es1 < len es2" "last (steps es2) = SBool b an j r" by auto
  have "final r (SBool b an j r) \<and> \<not> is_var (SBool b an j r)" "steps es2 \<noteq> []" using f(2) by (auto simp: final_def is_var_def)
  then show "follows es es' \<and> len es < len es' \<and> final r (last (steps es')) \<and> \<not> is_var (last (steps es'))"
    using follows_adjust [OF f(1), of js] adjust_kinds(1) [of es2 r js] adjust_kinds(2) [of es2 js] f s unfolding e(3) by (simp add: follows_def)
qed

lemma shape_coalesce: "list_all adds args \<Longrightarrow> args \<noteq> [] \<Longrightarrow> shape (init_coalesce_expr args) walk"
proof (rule shapeI)
  fix r es es' assume a: "list_all adds args" "args \<noteq> []" and "init_coalesce_expr args r es = Inr es'"
  then obtain es2 js where e: "init_coalesce r args es = Inr (es2, js)" "es' = adjust_jumps js es2"
    by (auto simp: init_coalesce_expr_def)
  from init_coalesce_follows [OF a(1) e(1)] a(2) obtain j where
    f: "follows es es2" "len es < len es2" "last (steps es2) = SJump JUMP_IF_NOT_NULL j r" by auto
  have "final r (SJump JUMP_IF_NOT_NULL j r) \<and> \<not> is_var (SJump JUMP_IF_NOT_NULL j r)" "steps es2 \<noteq> []" using f(2) by (auto simp: final_def is_var_def)
  then show "follows es es' \<and> len es < len es' \<and> final r (last (steps es')) \<and> \<not> is_var (last (steps es'))"
    using follows_adjust [OF f(1), of js] adjust_kinds(1) [of es2 r js] adjust_kinds(2) [of es2 js] f unfolding e(2) by simp
qed

lemma shape_row_compare: "list_all (\<lambda>(l, rt, _). adds l \<and> adds rt) cols \<Longrightarrow> shape (init_row_compare ce rc cols) walk"
proof (rule shapeI)
  fix r es es' assume a: "list_all (\<lambda>(l, rt, _). adds l \<and> adds rt) cols" and "init_row_compare ce rc cols r es = Inr es'"
  then obtain es1 js where e: "init_columns ce r cols es = Inr (es1, js)" "es' = adjust_jumps js (init_row_final rc (length cols) r es1)"
    by (auto simp: init_row_compare_def)
  let ?es2 = "init_row_final rc (length cols) r es1"
  have f: "follows es ?es2" "len es < len ?es2" "final r (last (steps ?es2))" "\<not> is_var (last (steps ?es2))" "steps ?es2 \<noteq> []"
    using init_columns_follows [OF a e(1)] by (auto simp: init_row_final_def follows_def final_def is_var_def)
  then show "follows es es' \<and> len es < len es' \<and> final r (last (steps es')) \<and> \<not> is_var (last (steps es'))"
    using follows_adjust [OF f(1), of js] adjust_kinds(1) [of ?es2 r js] adjust_kinds(2) [of ?es2 js] unfolding e(2) by simp
qed

lemma shape_min_max: "list_all adds args \<Longrightarrow> shape (init_min_max ce op' ty coll args) walk"
proof (rule shapeI)
  fix r es es' assume a: "list_all adds args" and "init_min_max ce op' ty coll args r es = Inr es'"
  then obtain base es1 es2 where e: "palloc_cells (length args) es = (base, es1)" "init_cell_args args base es1 = Inr es2"
    "es' = ExprEvalPushStep (SMinMax op' (ce_cmp_proc ce ty) coll base (length args) r) es2"
    by (auto simp: init_min_max_def split: if_splits prod.splits)
  have "steps es1 = steps es" using e(1) by (auto simp: palloc_cells_def)
  then show "follows es es' \<and> len es < len es' \<and> final r (last (steps es')) \<and> \<not> is_var (last (steps es'))"
    using init_cell_args_follows [OF a e(2)] e(3) by (auto simp: follows_def final_def is_var_def)
qed

lemma shape_domain:
  assumes t: "shape t walk" and cs: "list_all con_adds cons"
  shows "shape (init_coerce_to_domain ce ty t cons) walk"
proof (rule shapeI2)
  fix r es es' assume "init_coerce_to_domain ce ty t cons r es = Inr es'"
  then obtain es1 where e: "t r es = Inr es1" "init_constraints ce ty r None None cons es1 = Inr es'" by (auto simp: init_coerce_to_domain_def)
  note a = addsD [OF shape_adds [OF t] e(1)] and c = init_constraints_follows [OF cs e(2)]
  have "follows es es'" using a c follows_trans by blast
  moreover have "len es < len es'" using a c by (auto simp: follows_def)
  moreover have "final r (last (steps es'))" using a c neutralD by blast
  moreover have "\<exists>vn a ty. last (steps es') = SVar (slot_of_varno vn) a ty r \<and> walk = note_var vn (int (Suc a))"
    if l: "len es' = Suc (len es)" "is_var (last (steps es'))"
  proof -
    have "es' = es1" using a c neutralD l by (auto simp: follows_def)
    then show ?thesis using shapeD [OF t e(1)] l by simp
  qed
  ultimately show "follows es es' \<and> len es < len es' \<and> final r (last (steps es')) \<and>
    (len es' = Suc (len es) \<and> is_var (last (steps es')) \<longrightarrow>
      (\<exists>vn a ty. last (steps es') = SVar (slot_of_varno vn) a ty r \<and> walk = note_var vn (int (Suc a))))" by blast
qed

lemma init_case_arg_follows:
  assumes "case arg of None \<Rightarrow> True | Some a \<Rightarrow> adds (snd a)" "init_case_arg arg es = Inr (cv, es1)"
  shows "follows es es1 \<and> (arg = None \<and> es1 = es \<or> len es < len es1)"
proof (cases arg)
  case (Some p)
  obtain vl a where p: "p = (vl, a)" by (cases p)
  obtain c es0 where c: "palloc_cells 1 es = (c, es0)" by fastforce
  from assms(2) Some p c obtain es2 where e: "a c es0 = Inr es2" "es1 = (if vl then ExprEvalPushStep (SMakeReadonly c c) es2 else es2)"
    by (auto simp: init_case_arg_def)
  have "adds a" using assms(1) Some p by simp
  from addsD [OF this e(1)] c e(2) show ?thesis by (auto simp: follows_def palloc_cells_def)
qed (use assms(2) in \<open>simp add: init_case_arg_def\<close>)

lemma shape_case:
  assumes a: "case arg of None \<Rightarrow> True | Some a \<Rightarrow> adds (snd a)" and w: "list_all (\<lambda>(c, m). adds c \<and> adds m) whens"
    and d: "shape d walk'" and eq: "arg = None \<Longrightarrow> whens = [] \<Longrightarrow> walk = walk'"
  shows "shape (init_case arg whens d) walk"
proof (rule shapeI2)
  fix r es es' assume "init_case arg whens d r es = Inr es'"
  then obtain cv es3 es4 js es5 where e: "init_case_arg arg es = Inr (cv, es3)" "init_whens cv r whens es3 = Inr (es4, js)" "d r es4 = Inr es5"
    "es' = adjust_jumps js es5" by (auto simp: init_case_def)
  note fa = init_case_arg_follows [OF a e(1)] and fw = init_whens_follows [OF w e(2)] and fd = addsD [OF shape_adds [OF d] e(3)]
  have ne: "steps es5 \<noteq> []" using fd by auto
  have f: "follows es es5" using fa fw fd follows_trans by blast
  have "follows es es'" unfolding e(4) by (rule follows_adjust [OF f])
  moreover have "len es < len es'" using fa fw fd e(4) by (auto simp: follows_def)
  moreover have "final r (last (steps es'))" using fd adjust_kinds(1) [OF ne] e(4) by simp
  moreover have "\<exists>vn a ty. last (steps es') = SVar (slot_of_varno vn) a ty r \<and> walk = note_var vn (int (Suc a))"
    if l: "len es' = Suc (len es)" "is_var (last (steps es'))"
  proof -
    have n: "arg = None" "whens = []" "es4 = es" using fa fw fd l(1) e(4) by (auto simp: follows_def)
    have "es' = es5" using e(2,4) n by (simp add: adjust_jumps_def)
    then show ?thesis using shapeD [OF d e(3)] l n eq by simp
  qed
  ultimately show "follows es es' \<and> len es < len es' \<and> final r (last (steps es')) \<and>
    (len es' = Suc (len es) \<and> is_var (last (steps es')) \<longrightarrow>
      (\<exists>vn a ty. last (steps es') = SVar (slot_of_varno vn) a ty r \<and> walk = note_var vn (int (Suc a))))" by blast
qed

lemma shape_const: "shape (\<lambda>r es. Inr (ExprEvalPushStep (SConst v r) es)) walk"
  by (rule shapeI) (auto simp: follows_def final_def is_var_def)

lemma adds_zip: "list_all (\<lambda>t. adds t) ts \<Longrightarrow> list_all (\<lambda>a. adds (snd a)) (zip cs ts)"
  by (auto simp: list_all_iff dest: set_zip_rightD)

lemma adds_list:
  assumes "\<And>x. x \<in> set args \<Longrightarrow> wf_expr x \<longrightarrow> shape (ExecInitExprRec ce x) (get_last_attnums_walker x)" "list_all id (map wf_expr args)"
  shows "list_all adds (map (ExecInitExprRec ce) args)"
proof -
  have "adds (ExecInitExprRec ce x)" if "x \<in> set args" for x
    by (rule shape_adds [of _ "get_last_attnums_walker x"]) (use assms that in \<open>auto simp: list_all_iff\<close>)
  then show ?thesis by (auto simp: list_all_iff)
qed

definition when_adds :: "translation \<times> translation \<Rightarrow> bool" where
  "when_adds w \<longleftrightarrow> adds (fst w) \<and> adds (snd w)"

definition column_adds :: "translation \<times> translation \<times> Oid \<times> Oid \<times> Oid \<Rightarrow> bool" where
  "column_adds c \<longleftrightarrow> adds (fst c) \<and> adds (fst (snd c))"

lemma shape_ExecInitExprRec:
  shows "wf_expr e \<longrightarrow> shape (ExecInitExprRec ce e) (get_last_attnums_walker e)"
    and "wf_when w \<longrightarrow> when_adds (init_when ce w)"
    and "wf_column c \<longrightarrow> column_adds (init_column ce c)"
    and "wf_constraint k \<longrightarrow> con_adds (init_constraint ce k)"
proof (induction e and w and c and k)
  case (Var vn an ty) then show ?case by (simp add: shape_var)
next
  case (Const v n) then show ?case by (simp add: shape_const)
next
  case (Param k i ty) then show ?case
    by (auto intro!: shapeI simp: init_param_def follows_def final_def is_var_def no_fetch_def split: if_splits)
next
  case (Aggref n) then show ?case
    by (auto intro!: shapeI simp: init_aggref_def follows_def final_def is_var_def no_fetch_def split: if_splits)
next
  case (GroupingFunc cols) then show ?case
    by (auto intro!: shapeI simp: init_grouping_func_def follows_def final_def is_var_def no_fetch_def split: if_splits)
next
  case (SubPlan n args) then show ?case
    by (auto intro!: shapeI simp: init_subplan_def follows_def final_def is_var_def no_fetch_def split: if_splits)
next
  case (AlternativeSubPlan n args) then show ?case
    by (auto intro!: shapeI simp: init_alternative_subplan_def follows_def final_def is_var_def no_fetch_def split: if_splits)
next
  case (FuncExpr f coll args)
  have "wf_expr (FuncExpr f coll args) \<longrightarrow> list_all adds (map (ExecInitExprRec ce) args)" using adds_list FuncExpr by simp
  then show ?case by (auto simp del: list.pred_map map_map intro!: shape_func adds_zip split: if_splits)
next
  case (OpExpr f coll args)
  have "wf_expr (OpExpr f coll args) \<longrightarrow> list_all adds (map (ExecInitExprRec ce) args)" using adds_list OpExpr by simp
  then show ?case by (auto simp del: list.pred_map map_map intro!: shape_func adds_zip split: if_splits)
next
  case (DistinctExpr f coll args)
  have "wf_expr (DistinctExpr f coll args) \<longrightarrow> list_all adds (map (ExecInitExprRec ce) args)" using adds_list DistinctExpr by simp
  then show ?case by (auto simp del: list.pred_map map_map intro!: shape_func adds_zip split: if_splits)
next
  case (NullIfExpr f coll args)
  have "wf_expr (NullIfExpr f coll args) \<longrightarrow> list_all adds (map (ExecInitExprRec ce) args)" using adds_list NullIfExpr by simp
  then show ?case by (auto simp del: list.pred_map map_map intro!: shape_func adds_zip split: if_splits)
next
  case (ScalarArrayOpExpr f coll u a b)
  then show ?case by (auto intro!: shape_scalar_array dest!: shape_adds)
next
  case (BoolExpr op args)
  have "wf_expr (BoolExpr op args) \<longrightarrow> list_all adds (map (ExecInitExprRec ce) args)" using adds_list BoolExpr by simp
  then show ?case by (auto simp del: list.pred_map map_map intro!: shape_bool split: if_splits)
next
  case (RelabelType arg) then show ?case by simp
next
  case (CoerceViaIO arg ty)
  then show ?case by (auto intro!: shape_unary simp: init_io_coerce_def neutral_def no_fetch_def split: prod.splits dest!: shape_adds)
next
  case (CaseExpr arg whens df)
  show ?case
  proof
    assume wf: "wf_expr (CaseExpr arg whens df)"
    then have w: "list_all (\<lambda>(c, m). adds c \<and> adds m) (map (init_when ce) whens)"
      using CaseExpr(2) by (auto simp: list_all_iff when_adds_def case_prod_unfold)
    have d: "shape (ExecInitExprRec ce df) (get_last_attnums_walker df)" using CaseExpr(3) wf by simp
    have a: "adds (ExecInitExprRec ce x)" if "arg = Some x" for x
      by (rule shape_adds [of _ "get_last_attnums_walker x"]) (use CaseExpr(1) [of x] wf that in simp)
    show "shape (ExecInitExprRec ce (CaseExpr arg whens df)) (get_last_attnums_walker (CaseExpr arg whens df))"
      unfolding ExecInitExprRec.simps by (rule shape_case [OF _ w d]) (use a in \<open>auto split: option.splits\<close>)
  qed
next
  case CaseTestExpr then show ?case by (auto intro!: shape_push simp: neutral_def no_fetch_def)
next
  case (RowCompareExpr rc cols)
  then have "wf_expr (RowCompareExpr rc cols) \<longrightarrow> list_all (\<lambda>(l, rt, _). adds l \<and> adds rt) (map (init_column ce) cols)"
    by (auto simp: list_all_iff column_adds_def case_prod_unfold)
  then show ?case by (auto simp del: list.pred_map map_map intro!: shape_row_compare)
next
  case (CoalesceExpr args)
  have "wf_expr (CoalesceExpr args) \<longrightarrow> list_all adds (map (ExecInitExprRec ce) args)" using adds_list CoalesceExpr by simp
  then show ?case by (auto simp del: list.pred_map map_map intro!: shape_coalesce split: if_splits)
next
  case (MinMaxExpr op ty coll args)
  have "wf_expr (MinMaxExpr op ty coll args) \<longrightarrow> list_all adds (map (ExecInitExprRec ce) args)" using adds_list MinMaxExpr by simp
  then show ?case by (auto simp del: list.pred_map map_map intro!: shape_min_max split: if_splits)
next
  case (SQLValueFunction svf) then show ?case by (auto intro!: shape_push simp: neutral_def no_fetch_def)
next
  case (NullTest t ar arg)
  then show ?case by (auto intro!: shape_unary simp: neutral_def no_fetch_def dest!: shape_adds)
next
  case (BooleanTest t arg)
  then show ?case by (cases t) (auto intro!: shape_unary simp: init_boolean_test_def neutral_def no_fetch_def dest!: shape_adds)
next
  case (CoerceToDomain arg ty cons)
  then show ?case by (auto intro!: shape_domain simp: list_all_iff)
next
  case CoerceToDomainValue then show ?case by (auto intro!: shape_push simp: neutral_def no_fetch_def)
next
  case CurrentOfExpr then show ?case by (auto intro!: shape_push simp: neutral_def no_fetch_def)
next
  case (NextValueExpr s ty) then show ?case by (auto intro!: shape_push simp: neutral_def no_fetch_def)
next
  case (CaseWhen a b) then show ?case by (auto simp: when_adds_def dest!: shape_adds)
next
  case (RowCompareColumn l r opno opf coll) then show ?case by (auto simp: column_adds_def dest!: shape_adds)
next
  case (DOM_CONSTRAINT_NOTNULL name) then show ?case by (simp add: con_adds_def)
next
  case (DOM_CONSTRAINT_CHECK name e) then show ?case by (auto simp: con_adds_def dest!: shape_adds)
qed

section \<open>Programs of \<open>ExecInitExpr\<close>\<close>

definition walked :: "Expr \<Rightarrow> LastAttnumInfo" where
  "walked e = get_last_attnums_walker e \<lparr>last_inner = 0, last_outer = 0, last_scan = 0\<rparr>"

fun last_of :: "LastAttnumInfo \<Rightarrow> slot_kind \<Rightarrow> int" where
  "last_of info INNER = last_inner info"
| "last_of info OUTER = last_outer info"
| "last_of info SCAN = last_scan info"

lemma slots_fetch:
  "x \<in> set (steps (ExecInitExprSlots parent [e] new_ExprState)) \<Longrightarrow> \<exists>k. x = SFetchsome k (nat (last_of (walked e) k))"
  by (auto simp: ExecInitExprSlots_def ExecPushExprSlots_def push_fetch_def new_ExprState_def walked_def split: if_splits
      intro: exI [of _ INNER] exI [of _ OUTER] exI [of _ SCAN])

text \<open>The three parts of the program: deforming steps, at least one step of the expression, and the end.\<close>

definition parts :: "Expr \<Rightarrow> ExprEvalStep list \<Rightarrow> ExprEvalStep list \<Rightarrow> bool" where
  "parts e fs new \<longleftrightarrow>
     new \<noteq> [] \<and> final RES (last new) \<and> (\<forall>x \<in> set fs. \<exists>k. x = SFetchsome k (nat (last_of (walked e) k))) \<and>
     (fs = [] \<longrightarrow> list_all no_fetch new) \<and>
     (\<forall>x. new = [x] \<and> is_var x \<longrightarrow>
        (\<exists>vn a ty. x = SVar (slot_of_varno vn) a ty RES \<and>
          walked e = note_var vn (int (Suc a)) \<lparr>last_inner = 0, last_outer = 0, last_scan = 0\<rparr>))"

lemma program_parts:
  assumes "ExecInitExpr ce parent (Some e) = Inr (Some es)" "wf_expr e"
  obtains fs new where "steps es = fs @ new @ [SDone]" "parts e fs new"
proof -
  let ?es0 = "ExecInitExprSlots parent [e] new_ExprState"
  obtain es1 where e: "ExecInitExprRec ce e RES ?es0 = Inr es1" "es = ExprEvalPushStep SDone es1"
    using assms(1) by (rule ExecInitExpr_steps)
  have cor: "correct fe (ExecInitExprRec ce e) (sem fe ce e)" for fe :: "unit fenv" using correct_ExecInitExprRec(1) assms(2) by blast
  obtain new where new: "steps es1 = steps ?es0 @ new" using correct_ext [OF cor e(1) place_start] by (auto simp: ext_def)
  have sh: "shape (ExecInitExprRec ce e) (get_last_attnums_walker e)" using shape_ExecInitExprRec(1) assms(2) by blast
  note a = addsD [OF shape_adds [OF sh] e(1)]
  have ne: "new \<noteq> []" using a new by auto
  have v: "\<exists>vn a ty. x = SVar (slot_of_varno vn) a ty RES \<and> walked e = note_var vn (int (Suc a)) \<lparr>last_inner = 0, last_outer = 0, last_scan = 0\<rparr>"
    if nx: "new = [x] \<and> is_var x" for x
  proof -
    obtain vn a ty where "x = SVar (slot_of_varno vn) a ty RES" "get_last_attnums_walker e = note_var vn (int (Suc a))"
      using shapeD [OF sh e(1)] new nx by auto
    then show ?thesis unfolding walked_def by (intro exI [of _ vn] exI [of _ a] exI [of _ ty]) simp
  qed
  have "steps ?es0 = [] \<longrightarrow> list_all no_fetch new" "final RES (last new)" using a ne new by (simp_all add: follows_def)
  then have "parts e (steps ?es0) new" unfolding parts_def using ne slots_fetch v by blast
  then show thesis using e(2) new by (intro that) simp
qed

lemma note_var_last:
  "last_of (note_var vn n \<lparr>last_inner = 0, last_outer = 0, last_scan = 0\<rparr>) (slot_of_varno vn) = max 0 n"
  by (cases "slot_of_varno vn") (simp_all add: note_var_def)

lemma fast_ok_ExecInitExpr:
  assumes "ExecInitExpr ce parent (Some e) = Inr (Some es)" "wf_expr e"
  shows "fast_ok (steps es) \<and> (\<forall>k. ExecReadyInterpretedExpr (steps es) \<noteq> JustAssignVar k \<and> ExecReadyInterpretedExpr (steps es) \<noteq> JustAssignVarVirt k)"
proof -
  obtain fs new where p: "steps es = fs @ new @ [SDone]" "parts e fs new" using assms by (rule program_parts)
  have q: "new \<noteq> []" "final RES (last new)" "fs = [] \<longrightarrow> list_all no_fetch new" using p(2) by (simp_all add: parts_def)
  have sh: "shape_of (ExecReadyInterpretedExpr (steps es)) (steps es)" by (rule ready_shape) (simp_all add: p(1))
  have two: "final RES y" if "steps es = [x, y, SDone]" for x y
  proof -
    have "last (fs @ new) = y" using that p(1) by (metis append_assoc append_Cons append_Nil append_butlast_last_id butlast.simps(2) butlast_snoc last.simps list.distinct(1))
    then show ?thesis using q by simp
  qed
  have one: "final RES x" if "steps es = [x, SDone]" for x
    using that p(1) q by (cases fs; cases new) auto
  show ?thesis
  proof (cases "ExecReadyInterpretedExpr (steps es)")
    case (JustVar k)
    then obtain n a t r where ss: "steps es = [SFetchsome k n, SVar k a t r, SDone]" using sh by auto
    have "fs = [SFetchsome k n]" "new = [SVar k a t r]"
      using ss p(1) q by (cases fs; cases new; auto simp: no_fetch_def append_eq_Cons_conv)+
    then have "n = Suc a \<and> r = RES" using p(2) note_var_last by (auto simp: parts_def is_var_def)
    then show ?thesis using JustVar ss by (simp add: fast_ok_def fetches_def to_result_def)
  qed (use sh one two in \<open>auto simp: fast_ok_def to_result_def final_def\<close>)
qed

lemma fast_work_isnull:
  assumes "shape_of f ss" "\<forall>k. f \<noteq> JustAssignVar k \<and> f \<noteq> JustAssignVarVirt k" "fast_work fe f ss s = Some (Inr ((d, isnull), s'))"
  shows "isnull \<noteq> None"
  using assms by (cases f) (auto simp: ExecJustVarImpl_def apply_func_to_case_def just_const_def ExecJustVarVirtImpl_def Let_def
      split: if_splits)

text \<open>
  C2. An expression that was translated and made ready evaluates, through whichever function was
  selected for it, to its meaning: the error it means, or its value and the world it leads to; and
  besides its counter nothing of HEX's state changes.
\<close>

theorem ready_expr_meaning:
  assumes "ExecInitExpr ce parent (Some e) = Inr (Some es)" "ready parent [e] es s" "known_expr st (steps es)"
    and "interp_hook env ps (steps es) st = Inr st1"
  shows "case meaning_in fe ce s e (world s) of
      Inl err \<Rightarrow> call_evalfunc fe env ps (ExecReadyInterpretedExpr (steps es)) (steps es) s st = Some (Inl err)
    | Inr (v, w) \<Rightarrow>
        \<exists>d b s'. call_evalfunc fe env ps (ExecReadyInterpretedExpr (steps es)) (steps es) s st = Some (Inr ((d, Some b), s', st1)) \<and>
          nd (d, b) = v \<and> world s' = w"
proof -
  let ?ss = "steps es" let ?f = "ExecReadyInterpretedExpr ?ss"
  have wf: "wf_expr e" using assms(2) by (simp add: ready_def)
  note fk = fast_ok_ExecInitExpr [OF assms(1) wf]
  have ss: "?ss \<noteq> []" "last ?ss = SDone" using program_parts [OF assms(1) wf] by (metis Nil_is_append_conv not_Cons_self2, metis last_appendR last_snoc snoc_eq_iff_butlast)
  have eq: "rel_option same_result (call_evalfunc fe env ps ?f ?ss s st) (ExecInterpExpr_hooked fe env ps ?ss s st)"
    using fast_path_same [OF ss _ assms(3)] fk by blast
  have nn: "n \<noteq> None" if "call_evalfunc fe env ps ?f ?ss s st = Some (Inr ((d, n), s', st'))" for d n s' st'
    using that fast_work_isnull [OF ready_shape [OF ss], of fe s d n s'] fk
    unfolding call_evalfunc_work by (auto split: sum.splits)
  show ?thesis
  proof (cases "meaning_in fe ce s e (world s)")
    case (Inl err)
    then have "ExecInterpExpr_hooked fe env ps ?ss s st = Some (Inl err)"
      using run_meaning [OF assms(1,2), of fe] assms(4) by (simp add: ExecInterpExpr_hooked_def)
    then show ?thesis using eq Inl by (auto simp: option_rel_Some2 elim: same_result.elims)
  next
    case (Inr x)
    then obtain d b s' where r: "ExecInterpExpr fe ?ss s = Some (Inr ((d, b), s'))" "nd (d, b) = fst x" "world s' = snd x"
      using run_meaning [OF assms(1,2), of fe] by (auto split: prod.splits)
    then have "ExecInterpExpr_hooked fe env ps ?ss s st = Some (Inr ((d, Some b), s', st1))"
      using assms(4) by (simp add: ExecInterpExpr_hooked_def)
    then obtain d' n s'' where "call_evalfunc fe env ps ?f ?ss s st = Some (Inr ((d', n), s'', st1))"
      "case n of None \<Rightarrow> True | Some b' \<Rightarrow> nd (d', b') = nd (d, b)" "world s'' = world s'"
      using eq by (auto simp: option_rel_Some2 elim!: same_result.elims split: option.splits)
    then show ?thesis using nn r(2,3) Inr by (auto split: prod.splits option.splits)
  qed
qed

theorem ready_expr_meaning_witness:
  "\<exists>d b s'. call_evalfunc ex_fe count_env None (JustVar SCAN) scan_var_prog (ex_state (ex_prog (Var 1 1 23))) known_hex =
     Some (Inr ((d, Some b), s', known_hex)) \<and> nd (d, b) = Some 7"
proof -
  let ?e = "Var 1 1 23" let ?es = "ex_prog ?e"
  have i: "ExecInitExpr ex_ce None (Some ?e) = Inr (Some ?es)" "ready None [?e] ?es (ex_state ?es)"
    and ss: "steps ?es = scan_var_prog"
    by (simp_all add: ex_defs init_defs ready_defs scan_var_prog_def)
  have r: "ExecReadyInterpretedExpr scan_var_prog = JustVar SCAN" by (simp add: ExecReadyInterpretedExpr_def scan_var_prog_def)
  have m: "meaning_in ex_fe ex_ce (ex_state ?es) ?e (world (ex_state ?es)) = Inr (Some 7, world (ex_state ?es))"
    by (simp add: ex_defs ex_sem_defs slot_of_varno_def INNER_VAR_def OUTER_VAR_def)
  have "known_expr known_hex (steps ?es)" "interp_hook count_env None (steps ?es) known_hex = Inr known_hex"
    unfolding ss using known_hex_expr by (simp_all add: interp_hook_def)
  from ready_expr_meaning [OF i this, of ex_fe] show ?thesis unfolding m ss r by simp
qed

end
