(* ===== verification/Varlena.thy ===== *)
theory Varlena
  imports ExprData
begin

unbundle bit_operations_syntax

text \<open>
  Bytes, alignment and variable-length values: the macros of \<open>src/include/postgres.h\<close>,
  \<open>src/include/access/tupmacs.h\<close> and \<open>src/include/c.h\<close> that building and reading tuples rest on, for a
  little-endian machine with 8-byte datums. A pointer is the list of bytes from its address to the
  end of the object it points into; reading behind that end is a fault.
\<close>

section \<open>Words in memory\<close>

type_synonym byte = "8 word"

primrec le_bytes :: "nat \<Rightarrow> 'a::len word \<Rightarrow> byte list" where
  "le_bytes 0 w = []"
| "le_bytes (Suc n) w = ucast w # le_bytes n (drop_bit 8 w)"

primrec le_word :: "byte list \<Rightarrow> 'a::len word" where
  "le_word [] = 0"
| "le_word (b # bs) = ucast b OR push_bit 8 (le_word bs)"

lemma length_le_bytes [simp]: "length (le_bytes n w) = n"
  by (induction n arbitrary: w) simp_all

lemma le_word_bytes: "le_word (le_bytes n w) = (take_bit (8 * n) (ucast w) :: 'b::len word)" for w :: "'a::len word"
proof (induction n arbitrary: w)
  case (Suc n)
  have "bit (ucast (ucast w :: byte) OR push_bit 8 (take_bit (8 * n) (ucast (drop_bit 8 w))) :: 'b word) k =
      bit (take_bit (8 * Suc n) (ucast w) :: 'b word) k" for k
    by (cases "k < 8") (auto simp: bit_simps dest: bit_imp_le_length)
  then show ?case using Suc by (auto intro: bit_eqI)
qed simp

text \<open>Reading \<open>n\<close> bytes at \<open>off\<close> of a buffer, and writing bytes there.\<close>

definition read_bytes :: "byte list \<Rightarrow> nat \<Rightarrow> nat \<Rightarrow> byte list eres" where
  "read_bytes buf off n = (if off + n \<le> length buf then Inr (take n (drop off buf)) else Inl (Fault OutOfBounds))"

definition memcpy :: "byte list \<Rightarrow> nat \<Rightarrow> byte list \<Rightarrow> byte list eres" where
  "memcpy buf off bs =
     (if off + length bs \<le> length buf then Inr (take off buf @ bs @ drop (off + length bs) buf) else Inl (Fault OutOfBounds))"

definition strlen :: "byte list \<Rightarrow> nat eres" where
  "strlen p = (if 0 \<in> set p then Inr (length (takeWhile (\<lambda>b. b \<noteq> 0) p)) else Inl (Fault OutOfBounds))"

section \<open>Alignment\<close>

text \<open>
  \<open>TYPEALIGN(ALIGNVAL, LEN)\<close> on machine words, and rounding up on the offsets of the model, which stay
  far below the width of a word.
\<close>

definition TYPEALIGN :: "64 word \<Rightarrow> 64 word \<Rightarrow> 64 word" where
  "TYPEALIGN alignval len = (len + (alignval - 1)) AND NOT (alignval - 1)"

definition align_up :: "nat \<Rightarrow> nat \<Rightarrow> nat" where
  "align_up a n = (n + (a - 1)) div a * a"

definition MAXALIGN :: "nat \<Rightarrow> nat" where
  "MAXALIGN n = align_up 8 n"

datatype typalign = TYPALIGN_CHAR | TYPALIGN_SHORT | TYPALIGN_INT | TYPALIGN_DOUBLE

definition att_align_nominal :: "nat \<Rightarrow> typalign \<Rightarrow> nat" where
  "att_align_nominal cur_offset attalign =
     (if attalign = TYPALIGN_INT then align_up 4 cur_offset
      else if attalign = TYPALIGN_CHAR then cur_offset
      else if attalign = TYPALIGN_DOUBLE then align_up 8 cur_offset
      else align_up 2 cur_offset)"

lemma and_not_mask: "w AND NOT (mask k) = push_bit k (drop_bit k w)" for w :: "'a::len word"
  by (rule bit_eqI) (auto simp: bit_simps)

lemma TYPEALIGN_align_up:
  assumes "k < 64" and "n + (2 ^ k - 1) < 2 ^ 64"
  shows "unat (TYPEALIGN (2 ^ k) (of_nat n)) = align_up (2 ^ k) n"
proof -
  have m: "(2 ^ k - 1 :: 64 word) = mask k" by (simp add: mask_eq_exp_minus_1)
  have "(2 ^ k - 1 :: 64 word) = of_nat (2 ^ k - 1)" by (simp add: of_nat_diff)
  then have "unat (of_nat n + (2 ^ k - 1) :: 64 word) = unat (of_nat (n + (2 ^ k - 1)) :: 64 word)" by (simp only: of_nat_add)
  then have u: "unat (of_nat n + (2 ^ k - 1) :: 64 word) = n + (2 ^ k - 1)"
    using assms(2) by (simp only: unsigned_of_nat of_nat_id take_bit_nat_eq_self len_num1 len_bit0) (simp add: take_bit_nat_eq_self)
  have "unat (push_bit k (drop_bit k w)) = unat w div 2 ^ k * 2 ^ k" for w :: "64 word"
  proof -
    have u: "unat w < 2 ^ 64" using unsigned_less [of w, where ?'a = nat] by simp
    then have t: "take_bit 64 (unat w) = unat w" by (rule take_bit_nat_eq_self)
    have "take_bit 64 (unat w div 2 ^ k * 2 ^ k) = unat w div 2 ^ k * 2 ^ k"
      using u by (intro take_bit_nat_eq_self le_less_trans [OF div_times_less_eq_dividend])
    then show ?thesis
      by (simp only: unsigned_push_bit_eq unsigned_drop_bit_eq)
        (simp add: push_bit_eq_mult [where ?'a = nat] drop_bit_eq_div [where ?'a = nat] t)
  qed
  then show ?thesis unfolding TYPEALIGN_def m and_not_mask by (simp add: u [unfolded m] align_up_def)
qed

lemma align_up_ge: "0 < a \<Longrightarrow> n \<le> align_up a n"
proof -
  assume a: "0 < a"
  have "n + (a - 1) < (n + (a - 1)) div a * a + a" using a by (metis add_less_cancel_left dividend_less_div_times mod_less_divisor div_mult_mod_eq)
  then show ?thesis using a unfolding align_up_def by linarith
qed

lemma align_up_add: "0 < a \<Longrightarrow> a dvd b \<Longrightarrow> align_up a (b + n) = b + align_up a n"
proof -
  assume a: "0 < a" "a dvd b"
  then obtain k where b: "b = k * a" by (metis dvdE mult.commute)
  have "(k * a + n + (a - 1)) div a = k + (n + (a - 1)) div a"
    using a(1) div_mult_self3 [of a k "n + (a - 1)"] by (simp add: add.assoc)
  then show ?thesis by (simp add: align_up_def b algebra_simps)
qed

lemma align_up_less: "0 < a \<Longrightarrow> align_up a n < n + a"
  using div_times_less_eq_dividend [of "n + (a - 1)" a] unfolding align_up_def by linarith

lemma att_align_nominal_ge [simp]: "n \<le> att_align_nominal n al"
  by (simp add: att_align_nominal_def align_up_ge)

lemma att_align_nominal_add: "8 dvd b \<Longrightarrow> att_align_nominal (b + n) al = b + att_align_nominal n al"
  using dvd_trans [of 4 8 b] dvd_trans [of 2 8 b] by (simp add: att_align_nominal_def align_up_add)

section \<open>Variable-length values\<close>

text \<open>Tests on the first byte of a value.\<close>

definition VARATT_IS_4B_U :: "byte \<Rightarrow> bool" where
  "VARATT_IS_4B_U h = (h AND 3 = 0)"

definition VARATT_IS_1B :: "byte \<Rightarrow> bool" where
  "VARATT_IS_1B h = (h AND 1 = 1)"

definition VARATT_IS_1B_E :: "byte \<Rightarrow> bool" where
  "VARATT_IS_1B_E h = (h = 1)"

definition va_header :: "byte list \<Rightarrow> byte eres" where
  "va_header p = (case p of [] \<Rightarrow> Inl (Fault OutOfBounds) | b # _ \<Rightarrow> Inr b)"

definition VARSIZE_1B :: "byte \<Rightarrow> nat" where
  "VARSIZE_1B h = unat (drop_bit 1 h AND 0x7F)"

definition VARSIZE_4B :: "byte list \<Rightarrow> nat eres" where
  "VARSIZE_4B p = bindE (read_bytes p 0 4) (\<lambda>bs. Inr (unat (drop_bit 2 (le_word bs :: 32 word) AND 0x3FFFFFFF)))"

definition VARTAG_IS_EXPANDED :: "byte \<Rightarrow> bool" where
  "VARTAG_IS_EXPANDED tag = (tag AND NOT 1 = 2)"

text \<open>The sizes of \<open>varatt_indirect\<close>, \<open>varatt_expanded\<close> and \<open>varatt_external\<close>; for another tag \<open>TrapMacro\<close> gives 1.\<close>

definition VARTAG_SIZE :: "byte \<Rightarrow> nat" where
  "VARTAG_SIZE tag = (if tag = 1 then 8 else if VARTAG_IS_EXPANDED tag then 8 else if tag = 18 then 16 else 1)"

definition VARTAG_1B_E :: "byte list \<Rightarrow> byte eres" where
  "VARTAG_1B_E p = bindE (read_bytes p 1 1) (\<lambda>bs. Inr (hd bs))"

definition VARSIZE_EXTERNAL :: "byte list \<Rightarrow> nat eres" where
  "VARSIZE_EXTERNAL p = bindE (VARTAG_1B_E p) (\<lambda>tag. Inr (2 + VARTAG_SIZE tag))"

definition VARATT_IS_EXTERNAL_EXPANDED :: "byte list \<Rightarrow> bool eres" where
  "VARATT_IS_EXTERNAL_EXPANDED p =
     bindE (va_header p) (\<lambda>h.
       if VARATT_IS_1B_E h then bindE (VARTAG_1B_E p) (\<lambda>tag. Inr (VARTAG_IS_EXPANDED tag)) else Inr False)"

definition VARSIZE_ANY :: "byte list \<Rightarrow> nat eres" where
  "VARSIZE_ANY p =
     bindE (va_header p) (\<lambda>h.
       if VARATT_IS_1B_E h then VARSIZE_EXTERNAL p
       else if VARATT_IS_1B h then Inr (VARSIZE_1B h)
       else VARSIZE_4B p)"

text \<open>The difference of \<open>VARSIZE\<close> and \<open>VARHDRSZ\<close> is an unsigned 32-bit integer and wraps around.\<close>

definition VARATT_CONVERTED_SHORT_SIZE :: "byte list \<Rightarrow> nat eres" where
  "VARATT_CONVERTED_SHORT_SIZE p = bindE (VARSIZE_4B p) (\<lambda>n. Inr (unat (of_nat n - 4 :: 32 word) + 1))"

definition VARATT_CAN_MAKE_SHORT :: "byte list \<Rightarrow> bool eres" where
  "VARATT_CAN_MAKE_SHORT p =
     bindE (va_header p) (\<lambda>h.
       if VARATT_IS_4B_U h then bindE (VARATT_CONVERTED_SHORT_SIZE p) (\<lambda>n. Inr (n \<le> 0x7F)) else Inr False)"

definition SET_VARSIZE_1B :: "nat \<Rightarrow> byte" where
  "SET_VARSIZE_1B n = push_bit 1 (of_nat n) OR 1"

text \<open>The bytes behind the header (\<open>VARDATA_ANY\<close>, \<open>VARSIZE_ANY_EXHDR\<close>), for a value stored in line.\<close>

definition VARDATA_ANY :: "byte list \<Rightarrow> byte list eres" where
  "VARDATA_ANY p =
     bindE (va_header p) (\<lambda>h. bindE (VARSIZE_ANY p) (\<lambda>n.
       if VARATT_IS_1B h then read_bytes p 1 (n - 1) else read_bytes p 4 (n - 4)))"

section \<open>Facts about the macros\<close>

text \<open>A value that is complete: its header gives the number of its bytes.\<close>

definition wf_varlena :: "byte list \<Rightarrow> bool" where
  "wf_varlena p \<longleftrightarrow> VARSIZE_ANY p = Inr (length p)"

lemma read_bytes_append: "off + n \<le> length p \<Longrightarrow> read_bytes (p @ q) off n = read_bytes p off n"
  by (simp add: read_bytes_def)

lemma read_bytes_Inr: "read_bytes p off n = Inr bs \<longleftrightarrow> off + n \<le> length p \<and> bs = take n (drop off p)"
  by (auto simp: read_bytes_def)

lemma va_header_append: "p \<noteq> [] \<Longrightarrow> va_header (p @ q) = va_header p"
  by (simp add: va_header_def split: list.splits)

lemma va_header_Inr: "va_header p = Inr h \<longleftrightarrow> p \<noteq> [] \<and> h = hd p"
  by (cases p) (auto simp: va_header_def)

lemma VARSIZE_4B_append: "VARSIZE_4B p = Inr n \<Longrightarrow> VARSIZE_4B (p @ q) = Inr n"
  by (auto simp: VARSIZE_4B_def read_bytes_Inr)

lemma VARTAG_1B_E_append: "VARTAG_1B_E p = Inr t \<Longrightarrow> VARTAG_1B_E (p @ q) = Inr t"
  by (auto simp: VARTAG_1B_E_def read_bytes_Inr)

lemma VARSIZE_EXTERNAL_append: "VARSIZE_EXTERNAL p = Inr n \<Longrightarrow> VARSIZE_EXTERNAL (p @ q) = Inr n"
  using VARTAG_1B_E_append [of p _ q] by (auto simp: VARSIZE_EXTERNAL_def)

lemma VARSIZE_ANY_append: "VARSIZE_ANY p = Inr n \<Longrightarrow> VARSIZE_ANY (p @ q) = Inr n"
  using VARSIZE_4B_append [of p n q] VARSIZE_EXTERNAL_append [of p n q]
  by (auto simp: VARSIZE_ANY_def va_header_Inr split: if_splits)

lemma VARSIZE_4B_length: "VARSIZE_4B p = Inr n \<Longrightarrow> 4 \<le> length p"
  by (auto simp: VARSIZE_4B_def read_bytes_Inr)

lemma converted_short_size:
  assumes "VARSIZE_4B p = Inr n" "4 \<le> n"
  shows "VARATT_CONVERTED_SHORT_SIZE p = Inr (n - 4 + 1)"
proof -
  obtain w :: "32 word" where w: "n = unat w" using assms(1) by (auto simp: VARSIZE_4B_def)
  with assms(2) have "4 \<le> w" by (simp add: word_le_nat_alt)
  then have "unat (w - 4) = n - 4" using w by (simp add: unat_sub)
  with w assms(1) show ?thesis by (simp add: VARATT_CONVERTED_SHORT_SIZE_def)
qed

lemma wf_varlena_nonempty: "wf_varlena p \<Longrightarrow> p \<noteq> []"
  by (auto simp: wf_varlena_def VARSIZE_ANY_def va_header_Inr)

lemma wf_varlena_4B: "wf_varlena p \<Longrightarrow> \<not> VARATT_IS_1B (hd p) \<Longrightarrow> VARSIZE_4B p = Inr (length p)"
  by (auto simp: wf_varlena_def VARSIZE_ANY_def va_header_Inr VARATT_IS_1B_E_def VARATT_IS_1B_def split: if_splits)

lemma VARATT_IS_1B_nonzero: "VARATT_IS_1B h \<Longrightarrow> h \<noteq> 0"
  by (auto simp: VARATT_IS_1B_def)

lemma VARATT_IS_1B_E_1B: "VARATT_IS_1B_E h \<Longrightarrow> VARATT_IS_1B h"
  by (simp add: VARATT_IS_1B_E_def VARATT_IS_1B_def)

lemma VARATT_IS_4B_U_not_1B: "VARATT_IS_4B_U h \<Longrightarrow> \<not> VARATT_IS_1B h"
proof
  assume "VARATT_IS_4B_U h" "VARATT_IS_1B h"
  then have "\<not> bit (h AND 3) 0" "bit (h AND 1) 0" by (simp_all add: VARATT_IS_4B_U_def VARATT_IS_1B_def)
  moreover have "bit (3 :: byte) 0" by simp
  ultimately show False by (simp only: bit_and_iff) blast
qed

text \<open>A value converted to the short format.\<close>

definition make_short :: "byte list \<Rightarrow> byte list" where
  "make_short p = SET_VARSIZE_1B (length p - 4 + 1) # drop 4 p"

lemma SET_VARSIZE_1B:
  assumes "0 < n" "n < 128"
  shows "VARATT_IS_1B (SET_VARSIZE_1B n)" "\<not> VARATT_IS_1B_E (SET_VARSIZE_1B n)" "VARSIZE_1B (SET_VARSIZE_1B n) = n"
proof -
  have "bit (SET_VARSIZE_1B n AND 1) k = bit (1 :: byte) k" for k
    by (auto simp: SET_VARSIZE_1B_def bit_simps)
  then show "VARATT_IS_1B (SET_VARSIZE_1B n)" by (auto simp: VARATT_IS_1B_def intro: bit_eqI)
  have m: "(0x7F :: byte) = mask 7" by (simp add: mask_eq_exp_minus_1)
  have "drop_bit 1 (SET_VARSIZE_1B n) AND 0x7F = take_bit 7 (of_nat n)"
    unfolding m SET_VARSIZE_1B_def by (rule bit_eqI) (auto simp: bit_simps simp del: push_bit_of_nat push_bit_Suc push_bit_numeral One_nat_def)
  moreover have "unat (take_bit 7 (of_nat n :: byte)) = n"
    using assms by (simp add: unsigned_take_bit_eq unat_of_nat take_bit_nat_eq_self)
  ultimately show s: "VARSIZE_1B (SET_VARSIZE_1B n) = n" by (simp add: VARSIZE_1B_def)
  have "VARSIZE_1B 1 = 0" by (simp add: VARSIZE_1B_def)
  with s assms show "\<not> VARATT_IS_1B_E (SET_VARSIZE_1B n)" by (auto simp: VARATT_IS_1B_E_def)
qed

lemma can_make_short:
  assumes "wf_varlena p" "VARATT_CAN_MAKE_SHORT p = Inr True"
  shows "VARATT_IS_4B_U (hd p)" "VARSIZE_4B p = Inr (length p)" "4 \<le> length p" "length p - 4 + 1 < 128"
proof -
  from assms(2) show h: "VARATT_IS_4B_U (hd p)" by (auto simp: VARATT_CAN_MAKE_SHORT_def va_header_Inr split: if_splits)
  then show s: "VARSIZE_4B p = Inr (length p)" using wf_varlena_4B [OF assms(1)] VARATT_IS_4B_U_not_1B by blast
  then show "4 \<le> length p" by (rule VARSIZE_4B_length)
  from converted_short_size [OF s this] show "length p - 4 + 1 < 128"
    using assms(2) by (auto simp: VARATT_CAN_MAKE_SHORT_def split: if_splits)
qed

lemma make_short_wf:
  assumes "wf_varlena p" "VARATT_CAN_MAKE_SHORT p = Inr True"
  shows "wf_varlena (make_short p)" "VARATT_IS_1B (hd (make_short p))" "\<not> VARATT_IS_1B_E (hd (make_short p))"
    "length (make_short p) = length p - 4 + 1"
  using can_make_short [OF assms] SET_VARSIZE_1B [of "length p - 4 + 1"]
  by (auto simp: make_short_def wf_varlena_def VARSIZE_ANY_def va_header_def)

text \<open>Packing a value keeps its data.\<close>

lemma VARDATA_ANY_make_short:
  assumes "wf_varlena p" "VARATT_CAN_MAKE_SHORT p = Inr True"
  shows "VARDATA_ANY (make_short p) = VARDATA_ANY p" "VARDATA_ANY p = Inr (drop 4 p)"
proof -
  have s: "VARSIZE_ANY (make_short p) = Inr (length p - 4 + 1)" "VARSIZE_ANY p = Inr (length p)"
    using make_short_wf [OF assms] assms(1) by (simp_all add: wf_varlena_def)
  have h: "va_header (make_short p) = Inr (hd (make_short p))" "va_header p = Inr (hd p)" "p \<noteq> []"
    using wf_varlena_nonempty [OF assms(1)] by (auto simp: va_header_Inr make_short_def)
  have "\<not> VARATT_IS_1B (hd p)" using can_make_short(1) [OF assms] VARATT_IS_4B_U_not_1B by blast
  with s h make_short_wf(2) [OF assms] can_make_short(3) [OF assms]
  show "VARDATA_ANY p = Inr (drop 4 p)" "VARDATA_ANY (make_short p) = VARDATA_ANY p"
    by (simp_all add: VARDATA_ANY_def read_bytes_def make_short_def)
qed

end
