(* ===== verification/HeapTuple.thy ===== *)
theory HeapTuple
  imports Varlena
begin

unbundle bit_operations_syntax

text \<open>
  Building a heap tuple: \<open>heap_compute_data_size\<close>, \<open>fill_val\<close>, \<open>heap_fill_tuple\<close> and \<open>heap_form_tuple\<close> of
  \<open>src/backend/access/common/heaptuple.c\<close>. The size computed beforehand is exactly what the filling
  writes, the values end up at the places of \<open>layout\<close>, and the null bitmap marks the nulls.
  Flattening an expanded object calls a method of the object and is the parameter \<open>flat\<close>.
\<close>

section \<open>Descriptors and values\<close>

datatype typstorage = TYPSTORAGE_PLAIN | TYPSTORAGE_EXTERNAL | TYPSTORAGE_EXTENDED | TYPSTORAGE_MAIN

record Attr =
  attlen :: int
  attbyval :: bool
  attalign :: typalign
  attstorage :: typstorage
  attcacheoff :: int
  atthasmissing :: bool
  attmissing :: "Datum \<times> bool"

text \<open>A value to be stored: a datum itself, or the object it points to. Nulls are \<open>None\<close>.\<close>

datatype val = ByVal Datum | ByRef "byte list"

definition DatumGetPointer :: "val \<Rightarrow> byte list eres" where
  "DatumGetPointer v = (case v of ByRef p \<Rightarrow> Inr p | ByVal _ \<Rightarrow> Inl (Fault OutOfBounds))"

definition DatumGetWord :: "val \<Rightarrow> Datum eres" where
  "DatumGetWord v = (case v of ByVal d \<Rightarrow> Inr d | ByRef _ \<Rightarrow> Inl (Fault OutOfBounds))"

definition VARLENA_ATT_IS_PACKABLE :: "Attr \<Rightarrow> bool" where
  "VARLENA_ATT_IS_PACKABLE att \<longleftrightarrow> attstorage att \<noteq> TYPSTORAGE_PLAIN"

definition ATT_IS_PACKABLE :: "Attr \<Rightarrow> bool" where
  "ATT_IS_PACKABLE att \<longleftrightarrow> attlen att = - 1 \<and> attstorage att \<noteq> TYPSTORAGE_PLAIN"

section \<open>The size of the data\<close>

definition att_align_datum :: "nat \<Rightarrow> typalign \<Rightarrow> int \<Rightarrow> val \<Rightarrow> nat eres" where
  "att_align_datum cur_offset al len v =
     (if len = - 1 then
        bindE (DatumGetPointer v) (\<lambda>p. bindE (va_header p) (\<lambda>h.
          Inr (if VARATT_IS_1B h then cur_offset else att_align_nominal cur_offset al)))
      else Inr (att_align_nominal cur_offset al))"

definition att_addlength_pointer :: "nat \<Rightarrow> int \<Rightarrow> byte list \<Rightarrow> nat eres" where
  "att_addlength_pointer cur_offset len p =
     (if len > 0 then Inr (cur_offset + nat len)
      else if len = - 1 then bindE (VARSIZE_ANY p) (\<lambda>n. Inr (cur_offset + n))
      else bindE (strlen p) (\<lambda>n. Inr (cur_offset + (n + 1))))"

definition att_addlength_datum :: "nat \<Rightarrow> int \<Rightarrow> val \<Rightarrow> nat eres" where
  "att_addlength_datum cur_offset len v =
     (if len > 0 then Inr (cur_offset + nat len)
      else bindE (DatumGetPointer v) (att_addlength_pointer cur_offset len))"

text \<open>One round of the loop of \<open>heap_compute_data_size\<close>, and the loop.\<close>

definition add_data_size :: "(byte list \<Rightarrow> byte list) \<Rightarrow> Attr \<Rightarrow> val option \<Rightarrow> nat \<Rightarrow> nat eres" where
  "add_data_size flat atti vo data_length =
     (case vo of
        None \<Rightarrow> Inr data_length
      | Some v \<Rightarrow>
          bindE (if ATT_IS_PACKABLE atti then bindE (DatumGetPointer v) VARATT_CAN_MAKE_SHORT else Inr False) (\<lambda>short.
            if short then
              bindE (DatumGetPointer v) (\<lambda>p. bindE (VARATT_CONVERTED_SHORT_SIZE p) (\<lambda>n. Inr (data_length + n)))
            else
              bindE (if attlen atti = - 1 then bindE (DatumGetPointer v) VARATT_IS_EXTERNAL_EXPANDED else Inr False) (\<lambda>expanded.
                if expanded then
                  bindE (DatumGetPointer v) (\<lambda>p. Inr (att_align_nominal data_length (attalign atti) + length (flat p)))
                else
                  bindE (att_align_datum data_length (attalign atti) (attlen atti) v) (\<lambda>n.
                    att_addlength_datum n (attlen atti) v))))"

fun heap_compute_data_size :: "(byte list \<Rightarrow> byte list) \<Rightarrow> Attr list \<Rightarrow> val option list \<Rightarrow> nat \<Rightarrow> nat eres" where
  "heap_compute_data_size flat (att # atts) (v # vs) data_length =
     bindE (add_data_size flat att v data_length) (heap_compute_data_size flat atts vs)"
| "heap_compute_data_size flat _ _ data_length = Inr data_length"

section \<open>Filling the data area and the null bitmap\<close>

definition HEAP_HASNULL :: "16 word" where "HEAP_HASNULL = 1"
definition HEAP_HASVARWIDTH :: "16 word" where "HEAP_HASVARWIDTH = 2"
definition HEAP_HASEXTERNAL :: "16 word" where "HEAP_HASEXTERNAL = 4"
definition HIGHBIT :: nat where "HIGHBIT = 0x80"

text \<open>
  The state of \<open>heap_fill_tuple\<close>: the bitmap with the index of the current byte, which starts one before
  the bitmap, and the mask of the current bit; the data area with the offset of \<open>data\<close> in it; the mask.
\<close>

record fill_state =
  bits :: "byte list"
  bit_index :: int
  bitmask :: nat
  area :: "byte list"
  data :: nat
  infomask :: "16 word"

definition next_bit :: "fill_state \<Rightarrow> fill_state eres" where
  "next_bit s =
     (if bitmask s \<noteq> HIGHBIT then Inr (s\<lparr>bitmask := bitmask s * 2\<rparr>)
      else (case arr_set (bits s) (bit_index s + 1) 0 of
              Inl e \<Rightarrow> Inl (Fault e)
            | Inr b \<Rightarrow> Inr (s\<lparr>bit_index := bit_index s + 1, bits := b, bitmask := 1\<rparr>)))"

definition fill_bit :: "bool \<Rightarrow> fill_state \<Rightarrow> fill_state eres" where
  "fill_bit isnull s =
     bindE (next_bit s) (\<lambda>s1.
       if isnull then Inr (s1\<lparr>infomask := infomask s1 OR HEAP_HASNULL\<rparr>)
       else (case arr_get (bits s1) (bit_index s1) of
               Inl e \<Rightarrow> Inl (Fault e)
             | Inr b \<Rightarrow> Inr (s1\<lparr>bits := (bits s1)[nat (bit_index s1) := b OR of_nat (bitmask s1)]\<rparr>)))"

definition store_att_byval :: "int \<Rightarrow> Datum \<Rightarrow> byte list eres" where
  "store_att_byval len newdatum =
     (if len \<in> {1, 2, 4, 8} then Inr (le_bytes (nat len) newdatum) else Inl (ERROR ERRCODE_INTERNAL_ERROR))"

text \<open>
  The bytes \<open>fill_val\<close> writes, whether it aligns before, and the flags it sets. The pointer \<open>data\<close> is
  aligned as an address: \<open>start\<close> is the address of the data area.
\<close>

definition fill_bytes :: "(byte list \<Rightarrow> byte list) \<Rightarrow> Attr \<Rightarrow> val \<Rightarrow> (bool \<times> byte list \<times> 16 word) eres" where
  "fill_bytes flat att v =
     (if attbyval att then
        bindE (DatumGetWord v) (\<lambda>d. bindE (store_att_byval (attlen att) d) (\<lambda>bs. Inr (True, bs, 0)))
      else bindE (DatumGetPointer v) (\<lambda>p.
        if attlen att = - 1 then
          bindE (va_header p) (\<lambda>h.
            if VARATT_IS_1B_E h then
              bindE (VARATT_IS_EXTERNAL_EXPANDED p) (\<lambda>expanded.
                if expanded then Inr (True, flat p, HEAP_HASVARWIDTH)
                else bindE (VARSIZE_EXTERNAL p) (\<lambda>n. bindE (read_bytes p 0 n) (\<lambda>bs.
                       Inr (False, bs, HEAP_HASVARWIDTH OR HEAP_HASEXTERNAL))))
            else if VARATT_IS_1B h then bindE (read_bytes p 0 (VARSIZE_1B h)) (\<lambda>bs. Inr (False, bs, HEAP_HASVARWIDTH))
            else
              bindE (if VARLENA_ATT_IS_PACKABLE att then VARATT_CAN_MAKE_SHORT p else Inr False) (\<lambda>short.
                if short then
                  bindE (VARATT_CONVERTED_SHORT_SIZE p) (\<lambda>n. bindE (read_bytes p 4 (n - 1)) (\<lambda>bs.
                    Inr (False, SET_VARSIZE_1B n # bs, HEAP_HASVARWIDTH)))
                else bindE (VARSIZE_4B p) (\<lambda>n. bindE (read_bytes p 0 n) (\<lambda>bs. Inr (True, bs, HEAP_HASVARWIDTH)))))
        else if attlen att = - 2 then
          bindE (strlen p) (\<lambda>n. bindE (read_bytes p 0 (n + 1)) (\<lambda>bs. Inr (False, bs, HEAP_HASVARWIDTH)))
        else bindE (read_bytes p 0 (nat (attlen att))) (\<lambda>bs. Inr (True, bs, 0))))"

definition fill_data :: "(byte list \<Rightarrow> byte list) \<Rightarrow> nat \<Rightarrow> Attr \<Rightarrow> val \<Rightarrow> fill_state \<Rightarrow> fill_state eres" where
  "fill_data flat start att v s =
     bindE (fill_bytes flat att v) (\<lambda>(aligned, bs, flags).
       let off = (if aligned then att_align_nominal (start + data s) (attalign att) - start else data s)
       in bindE (memcpy (area s) off bs) (\<lambda>a.
            Inr (s\<lparr>area := a, data := off + length bs, infomask := infomask s OR flags\<rparr>)))"

text \<open>A null without a bitmap does not occur: \<open>heap_form_tuple\<close> passes a bitmap if there is a null.\<close>

definition fill_val ::
  "(byte list \<Rightarrow> byte list) \<Rightarrow> nat \<Rightarrow> bool \<Rightarrow> Attr \<Rightarrow> val option \<Rightarrow> fill_state \<Rightarrow> fill_state eres" where
  "fill_val flat start hasbits att vo s =
     bindE (if hasbits then fill_bit (vo = None) s else Inr s) (\<lambda>s1.
       case vo of
         None \<Rightarrow> if hasbits then Inr s1 else Inl (Fault NullDeref)
       | Some v \<Rightarrow> fill_data flat start att v s1)"

fun fill_loop :: "(byte list \<Rightarrow> byte list) \<Rightarrow> nat \<Rightarrow> bool \<Rightarrow> Attr list \<Rightarrow> val option list \<Rightarrow> fill_state \<Rightarrow> fill_state eres" where
  "fill_loop flat start hasbits (att # atts) (v # vs) s =
     bindE (fill_val flat start hasbits att v s) (fill_loop flat start hasbits atts vs)"
| "fill_loop flat start hasbits _ _ s = Inr s"

definition heap_fill_tuple ::
  "(byte list \<Rightarrow> byte list) \<Rightarrow> Attr list \<Rightarrow> val option list \<Rightarrow> nat \<Rightarrow> byte list \<Rightarrow> 16 word \<Rightarrow> byte list option \<Rightarrow> fill_state eres" where
  "heap_fill_tuple flat atts vs start dat imask bitP =
     fill_loop flat start (bitP \<noteq> None) atts vs
       \<lparr>bits = (case bitP of None \<Rightarrow> [] | Some b \<Rightarrow> b), bit_index = - 1, bitmask = (if bitP \<noteq> None then HIGHBIT else 0),
        area = dat, data = 0, infomask = imask AND NOT (HEAP_HASNULL OR HEAP_HASVARWIDTH OR HEAP_HASEXTERNAL)\<rparr>"

section \<open>Forming a tuple\<close>

definition MaxTupleAttributeNumber :: nat where "MaxTupleAttributeNumber = 1664"
definition MaxAllocSize :: nat where "MaxAllocSize = 0x3fffffff"
definition HEAPTUPLESIZE :: nat where "HEAPTUPLESIZE = 24"

definition BITMAPLEN :: "nat \<Rightarrow> nat" where
  "BITMAPLEN natts = (natts + 7) div 8"

text \<open>
  A tuple: its length, number of attributes, mask, null bitmap, the offset of the data area, the address
  of the header and the bytes of the data area.
\<close>

record HeapTuple =
  t_len :: nat
  t_natts :: nat
  t_infomask :: "16 word"
  t_bits :: "byte list"
  t_hoff :: nat
  t_addr :: nat
  t_area :: "byte list"

definition HeapTupleHasNulls :: "HeapTuple \<Rightarrow> bool" where
  "HeapTupleHasNulls tuple = (t_infomask tuple AND HEAP_HASNULL \<noteq> 0)"

definition HeapTupleHasVarWidth :: "HeapTuple \<Rightarrow> bool" where
  "HeapTupleHasVarWidth tuple = (t_infomask tuple AND HEAP_HASVARWIDTH \<noteq> 0)"

definition att_isnull :: "nat \<Rightarrow> byte list \<Rightarrow> bool eres" where
  "att_isnull att bitP =
     (case arr_get bitP (int (att div 8)) of
        Inl e \<Rightarrow> Inl (Fault e)
      | Inr b \<Rightarrow> Inr (b AND push_bit (att mod 8) 1 = 0))"

text \<open>\<open>block\<close> is the address that \<open>palloc0\<close> returns; it refuses more than \<open>MaxAllocSize\<close> bytes.\<close>

definition heap_form_tuple :: "(byte list \<Rightarrow> byte list) \<Rightarrow> nat \<Rightarrow> Attr list \<Rightarrow> val option list \<Rightarrow> HeapTuple eres" where
  "heap_form_tuple flat block atts vs =
     (let natts = length atts; hasnull = (None \<in> set vs)
      in if natts > MaxTupleAttributeNumber then Inl (ERROR ERRCODE_TOO_MANY_COLUMNS)
         else
           let hoff = MAXALIGN (23 + (if hasnull then BITMAPLEN natts else 0))
           in bindE (heap_compute_data_size flat atts vs 0) (\<lambda>data_len.
                let len = hoff + data_len; td = block + HEAPTUPLESIZE
                in if HEAPTUPLESIZE + len > MaxAllocSize then Inl (ERROR ERRCODE_INTERNAL_ERROR)
                   else bindE (heap_fill_tuple flat atts vs (td + hoff) (replicate data_len 0) 0
                                 (if hasnull then Some (replicate (BITMAPLEN natts) 0) else None)) (\<lambda>s.
                     Inr \<lparr>t_len = len, t_natts = natts, t_infomask = infomask s, t_bits = bits s, t_hoff = hoff,
                          t_addr = td, t_area = area s\<rparr>)))"

section \<open>What is stored\<close>

definition is_expanded :: "byte list \<Rightarrow> bool" where
  "is_expanded p \<longleftrightarrow> VARATT_IS_EXTERNAL_EXPANDED p = Inr True"

definition cstring :: "byte list \<Rightarrow> bool" where
  "cstring p \<longleftrightarrow> p \<noteq> [] \<and> last p = 0 \<and> 0 \<notin> set (butlast p)"

text \<open>Datums of a type of \<open>len\<close> bytes are extended with the sign.\<close>

definition canonical :: "int \<Rightarrow> Datum \<Rightarrow> bool" where
  "canonical len d \<longleftrightarrow>
     (if len = 8 then True else if len = 4 then d = scast (ucast d :: 32 word)
      else if len = 2 then d = scast (ucast d :: 16 word) else len = 1 \<and> d = scast (ucast d :: 8 word))"

definition valid_val :: "(byte list \<Rightarrow> byte list) \<Rightarrow> Attr \<Rightarrow> val \<Rightarrow> bool" where
  "valid_val flat att v \<longleftrightarrow>
     (case v of
        ByVal d \<Rightarrow> attbyval att \<and> canonical (attlen att) d
      | ByRef p \<Rightarrow> \<not> attbyval att \<and>
          (if attlen att = - 1 then
             wf_varlena p \<and> (is_expanded p \<longrightarrow> wf_varlena (flat p) \<and> \<not> VARATT_IS_1B (hd (flat p)))
           else if attlen att = - 2 then attalign att = TYPALIGN_CHAR \<and> cstring p
           else 0 < attlen att \<and> int (length p) = attlen att))"

definition valid_row :: "(byte list \<Rightarrow> byte list) \<Rightarrow> Attr list \<Rightarrow> val option list \<Rightarrow> bool" where
  "valid_row flat = list_all2 (\<lambda>att v. case v of None \<Rightarrow> True | Some v \<Rightarrow> valid_val flat att v)"

text \<open>Whether a value is aligned, and its bytes in the tuple.\<close>

definition stored :: "(byte list \<Rightarrow> byte list) \<Rightarrow> Attr \<Rightarrow> val \<Rightarrow> bool \<times> byte list" where
  "stored flat att v =
     (case v of
        ByVal d \<Rightarrow> (True, le_bytes (nat (attlen att)) d)
      | ByRef p \<Rightarrow>
          if attlen att = - 1 then
            if is_expanded p then (True, flat p)
            else if VARATT_IS_1B (hd p) then (False, p)
            else if VARLENA_ATT_IS_PACKABLE att \<and> VARATT_CAN_MAKE_SHORT p = Inr True then (False, make_short p)
            else (True, p)
          else (attlen att \<noteq> - 2, p))"

definition place_of :: "(byte list \<Rightarrow> byte list) \<Rightarrow> Attr \<Rightarrow> val \<Rightarrow> nat \<Rightarrow> nat" where
  "place_of flat att v off = (if fst (stored flat att v) then att_align_nominal off (attalign att) else off)"

definition end_of :: "(byte list \<Rightarrow> byte list) \<Rightarrow> Attr \<Rightarrow> val option \<Rightarrow> nat \<Rightarrow> nat" where
  "end_of flat att vo off =
     (case vo of None \<Rightarrow> off | Some v \<Rightarrow> place_of flat att v off + length (snd (stored flat att v)))"

definition piece :: "(byte list \<Rightarrow> byte list) \<Rightarrow> Attr \<Rightarrow> val option \<Rightarrow> nat \<Rightarrow> byte list" where
  "piece flat att vo off =
     (case vo of None \<Rightarrow> [] | Some v \<Rightarrow> replicate (place_of flat att v off - off) 0 @ snd (stored flat att v))"

fun layout :: "(byte list \<Rightarrow> byte list) \<Rightarrow> nat \<Rightarrow> Attr list \<Rightarrow> val option list \<Rightarrow> byte list" where
  "layout flat off (att # atts) (v # vs) = piece flat att v off @ layout flat (end_of flat att v off) atts vs"
| "layout flat off _ _ = []"

lemma place_of_ge [simp]: "off \<le> place_of flat att v off"
  by (simp add: place_of_def)

lemma length_piece: "off + length (piece flat att vo off) = end_of flat att vo off"
proof (cases vo)
  case (Some v)
  obtain d where "place_of flat att v off = off + d" using place_of_ge le_Suc_ex by blast
  with Some show ?thesis by (simp add: piece_def end_of_def)
qed (simp add: piece_def end_of_def)

lemma wf_varlena_external:
  assumes "wf_varlena p" "VARATT_IS_1B_E (hd p)"
  obtains tag where "VARTAG_1B_E p = Inr tag" "VARSIZE_EXTERNAL p = Inr (length p)"
    "VARATT_IS_EXTERNAL_EXPANDED p = Inr (VARTAG_IS_EXPANDED tag)"
  using assms wf_varlena_nonempty [OF assms(1)]
  by (auto simp: wf_varlena_def VARSIZE_ANY_def VARSIZE_EXTERNAL_def VARATT_IS_EXTERNAL_EXPANDED_def va_header_def split: list.splits)

lemma not_external_expanded: "p \<noteq> [] \<Longrightarrow> \<not> VARATT_IS_1B_E (hd p) \<Longrightarrow> VARATT_IS_EXTERNAL_EXPANDED p = Inr False"
  by (cases p) (simp_all add: VARATT_IS_EXTERNAL_EXPANDED_def va_header_def)

lemma wf_varlena_1B: "wf_varlena p \<Longrightarrow> VARATT_IS_1B (hd p) \<Longrightarrow> \<not> VARATT_IS_1B_E (hd p) \<Longrightarrow> VARSIZE_1B (hd p) = length p"
  using wf_varlena_nonempty [of p] by (cases p) (auto simp: wf_varlena_def VARSIZE_ANY_def va_header_def)

lemma can_make_short_cases:
  assumes "wf_varlena p"
  shows "\<exists>b. VARATT_CAN_MAKE_SHORT p = Inr b"
proof (cases "VARATT_IS_1B (hd p)")
  case True
  with VARATT_IS_4B_U_not_1B have "\<not> VARATT_IS_4B_U (hd p)" by blast
  then show ?thesis using wf_varlena_nonempty [OF assms] by (cases p) (auto simp: VARATT_CAN_MAKE_SHORT_def va_header_def)
next
  case False
  then show ?thesis using wf_varlena_nonempty [OF assms] wf_varlena_4B [OF assms]
    by (cases p) (auto simp: VARATT_CAN_MAKE_SHORT_def VARATT_CONVERTED_SHORT_SIZE_def va_header_def)
qed

lemma can_make_short_not_1B: "wf_varlena p \<Longrightarrow> VARATT_CAN_MAKE_SHORT p = Inr True \<Longrightarrow> \<not> VARATT_IS_1B (hd p)"
  using can_make_short(1) VARATT_IS_4B_U_not_1B by blast

lemma cstring_strlen: "cstring p \<Longrightarrow> strlen (p @ q) = Inr (length p - 1)"
proof -
  assume "cstring p"
  then obtain b where p: "p = b @ [0]" "0 \<notin> set b" by (metis append_butlast_last_id cstring_def)
  have "takeWhile (\<lambda>x. x \<noteq> 0) (b @ 0 # q) = b" using p(2) by (intro takeWhile_append_stop) auto
  then show ?thesis using p by (simp add: strlen_def)
qed

lemma cstring_length: "cstring p \<Longrightarrow> 0 < length p"
  by (simp add: cstring_def)

lemma read_bytes_all: "n = length p \<Longrightarrow> read_bytes p 0 n = Inr p"
  by (simp add: read_bytes_def)

lemma varlena_bytes:
  assumes "attlen att = - 1" "\<not> attbyval att" "wf_varlena p"
  shows "\<exists>fl. fill_bytes flat att (ByRef p) = Inr (fst (stored flat att (ByRef p)), snd (stored flat att (ByRef p)), fl)
    \<and> fl AND HEAP_HASVARWIDTH \<noteq> 0 \<and> fl AND HEAP_HASNULL = 0"
proof -
  have h: "va_header p = Inr (hd p)" using wf_varlena_nonempty [OF assms(3)] by (simp add: va_header_Inr)
  have fl: "(HEAP_HASVARWIDTH OR HEAP_HASEXTERNAL) AND HEAP_HASVARWIDTH \<noteq> 0" "(HEAP_HASVARWIDTH OR HEAP_HASEXTERNAL) AND HEAP_HASNULL = 0"
    "HEAP_HASVARWIDTH AND HEAP_HASVARWIDTH \<noteq> 0" "HEAP_HASVARWIDTH AND HEAP_HASNULL = 0"
    by (simp_all add: HEAP_HASVARWIDTH_def HEAP_HASEXTERNAL_def HEAP_HASNULL_def)
  consider (ext) "VARATT_IS_1B_E (hd p)" | (short) "VARATT_IS_1B (hd p)" "\<not> VARATT_IS_1B_E (hd p)"
    | (long) "\<not> VARATT_IS_1B (hd p)" "\<not> VARATT_IS_1B_E (hd p)"
    using VARATT_IS_1B_E_1B by blast
  then show ?thesis
  proof cases
    case ext
    from wf_varlena_external [OF assms(3) ext] obtain tag where "VARSIZE_EXTERNAL p = Inr (length p)"
      "VARATT_IS_EXTERNAL_EXPANDED p = Inr (VARTAG_IS_EXPANDED tag)" by blast
    with ext h fl assms VARATT_IS_1B_E_1B [OF ext] show ?thesis
      by (simp add: fill_bytes_def stored_def is_expanded_def DatumGetPointer_def read_bytes_all)
  next
    case short
    with h fl assms wf_varlena_1B [OF assms(3) short] not_external_expanded [OF wf_varlena_nonempty [OF assms(3)] short(2)] show ?thesis
      by (simp add: fill_bytes_def stored_def is_expanded_def DatumGetPointer_def read_bytes_all)
  next
    case long
    obtain b where b: "VARATT_CAN_MAKE_SHORT p = Inr b" using can_make_short_cases [OF assms(3)] by blast
    have r: "b \<Longrightarrow> read_bytes p 4 (length p - 4) = Inr (drop 4 p)"
      using can_make_short(3) [OF assms(3)] b by (simp add: read_bytes_def)
    have l: "VARSIZE_4B p = Inr (length p)" using wf_varlena_4B [OF assms(3) long(1)] .
    from long h fl assms l converted_short_size [OF l VARSIZE_4B_length [OF l]] b r
      not_external_expanded [OF wf_varlena_nonempty [OF assms(3)] long(2)] show ?thesis
      by (cases "VARLENA_ATT_IS_PACKABLE att"; cases b) (simp_all add: fill_bytes_def stored_def is_expanded_def DatumGetPointer_def
          read_bytes_all make_short_def)
  qed
qed

lemma canonical_len: "canonical len d \<Longrightarrow> len \<in> {1, 2, 4, 8}"
  by (auto simp: canonical_def split: if_splits)

lemma fill_bytes_stored:
  assumes "valid_val flat att v"
  shows "\<exists>fl. fill_bytes flat att v = Inr (fst (stored flat att v), snd (stored flat att v), fl)
    \<and> (attlen att \<le> 0 \<longrightarrow> fl AND HEAP_HASVARWIDTH \<noteq> 0) \<and> fl AND HEAP_HASNULL = 0"
proof (cases v)
  case (ByVal d)
  with assms have "attlen att \<in> {1, 2, 4, 8}" "attbyval att" using canonical_len by (auto simp: valid_val_def)
  with ByVal show ?thesis by (auto simp: fill_bytes_def stored_def store_att_byval_def DatumGetWord_def)
next
  case (ByRef p)
  with assms have nb: "\<not> attbyval att" by (simp add: valid_val_def)
  consider "attlen att = - 1" | "attlen att = - 2" | "attlen att \<noteq> - 1" "attlen att \<noteq> - 2" by blast
  then show ?thesis
  proof cases
    case 1
    with varlena_bytes [of att p flat] assms ByRef nb show ?thesis by (auto simp: valid_val_def)
  next
    case 2
    with assms ByRef have cs: "cstring p" by (simp add: valid_val_def)
    then have "strlen p = Inr (length p - 1)" using cstring_strlen [of p "[]"] by simp
    with 2 ByRef nb cstring_length [OF cs] show ?thesis
      by (simp add: fill_bytes_def stored_def DatumGetPointer_def read_bytes_all HEAP_HASVARWIDTH_def HEAP_HASNULL_def)
  next
    case 3
    with assms ByRef nb show ?thesis by (auto simp: fill_bytes_def stored_def DatumGetPointer_def valid_val_def read_bytes_all)
  qed
qed

lemma varlena_size:
  assumes "attlen att = - 1" "wf_varlena p"
  shows "add_data_size flat att (Some (ByRef p)) off = Inr (end_of flat att (Some (ByRef p)) off)"
proof -
  obtain b where b: "VARATT_CAN_MAKE_SHORT p = Inr b" using can_make_short_cases [OF assms(2)] by blast
  have ne: "p \<noteq> []" using wf_varlena_nonempty [OF assms(2)] .
  have h: "va_header p = Inr (hd p)" using ne by (simp add: va_header_Inr)
  have s: "VARSIZE_ANY p = Inr (length p)" using assms(2) by (simp add: wf_varlena_def)
  obtain e where e: "VARATT_IS_EXTERNAL_EXPANDED p = Inr e"
    using wf_varlena_external [OF assms(2)] not_external_expanded [OF ne] by metis
  show ?thesis
  proof (cases "VARLENA_ATT_IS_PACKABLE att \<and> b")
    case True
    then have m: "VARATT_CAN_MAKE_SHORT p = Inr True" using b by simp
    have n1: "\<not> VARATT_IS_1B (hd p)" using can_make_short_not_1B [OF assms(2) m] .
    then have "\<not> VARATT_IS_1B_E (hd p)" using VARATT_IS_1B_E_1B by blast
    from not_external_expanded [OF ne this] have "\<not> is_expanded p" by (simp add: is_expanded_def)
    with True n1 m converted_short_size [OF can_make_short(2,3) [OF assms(2) m]] make_short_wf(4) [OF assms(2) m] assms(1) show ?thesis
      by (simp add: add_data_size_def end_of_def place_of_def stored_def ATT_IS_PACKABLE_def VARLENA_ATT_IS_PACKABLE_def
          DatumGetPointer_def)
  next
    case False
    with b e h s assms(1) show ?thesis
      by (auto simp: add_data_size_def end_of_def place_of_def stored_def ATT_IS_PACKABLE_def VARLENA_ATT_IS_PACKABLE_def
          DatumGetPointer_def is_expanded_def att_align_datum_def att_addlength_datum_def att_addlength_pointer_def)
  qed
qed

lemma add_data_size_end_of:
  assumes "\<forall>x. vo = Some x \<longrightarrow> valid_val flat att x"
  shows "add_data_size flat att vo off = Inr (end_of flat att vo off)"
proof (cases vo)
  case (Some v)
  with assms have va: "valid_val flat att v" by simp
  show ?thesis
  proof (cases v)
    case (ByVal d)
    with va canonical_len [of "attlen att" d] have "0 < attlen att" by (auto simp: valid_val_def)
    with Some ByVal show ?thesis
      by (simp add: add_data_size_def end_of_def place_of_def stored_def ATT_IS_PACKABLE_def att_align_datum_def att_addlength_datum_def)
  next
    case (ByRef p)
    consider "attlen att = - 1" | "attlen att = - 2" | "attlen att \<noteq> - 1" "attlen att \<noteq> - 2" by blast
    then show ?thesis
    proof cases
      case 1
      with varlena_size va Some ByRef show ?thesis by (simp add: valid_val_def)
    next
      case 2
      with va ByRef have cs: "cstring p" "attalign att = TYPALIGN_CHAR" by (simp_all add: valid_val_def)
      then have "strlen p = Inr (length p - 1)" using cstring_strlen [of p "[]"] by simp
      with 2 Some ByRef cs cstring_length [OF cs(1)] show ?thesis
        by (simp add: add_data_size_def end_of_def place_of_def stored_def ATT_IS_PACKABLE_def att_align_datum_def att_addlength_datum_def
            att_addlength_pointer_def DatumGetPointer_def att_align_nominal_def)
    next
      case 3
      with va ByRef have l: "0 < attlen att" "nat (attlen att) = length p" by (auto simp: valid_val_def)
      with 3 Some ByRef show ?thesis
        by (simp add: add_data_size_def end_of_def place_of_def stored_def ATT_IS_PACKABLE_def att_align_datum_def att_addlength_datum_def)
    qed
  qed
qed (simp add: add_data_size_def end_of_def)

lemma valid_row_simps [simp]:
  "valid_row flat [] vs \<longleftrightarrow> vs = []"
  "valid_row flat (att # atts) (v # vs) \<longleftrightarrow> (\<forall>x. v = Some x \<longrightarrow> valid_val flat att x) \<and> valid_row flat atts vs"
  "\<not> valid_row flat (att # atts) []"
  by (auto simp: valid_row_def split: option.splits)

lemma length_layout_Cons:
  "off + length (layout flat off (att # atts) (v # vs)) = end_of flat att v off + length (layout flat (end_of flat att v off) atts vs)"
  by (simp flip: length_piece)

lemma heap_compute_data_size_layout:
  "valid_row flat atts vs \<Longrightarrow> heap_compute_data_size flat atts vs off = Inr (off + length (layout flat off atts vs))"
proof (induction flat atts vs off rule: heap_compute_data_size.induct)
  case (1 flat att atts v vs off)
  then have "add_data_size flat att v off = Inr (end_of flat att v off)" by (simp add: add_data_size_end_of)
  with 1 show ?case by (simp only: valid_row_simps heap_compute_data_size.simps bindE_simps length_layout_Cons)
qed auto

section \<open>Correctness of the filling\<close>

text \<open>The bits of a bitmap, and the position of the current bit after \<open>i\<close> attributes.\<close>

definition bitmap :: "byte list \<Rightarrow> (nat \<Rightarrow> bool) \<Rightarrow> bool" where
  "bitmap b f \<longleftrightarrow> (\<forall>j < 8 * length b. bit (b ! (j div 8)) (j mod 8) = f j)"

definition bits_at :: "nat \<Rightarrow> fill_state \<Rightarrow> bool" where
  "bits_at i s \<longleftrightarrow> bit_index s = (int i - 1) div 8 \<and> bitmask s = 2 ^ nat ((int i - 1) mod 8)"

lemma bit_step:
  "i mod 8 = 0 \<Longrightarrow> (int i - 1) mod 8 = 7" "i mod 8 = 0 \<Longrightarrow> (int i - 1) div 8 + 1 = int (i div 8)"
  "i mod 8 \<noteq> 0 \<Longrightarrow> (int i - 1) mod 8 = int (i mod 8) - 1" "i mod 8 \<noteq> 0 \<Longrightarrow> (int i - 1) div 8 = int (i div 8)"
proof -
  define q r where "q = int (i div 8)" and "r = int (i mod 8)"
  have i: "int i = 8 * q + r" "0 \<le> r" "r < 8" unfolding q_def r_def zdiv_int zmod_int by (simp_all add: mult_div_mod_eq)
  have e: "x div 8 = a" "x mod 8 = b" if "x = 8 * a + b" "0 \<le> b" "b < 8" for x a b :: int
    using that by simp_all
  show "(int i - 1) mod 8 = 7" "(int i - 1) div 8 + 1 = int (i div 8)" if "i mod 8 = 0"
    using e [of "int i - 1" "q - 1" 7] that i(1) by (simp_all add: r_def q_def)
  show "(int i - 1) mod 8 = int (i mod 8) - 1" "(int i - 1) div 8 = int (i div 8)" if "i mod 8 \<noteq> 0"
    using e [of "int i - 1" q "r - 1"] that i by (simp_all add: r_def q_def)
qed

lemma bit_set_bit: "k < 8 \<Longrightarrow> bit (b OR of_nat (2 ^ k)) j \<longleftrightarrow> bit b j \<or> j = k" for b :: byte
  by (auto simp: bit_simps)

lemma bitmap_set:
  assumes "bitmap b f" "i < 8 * length b"
  shows "bitmap (b[i div 8 := b ! (i div 8) OR of_nat (2 ^ (i mod 8))]) (\<lambda>j. f j \<or> j = i)"
  unfolding bitmap_def
proof (intro allI impI)
  fix j assume j: "j < 8 * length (b[i div 8 := b ! (i div 8) OR of_nat (2 ^ (i mod 8))])"
  then have "bit (b ! (j div 8)) (j mod 8) = f j" "i div 8 < length b" "j div 8 < length b"
    using assms by (auto simp: bitmap_def)
  moreover have "j div 8 = i div 8 \<and> j mod 8 = i mod 8 \<longleftrightarrow> j = i" by (metis div_mult_mod_eq)
  moreover have "i mod 8 < 8" by simp
  ultimately show "bit (b[i div 8 := b ! (i div 8) OR of_nat (2 ^ (i mod 8))] ! (j div 8)) (j mod 8) = (f j \<or> j = i)"
    by (cases "j div 8 = i div 8") (auto simp only: nth_list_update_eq nth_list_update_neq bit_set_bit)
qed

lemma bitmap_clear:
  assumes "bitmap b f" "i mod 8 = 0" "\<forall>j \<ge> i. \<not> f j"
  shows "bitmap (b[i div 8 := 0]) f"
  unfolding bitmap_def
proof (intro allI impI)
  fix j assume j: "j < 8 * length (b[i div 8 := 0])"
  then have "bit (b ! (j div 8)) (j mod 8) = f j" "j div 8 < length b" using assms(1) by (auto simp: bitmap_def)
  moreover have "i \<le> j" if "j div 8 = i div 8"
    using that assms(2) div_mult_mod_eq [of i 8] div_mult_mod_eq [of j 8] by simp
  ultimately show "bit (b[i div 8 := 0] ! (j div 8)) (j mod 8) = f j"
    using assms(3) by (cases "j div 8 = i div 8") auto
qed

lemma next_bit_ok:
  assumes "bits_at i s" "i < 8 * length (bits s)" "bitmap (bits s) f" "\<forall>j \<ge> i. \<not> f j"
  shows "\<exists>b. next_bit s = Inr (s\<lparr>bit_index := int (i div 8), bits := b, bitmask := 2 ^ (i mod 8)\<rparr>) \<and>
    length b = length (bits s) \<and> bitmap b f"
proof (cases "i mod 8 = 0")
  case True
  then have "bitmask s = HIGHBIT" "bit_index s + 1 = int (i div 8)"
    using assms(1) bit_step(1,2) [of i] by (simp_all add: bits_at_def HIGHBIT_def)
  moreover have "i div 8 < length (bits s)" using assms(2) by auto
  ultimately show ?thesis
    using True bitmap_clear [OF assms(3) True assms(4)] by (intro exI [of _ "(bits s)[i div 8 := 0]"]) (simp add: next_bit_def arr_set_nat)
next
  case False
  then have m: "bitmask s = 2 ^ (i mod 8 - 1)" "bit_index s = int (i div 8)"
    using assms(1) bit_step(3,4) [of i] by (simp_all add: bits_at_def nat_diff_distrib)
  have "i mod 8 - 1 < 7" using False by linarith
  then have "bitmask s \<noteq> HIGHBIT" using m power_strict_increasing [of "i mod 8 - 1" 7 "2 :: nat"] by (simp add: HIGHBIT_def)
  moreover have "bitmask s * 2 = 2 ^ (i mod 8)" using m(1) False by (cases "i mod 8") simp_all
  ultimately show ?thesis using m(2) assms(3) by (intro exI [of _ "bits s"]) (simp add: next_bit_def)
qed

lemma fill_bit_ok:
  assumes "bits_at i s" "i < 8 * length (bits s)" "bitmap (bits s) f" "\<forall>j \<ge> i. \<not> f j"
  shows "\<exists>b. fill_bit isnull s = Inr (s\<lparr>bit_index := int (i div 8), bits := b, bitmask := 2 ^ (i mod 8),
      infomask := infomask s OR (if isnull then HEAP_HASNULL else 0)\<rparr>) \<and>
    length b = length (bits s) \<and> bitmap b (\<lambda>j. f j \<or> j = i \<and> \<not> isnull)"
proof -
  obtain b1 where b1: "next_bit s = Inr (s\<lparr>bit_index := int (i div 8), bits := b1, bitmask := 2 ^ (i mod 8)\<rparr>)"
    "length b1 = length (bits s)" "bitmap b1 f"
    using next_bit_ok [OF assms] by blast
  have i8: "i div 8 < length b1" using assms(2) b1(2) by auto
  show ?thesis
  proof (cases isnull)
    case True
    with b1 show ?thesis by (intro exI [of _ b1]) (simp add: fill_bit_def)
  next
    case False
    with b1 i8 assms(2) bitmap_set [of b1 f i] show ?thesis
      by (intro exI [of _ "b1[i div 8 := b1 ! (i div 8) OR of_nat (2 ^ (i mod 8))]"]) (simp add: fill_bit_def arr_get_nat)
  qed
qed

text \<open>
  One attribute: the bitmap gets its bit, the data area its bytes. \<open>filled_to\<close> says that the data area
  holds the bytes \<open>pre\<close> and zeros behind them.
\<close>

definition filled_to :: "byte list \<Rightarrow> nat \<Rightarrow> fill_state \<Rightarrow> bool" where
  "filled_to pre m s \<longleftrightarrow> area s = pre @ replicate m 0 \<and> data s = length pre"

lemma memcpy_zeros:
  assumes "length pre \<le> off" "off + length bs \<le> length pre + m"
  shows "memcpy (pre @ replicate m 0) off bs =
    Inr ((pre @ replicate (off - length pre) 0 @ bs) @ replicate (m - (off - length pre + length bs)) 0)"
  using assms by (auto simp: memcpy_def min_def)

lemma fill_data_ok:
  assumes "filled_to pre m s" "8 dvd start" "valid_val flat att v" "end_of flat att (Some v) (length pre) \<le> length pre + m"
  obtains fl where
    "fill_data flat start att v s =
     Inr (s\<lparr>area := (pre @ replicate (place_of flat att v (length pre) - length pre) 0 @ snd (stored flat att v)) @
                replicate (length pre + m - end_of flat att (Some v) (length pre)) 0,
            data := end_of flat att (Some v) (length pre), infomask := infomask s OR fl\<rparr>)"
    "attlen att \<le> 0 \<longrightarrow> fl AND HEAP_HASVARWIDTH \<noteq> 0" "fl AND HEAP_HASNULL = 0"
proof -
  obtain fl where fl: "fill_bytes flat att v = Inr (fst (stored flat att v), snd (stored flat att v), fl)"
    "attlen att \<le> 0 \<longrightarrow> fl AND HEAP_HASVARWIDTH \<noteq> 0" "fl AND HEAP_HASNULL = 0"
    using fill_bytes_stored [OF assms(3)] by blast
  have off: "(if fst (stored flat att v) then att_align_nominal (start + data s) (attalign att) - start else data s) =
      place_of flat att v (length pre)"
    using assms(1,2) by (simp add: place_of_def att_align_nominal_add filled_to_def)
  have d: "length pre + m - end_of flat att (Some v) (length pre) =
      m - (place_of flat att v (length pre) - length pre + length (snd (stored flat att v)))"
    using place_of_ge [of "length pre" flat att v] unfolding end_of_def option.case by linarith
  have mc: "memcpy (area s) (place_of flat att v (length pre)) (snd (stored flat att v)) =
      Inr ((pre @ replicate (place_of flat att v (length pre) - length pre) 0 @ snd (stored flat att v)) @
                replicate (length pre + m - end_of flat att (Some v) (length pre)) 0)"
    using memcpy_zeros [of pre "place_of flat att v (length pre)" "snd (stored flat att v)" m] assms(1,4)
    unfolding d by (simp add: filled_to_def end_of_def)
  show ?thesis
    by (rule that [OF _ fl(2,3)]) (simp add: fill_data_def fl(1) off mc Let_def end_of_def)
qed

text \<open>The state of the filling before the attributes \<open>i\<close>, \<open>i + 1\<close>, \<open>\<dots>\<close> with the values \<open>vs\<close>.\<close>

definition fill_inv :: "bool \<Rightarrow> nat \<Rightarrow> (nat \<Rightarrow> bool) \<Rightarrow> byte list \<Rightarrow> nat \<Rightarrow> fill_state \<Rightarrow> bool" where
  "fill_inv hasbits i f pre m s \<longleftrightarrow> filled_to pre m s \<and>
     (hasbits \<longrightarrow> bits_at i s \<and> bitmap (bits s) f \<and> (\<forall>j \<ge> i. \<not> f j))"

lemma or_and_nonzero: "(a OR b) AND c \<noteq> 0 \<longleftrightarrow> a AND c \<noteq> 0 \<or> b AND c \<noteq> 0" for a b c :: "'a::len word"
  by (auto simp: bit_eq_iff bit_simps)

lemma fill_val_ok:
  assumes "fill_inv hasbits i f pre m s" "8 dvd start" "\<forall>x. v = Some x \<longrightarrow> valid_val flat att x"
    "end_of flat att v (length pre) \<le> length pre + m" "hasbits \<longrightarrow> i < 8 * length (bits s)" "\<not> hasbits \<longrightarrow> v \<noteq> None"
  obtains s' where "fill_val flat start hasbits att v s = Inr s'" "length (bits s') = length (bits s)"
    "fill_inv hasbits (Suc i) (\<lambda>j. f j \<or> j = i \<and> v \<noteq> None)
       (pre @ piece flat att v (length pre))
       (length pre + m - end_of flat att v (length pre)) s'"
    "infomask s' AND HEAP_HASNULL \<noteq> 0 \<longleftrightarrow> infomask s AND HEAP_HASNULL \<noteq> 0 \<or> v = None"
    "infomask s AND HEAP_HASVARWIDTH \<noteq> 0 \<or> attlen att \<le> 0 \<and> v \<noteq> None \<longrightarrow> infomask s' AND HEAP_HASVARWIDTH \<noteq> 0"
proof -
  have hn: "HEAP_HASNULL AND HEAP_HASNULL \<noteq> 0" by (simp add: HEAP_HASNULL_def)
  have "\<exists>s1. (if hasbits then fill_bit (v = None) s else Inr s) = Inr s1 \<and> length (bits s1) = length (bits s) \<and>
      (hasbits \<longrightarrow> bits_at (Suc i) s1 \<and> bitmap (bits s1) (\<lambda>j. f j \<or> j = i \<and> v \<noteq> None)) \<and> filled_to pre m s1 \<and>
      infomask s1 = infomask s OR (if v = None then HEAP_HASNULL else 0)"
  proof (cases hasbits)
    case True
    with assms(1,5) fill_bit_ok [of i s f "v = None"] show ?thesis
      by (auto simp: fill_inv_def bits_at_def filled_to_def zmod_int [symmetric] zdiv_int [symmetric] nat_mod_distrib)
  next
    case False
    with assms(1,6) show ?thesis by (auto simp: fill_inv_def)
  qed
  then obtain s1 where s1: "(if hasbits then fill_bit (v = None) s else Inr s) = Inr s1" "length (bits s1) = length (bits s)"
    "hasbits \<longrightarrow> bits_at (Suc i) s1 \<and> bitmap (bits s1) (\<lambda>j. f j \<or> j = i \<and> v \<noteq> None)" "filled_to pre m s1"
    "infomask s1 = infomask s OR (if v = None then HEAP_HASNULL else 0)" by blast
  have u: "hasbits \<longrightarrow> (\<forall>j \<ge> Suc i. \<not> (f j \<or> j = i \<and> v \<noteq> None))" using assms(1) by (auto simp: fill_inv_def)
  show ?thesis
  proof (cases v)
    case None
    with assms(6) have h: "hasbits" by auto
    show ?thesis
      by (rule that [of s1]) (use s1 h None u hn in \<open>simp_all add: fill_val_def fill_inv_def end_of_def piece_def or_and_nonzero\<close>)
  next
    case (Some x)
    with assms(3,4) have v: "valid_val flat att x" "end_of flat att (Some x) (length pre) \<le> length pre + m" by simp_all
    have fv: "fill_val flat start hasbits att v s = fill_data flat start att x s1"
      unfolding fill_val_def s1(1) using Some by simp
    obtain fl where fl: "fill_val flat start hasbits att v s =
        Inr (s1\<lparr>area := (pre @ replicate (place_of flat att x (length pre) - length pre) 0 @ snd (stored flat att x)) @
                replicate (length pre + m - end_of flat att (Some x) (length pre)) 0,
            data := end_of flat att (Some x) (length pre), infomask := infomask s1 OR fl\<rparr>)"
      "attlen att \<le> 0 \<longrightarrow> fl AND HEAP_HASVARWIDTH \<noteq> 0" "fl AND HEAP_HASNULL = 0"
      unfolding fv by (rule fill_data_ok [OF s1(4) assms(2) v])
    have e: "end_of flat att (Some x) (length pre) = length pre + (place_of flat att x (length pre) - length pre + length (snd (stored flat att x)))"
      using place_of_ge [of "length pre" flat att x] unfolding end_of_def option.case by linarith
    show ?thesis
      by (rule that [OF fl(1)]) (use s1 Some u fl(2,3) e in \<open>simp_all add: fill_inv_def filled_to_def bits_at_def piece_def or_and_nonzero\<close>)
  qed
qed

lemma fill_loop_ok:
  assumes "fill_inv hasbits i f pre m s" "8 dvd start" "valid_row flat atts vs"
    "length (layout flat (length pre) atts vs) \<le> m" "hasbits \<longrightarrow> i + length vs \<le> 8 * length (bits s)" "\<not> hasbits \<longrightarrow> None \<notin> set vs"
  shows "\<exists>s'. fill_loop flat start hasbits atts vs s = Inr s' \<and> length (bits s') = length (bits s) \<and>
    fill_inv hasbits (i + length vs) (\<lambda>j. f j \<or> i \<le> j \<and> j < i + length vs \<and> vs ! (j - i) \<noteq> None)
      (pre @ layout flat (length pre) atts vs) (m - length (layout flat (length pre) atts vs)) s' \<and>
    (infomask s' AND HEAP_HASNULL \<noteq> 0 \<longleftrightarrow> infomask s AND HEAP_HASNULL \<noteq> 0 \<or> None \<in> set vs) \<and>
    (infomask s AND HEAP_HASVARWIDTH \<noteq> 0 \<or> (\<exists>(att, v) \<in> set (zip atts vs). attlen att \<le> 0 \<and> v \<noteq> None) \<longrightarrow>
       infomask s' AND HEAP_HASVARWIDTH \<noteq> 0)"
  using assms
proof (induction atts arbitrary: vs i f pre m s)
  case Nil
  have "(f j \<or> i \<le> j \<and> j < i \<and> R) = f j" for j R by auto
  with Nil show ?case by simp
next
  case (Cons att atts)
  from Cons.prems(3) obtain v vs' where vs: "vs = v # vs'" by (cases vs) auto
  let ?e = "end_of flat att v (length pre)"
  let ?pre = "pre @ piece flat att v (length pre)"
  have lp: "length ?pre = ?e" by (simp add: length_piece)
  have ll: "length pre + length (layout flat (length pre) (att # atts) vs) = ?e + length (layout flat ?e atts vs')"
    unfolding vs by (rule length_layout_Cons)
  have m: "?e \<le> length pre + m" "length (layout flat ?e atts vs') \<le> length pre + m - ?e" using ll Cons.prems(4) by linarith+
  have v: "\<forall>x. v = Some x \<longrightarrow> valid_val flat att x" "valid_row flat atts vs'" "hasbits \<longrightarrow> i < 8 * length (bits s)" "\<not> hasbits \<longrightarrow> v \<noteq> None"
    using Cons.prems(3,5,6) vs by (cases v; auto)+
  obtain s1 where s1: "fill_val flat start hasbits att v s = Inr s1" "length (bits s1) = length (bits s)"
    "fill_inv hasbits (Suc i) (\<lambda>j. f j \<or> j = i \<and> v \<noteq> None) ?pre (length pre + m - ?e) s1"
    "infomask s1 AND HEAP_HASNULL \<noteq> 0 \<longleftrightarrow> infomask s AND HEAP_HASNULL \<noteq> 0 \<or> v = None"
    "infomask s AND HEAP_HASVARWIDTH \<noteq> 0 \<or> attlen att \<le> 0 \<and> v \<noteq> None \<longrightarrow> infomask s1 AND HEAP_HASVARWIDTH \<noteq> 0"
    using fill_val_ok [OF Cons.prems(1,2) v(1) m(1) v(3,4)] .
  have "\<exists>s'. fill_loop flat start hasbits atts vs' s1 = Inr s' \<and> length (bits s') = length (bits s1) \<and>
    fill_inv hasbits (Suc i + length vs') (\<lambda>j. (f j \<or> j = i \<and> v \<noteq> None) \<or> Suc i \<le> j \<and> j < Suc i + length vs' \<and> vs' ! (j - Suc i) \<noteq> None)
      (?pre @ layout flat ?e atts vs') (length pre + m - ?e - length (layout flat ?e atts vs')) s' \<and>
    (infomask s' AND HEAP_HASNULL \<noteq> 0 \<longleftrightarrow> infomask s1 AND HEAP_HASNULL \<noteq> 0 \<or> None \<in> set vs') \<and>
    (infomask s1 AND HEAP_HASVARWIDTH \<noteq> 0 \<or> (\<exists>(att, v) \<in> set (zip atts vs'). attlen att \<le> 0 \<and> v \<noteq> None) \<longrightarrow>
       infomask s' AND HEAP_HASVARWIDTH \<noteq> 0)"
    using Cons.IH [OF s1(3) Cons.prems(2) v(2)] m(2) Cons.prems(5,6) s1(2) unfolding lp vs by auto
  then obtain s' where s': "fill_loop flat start hasbits atts vs' s1 = Inr s'" "length (bits s') = length (bits s1)"
    "fill_inv hasbits (Suc i + length vs') (\<lambda>j. (f j \<or> j = i \<and> v \<noteq> None) \<or> Suc i \<le> j \<and> j < Suc i + length vs' \<and> vs' ! (j - Suc i) \<noteq> None)
      (?pre @ layout flat ?e atts vs') (length pre + m - ?e - length (layout flat ?e atts vs')) s'"
    "infomask s' AND HEAP_HASNULL \<noteq> 0 \<longleftrightarrow> infomask s1 AND HEAP_HASNULL \<noteq> 0 \<or> None \<in> set vs'"
    "infomask s1 AND HEAP_HASVARWIDTH \<noteq> 0 \<or> (\<exists>(att, v) \<in> set (zip atts vs'). attlen att \<le> 0 \<and> v \<noteq> None) \<longrightarrow>
       infomask s' AND HEAP_HASVARWIDTH \<noteq> 0" by blast
  have f: "(\<lambda>j. (f j \<or> j = i \<and> v \<noteq> None) \<or> Suc i \<le> j \<and> j < Suc i + length vs' \<and> vs' ! (j - Suc i) \<noteq> None) =
      (\<lambda>j. f j \<or> i \<le> j \<and> j < i + length vs \<and> vs ! (j - i) \<noteq> None)"
    unfolding vs by (auto simp: fun_eq_iff nth_Cons' Suc_le_eq)
  have l: "?pre @ layout flat ?e atts vs' = pre @ layout flat (length pre) (att # atts) vs"
    "length pre + m - ?e - length (layout flat ?e atts vs') = m - length (layout flat (length pre) (att # atts) vs)"
    using ll by (simp_all add: vs)
  from s' s1 show ?case unfolding f l by (simp add: vs) blast
qed

section \<open>A formed tuple\<close>

text \<open>The tuple \<open>tup\<close> holds the values \<open>vs\<close> of the attributes \<open>atts\<close>.\<close>

definition stores :: "(byte list \<Rightarrow> byte list) \<Rightarrow> HeapTuple \<Rightarrow> Attr list \<Rightarrow> val option list \<Rightarrow> bool" where
  "stores flat tup atts vs \<longleftrightarrow> valid_row flat atts vs \<and> t_natts tup = length vs \<and> t_area tup = layout flat 0 atts vs \<and>
     (HeapTupleHasNulls tup \<longleftrightarrow> None \<in> set vs) \<and>
     (None \<in> set vs \<longrightarrow> (\<forall>j < length vs. att_isnull j (t_bits tup) = Inr (vs ! j = None))) \<and>
     ((\<exists>(att, v) \<in> set (zip atts vs). attlen att \<le> 0 \<and> v \<noteq> None) \<longrightarrow> HeapTupleHasVarWidth tup)"

lemma valid_row_length: "valid_row flat atts vs \<Longrightarrow> length vs = length atts"
  by (simp add: valid_row_def list_all2_lengthD)

lemma att_isnull_bitmap: "bitmap b f \<Longrightarrow> j < 8 * length b \<Longrightarrow> att_isnull j b = Inr (\<not> f j)"
  by (auto simp: bitmap_def att_isnull_def arr_get_nat and_exp_eq_0_iff_not_bit)

lemma heap_fill_tuple_ok:
  assumes "valid_row flat atts vs" "8 dvd start" "bitP = (if None \<in> set vs then Some (replicate (BITMAPLEN (length atts)) 0) else None)"
  obtains s where "heap_fill_tuple flat atts vs start (replicate (length (layout flat 0 atts vs)) 0) 0 bitP = Inr s"
    "area s = layout flat 0 atts vs" "infomask s AND HEAP_HASNULL \<noteq> 0 \<longleftrightarrow> None \<in> set vs"
    "None \<in> set vs \<longrightarrow> (\<forall>j < length vs. att_isnull j (bits s) = Inr (vs ! j = None))"
    "(\<exists>(att, v) \<in> set (zip atts vs). attlen att \<le> 0 \<and> v \<noteq> None) \<longrightarrow> infomask s AND HEAP_HASVARWIDTH \<noteq> 0"
proof -
  let ?n = "length (layout flat 0 atts vs)"
  let ?h = "bitP \<noteq> None"
  let ?s = "\<lparr>bits = (case bitP of None \<Rightarrow> [] | Some b \<Rightarrow> b), bit_index = - 1, bitmask = (if bitP \<noteq> None then HIGHBIT else 0),
        area = replicate ?n 0, data = 0, infomask = 0 AND NOT (HEAP_HASNULL OR HEAP_HASVARWIDTH OR HEAP_HASEXTERNAL)\<rparr>"
  have h: "?h \<longleftrightarrow> None \<in> set vs" using assms(3) by simp
  have b: "length vs \<le> 8 * BITMAPLEN (length atts)" using valid_row_length [OF assms(1)] by (simp add: BITMAPLEN_def)
  have lb: "?h \<longrightarrow> length (bits ?s) = BITMAPLEN (length atts)" using assms(3) by auto
  have inv: "fill_inv ?h 0 (\<lambda>j. False) [] ?n ?s"
    using assms(3) by (auto simp: fill_inv_def filled_to_def bits_at_def bitmap_def HIGHBIT_def)
  have "?h \<longrightarrow> 0 + length vs \<le> 8 * length (bits ?s)" "\<not> ?h \<longrightarrow> None \<notin> set vs" using b lb h by auto
  then obtain s where s: "fill_loop flat start ?h atts vs ?s = Inr s" "length (bits s) = length (bits ?s)"
    "fill_inv ?h (0 + length vs) (\<lambda>j. False \<or> 0 \<le> j \<and> j < 0 + length vs \<and> vs ! (j - 0) \<noteq> None) ([] @ layout flat 0 atts vs) (?n - ?n) s"
    "infomask s AND HEAP_HASNULL \<noteq> 0 \<longleftrightarrow> infomask ?s AND HEAP_HASNULL \<noteq> 0 \<or> None \<in> set vs"
    "infomask ?s AND HEAP_HASVARWIDTH \<noteq> 0 \<or> (\<exists>(att, v) \<in> set (zip atts vs). attlen att \<le> 0 \<and> v \<noteq> None) \<longrightarrow>
       infomask s AND HEAP_HASVARWIDTH \<noteq> 0"
    using fill_loop_ok [OF inv assms(2,1)] by auto
  have nulls: "att_isnull j (bits s) = Inr (vs ! j = None)" if "None \<in> set vs" "j < length vs" for j
    using att_isnull_bitmap [of "bits s" _ j] s(2,3) that h b lb by (auto simp: fill_inv_def)
  show ?thesis
    by (rule that [of s]) (use s nulls in \<open>auto simp: heap_fill_tuple_def fill_inv_def filled_to_def\<close>)
qed

lemma heap_form_tuple_stores:
  assumes "valid_row flat atts vs" "8 dvd block" "length atts \<le> MaxTupleAttributeNumber"
    "hoff = MAXALIGN (23 + (if None \<in> set vs then BITMAPLEN (length atts) else 0))"
    "HEAPTUPLESIZE + (hoff + length (layout flat 0 atts vs)) \<le> MaxAllocSize"
  shows "\<exists>tup. heap_form_tuple flat block atts vs = Inr tup \<and> stores flat tup atts vs \<and> t_hoff tup = hoff \<and>
    t_len tup = hoff + length (t_area tup) \<and> t_addr tup = block + HEAPTUPLESIZE"
proof -
  have "8 dvd block + HEAPTUPLESIZE + hoff"
    using assms(2,4) by (simp add: HEAPTUPLESIZE_def MAXALIGN_def align_up_def)
  then obtain s where s: "heap_fill_tuple flat atts vs (block + HEAPTUPLESIZE + hoff) (replicate (length (layout flat 0 atts vs)) 0) 0
      (if None \<in> set vs then Some (replicate (BITMAPLEN (length atts)) 0) else None) = Inr s"
    "area s = layout flat 0 atts vs" "infomask s AND HEAP_HASNULL \<noteq> 0 \<longleftrightarrow> None \<in> set vs"
    "None \<in> set vs \<longrightarrow> (\<forall>j < length vs. att_isnull j (bits s) = Inr (vs ! j = None))"
    "(\<exists>(att, v) \<in> set (zip atts vs). attlen att \<le> 0 \<and> v \<noteq> None) \<longrightarrow> infomask s AND HEAP_HASVARWIDTH \<noteq> 0"
    using heap_fill_tuple_ok [OF assms(1) _ refl] by blast
  have "heap_compute_data_size flat atts vs 0 = Inr (length (layout flat 0 atts vs))"
    using heap_compute_data_size_layout [OF assms(1), of 0] by simp
  with s assms(3,5) have "heap_form_tuple flat block atts vs =
      Inr \<lparr>t_len = hoff + length (layout flat 0 atts vs), t_natts = length atts, t_infomask = infomask s, t_bits = bits s, t_hoff = hoff,
           t_addr = block + HEAPTUPLESIZE, t_area = area s\<rparr>"
    unfolding heap_form_tuple_def Let_def assms(4) [symmetric] by simp
  with s assms(1) valid_row_length [OF assms(1)] show ?thesis
    by (auto simp: stores_def HeapTupleHasNulls_def HeapTupleHasVarWidth_def)
qed

end
