(* ===== verification/HeapDeform.thy ===== *)
theory HeapDeform
  imports HeapTuple
begin

unbundle bit_operations_syntax

text \<open>
  Reading a heap tuple: \<open>slot_deform_heap_tuple\<close> and \<open>tts_heap_getsomeattrs\<close> of
  \<open>src/backend/executor/execTuples.c\<close> and \<open>heap_deform_tuple\<close> and \<open>getmissingattr\<close> of
  \<open>src/backend/access/common/heaptuple.c\<close>, with the offsets they cache in the descriptor. Reading gives
  back what \<open>heap_form_tuple\<close> stored, whatever is cached, all at once or attribute by attribute, and a slot
  with a heap tuple behaves as the slots of \<open>ExprData\<close>.
\<close>

section \<open>Fetching one attribute\<close>

text \<open>\<open>tp\<close> is the address of the data area; a datum by reference is an address in it.\<close>

definition fetch_att :: "nat \<Rightarrow> byte list \<Rightarrow> nat \<Rightarrow> bool \<Rightarrow> int \<Rightarrow> Datum eres" where
  "fetch_att tp dat off byval len =
     (if byval then
        if len = 8 then bindE (read_bytes dat off 8) (\<lambda>bs. Inr (le_word bs))
        else if len = 4 then bindE (read_bytes dat off 4) (\<lambda>bs. Inr (scast (le_word bs :: 32 word)))
        else if len = 2 then bindE (read_bytes dat off 2) (\<lambda>bs. Inr (scast (le_word bs :: 16 word)))
        else bindE (read_bytes dat off 1) (\<lambda>bs. Inr (scast (le_word bs :: 8 word)))
      else Inr (of_nat (tp + off)))"

definition att_align_pointer :: "nat \<Rightarrow> typalign \<Rightarrow> int \<Rightarrow> byte list \<Rightarrow> nat eres" where
  "att_align_pointer cur_offset al len attptr =
     (if len = - 1 then
        bindE (va_header attptr) (\<lambda>b. Inr (if b \<noteq> 0 then cur_offset else att_align_nominal cur_offset al))
      else Inr (att_align_nominal cur_offset al))"

definition getmissingattr :: "Attr \<Rightarrow> NullableDatum" where
  "getmissingattr att =
     (if atthasmissing att then
        let (am_value, am_present) = attmissing att
        in if am_present then (am_value, False) else (0, True)
      else (0, True))"

definition t_data :: "HeapTuple \<Rightarrow> nat" where
  "t_data tup = t_addr tup + t_hoff tup"

text \<open>
  One round of the loop that \<open>slot_deform_heap_tuple\<close> and \<open>heap_deform_tuple\<close> share: where the attribute
  starts, with the cached offset and whether offsets can no longer be cached; then the whole round.
\<close>

definition deform_offset :: "byte list \<Rightarrow> Attr \<Rightarrow> nat \<Rightarrow> bool \<Rightarrow> (Attr \<times> nat \<times> bool) eres" where
  "deform_offset dat thisatt off slow =
     (if \<not> slow \<and> attcacheoff thisatt \<ge> 0 then Inr (thisatt, nat (attcacheoff thisatt), slow)
      else if attlen thisatt = - 1 then
        if \<not> slow \<and> off = att_align_nominal off (attalign thisatt) then Inr (thisatt\<lparr>attcacheoff := int off\<rparr>, off, slow)
        else bindE (att_align_pointer off (attalign thisatt) (- 1) (drop off dat)) (\<lambda>o1. Inr (thisatt, o1, True))
      else
        let o1 = att_align_nominal off (attalign thisatt)
        in Inr (if slow then thisatt else thisatt\<lparr>attcacheoff := int o1\<rparr>, o1, slow))"

definition deform_att :: "HeapTuple \<Rightarrow> nat \<Rightarrow> Attr \<Rightarrow> nat \<Rightarrow> bool \<Rightarrow> (Attr \<times> NullableDatum \<times> nat \<times> bool) eres" where
  "deform_att tup attnum thisatt off slow =
     bindE (if HeapTupleHasNulls tup then att_isnull attnum (t_bits tup) else Inr False) (\<lambda>null.
       if null then Inr (thisatt, (0, True), off, True)
       else
         bindE (deform_offset (t_area tup) thisatt off slow) (\<lambda>(att1, o1, slow1).
         bindE (fetch_att (t_data tup) (t_area tup) o1 (attbyval thisatt) (attlen thisatt)) (\<lambda>d.
         bindE (att_addlength_pointer o1 (attlen thisatt) (drop o1 (t_area tup))) (\<lambda>o2.
           Inr (att1, (d, False), o2, slow1 \<or> attlen thisatt \<le> 0)))))"

fun deform_loop :: "HeapTuple \<Rightarrow> nat \<Rightarrow> Attr list \<Rightarrow> nat \<Rightarrow> bool \<Rightarrow> (Attr list \<times> NullableDatum list \<times> nat \<times> bool) eres" where
  "deform_loop tup attnum [] off slow = Inr ([], [], off, slow)"
| "deform_loop tup attnum (att # atts) off slow =
     bindE (deform_att tup attnum att off slow) (\<lambda>(att1, d, off1, slow1).
     bindE (deform_loop tup (Suc attnum) atts off1 slow1) (\<lambda>(atts1, ds, off2, slow2).
       Inr (att1 # atts1, d # ds, off2, slow2)))"

text \<open>\<open>heap_deform_tuple\<close>: the values and the descriptor with its cached offsets.\<close>

definition heap_deform_tuple :: "HeapTuple \<Rightarrow> Attr list \<Rightarrow> (NullableDatum list \<times> Attr list) eres" where
  "heap_deform_tuple tup tupleDesc =
     (let natts = min (t_natts tup) (length tupleDesc)
      in bindE (deform_loop tup 0 (take natts tupleDesc) 0 False) (\<lambda>(atts, ds, off, slow).
           Inr (ds @ map getmissingattr (drop natts tupleDesc), atts @ drop natts tupleDesc)))"

section \<open>What deforming gives\<close>

definition datum_of :: "(byte list \<Rightarrow> byte list) \<Rightarrow> nat \<Rightarrow> nat \<Rightarrow> Attr \<Rightarrow> val option \<Rightarrow> NullableDatum" where
  "datum_of flat tp off att vo =
     (case vo of
        None \<Rightarrow> (0, True)
      | Some (ByVal d) \<Rightarrow> (d, False)
      | Some (ByRef p) \<Rightarrow> (of_nat (tp + place_of flat att (ByRef p) off), False))"

fun datums :: "(byte list \<Rightarrow> byte list) \<Rightarrow> nat \<Rightarrow> nat \<Rightarrow> Attr list \<Rightarrow> val option list \<Rightarrow> NullableDatum list" where
  "datums flat tp off (att # atts) (v # vs) = datum_of flat tp off att v # datums flat tp (end_of flat att v off) atts vs"
| "datums flat tp off _ _ = []"

text \<open>
  The offset behind the attributes read so far if all of them have a fixed length and their offsets
  are cached, and when a cached offset is right: the offsets before are cached too, and it holds in
  every tuple without nulls before.
\<close>

definition next_fixed :: "nat option \<Rightarrow> Attr \<Rightarrow> nat option" where
  "next_fixed fo att = (case fo of None \<Rightarrow> None | Some off \<Rightarrow>
     if 0 < attlen att \<and> 0 \<le> attcacheoff att then Some (att_align_nominal off (attalign att) + nat (attlen att)) else None)"

definition cached_ok :: "nat option \<Rightarrow> Attr \<Rightarrow> bool" where
  "cached_ok fo att \<longleftrightarrow> (0 \<le> attcacheoff att \<longrightarrow>
     (case fo of None \<Rightarrow> False | Some off \<Rightarrow>
        attcacheoff att = int (att_align_nominal off (attalign att)) \<and>
        (attlen att = - 1 \<longrightarrow> att_align_nominal off (attalign att) = off)))"

fun cache_ok :: "nat option \<Rightarrow> Attr list \<Rightarrow> bool" where
  "cache_ok fo [] = True"
| "cache_ok fo (att # atts) = (cached_ok fo att \<and> cache_ok (next_fixed fo att) atts)"

text \<open>Descriptors that differ in the cached offsets only.\<close>

definition same_att :: "Attr \<Rightarrow> Attr \<Rightarrow> bool" where
  "same_att att att' \<longleftrightarrow> att\<lparr>attcacheoff := 0\<rparr> = att'\<lparr>attcacheoff := 0\<rparr>"

lemma same_att_refl [simp]: "same_att att att"
  by (simp add: same_att_def)

lemma same_att_cache [simp]: "same_att att (att\<lparr>attcacheoff := n\<rparr>)"
  by (simp add: same_att_def)

lemma same_att_fields:
  assumes "same_att att att'"
  shows "attlen att' = attlen att" "attbyval att' = attbyval att" "attalign att' = attalign att" "attstorage att' = attstorage att"
    "atthasmissing att' = atthasmissing att" "attmissing att' = attmissing att"
  using assms by (cases att; cases att'; simp add: same_att_def)+

lemma stored_varlena:
  assumes "valid_val flat att v" "attlen att = - 1"
  shows "wf_varlena (snd (stored flat att v))" "\<not> fst (stored flat att v) \<longrightarrow> VARATT_IS_1B (hd (snd (stored flat att v)))"
proof -
  obtain p where p: "v = ByRef p" "wf_varlena p" "is_expanded p \<longrightarrow> wf_varlena (flat p)"
    using assms by (cases v) (auto simp: valid_val_def canonical_def split: if_splits)
  with assms(2) make_short_wf [OF p(2)]
  show "wf_varlena (snd (stored flat att v))" "\<not> fst (stored flat att v) \<longrightarrow> VARATT_IS_1B (hd (snd (stored flat att v)))"
    by (auto simp: stored_def)
qed

lemma stored_fixed:
  assumes "valid_val flat att v" "0 < attlen att"
  shows "fst (stored flat att v)" "length (snd (stored flat att v)) = nat (attlen att)"
  using assms by (auto simp: stored_def valid_val_def split: val.splits)

lemma stored_cstring:
  assumes "valid_val flat att v" "attlen att \<noteq> - 1" "\<not> 0 < attlen att"
  shows "cstring (snd (stored flat att v))" "attalign att = TYPALIGN_CHAR" "attlen att = - 2"
  using assms by (auto simp: stored_def valid_val_def canonical_def split: val.splits if_splits)

lemma place_of_nominal:
  assumes "valid_val flat att v" "attlen att = - 1 \<longrightarrow> att_align_nominal off (attalign att) = off"
  shows "place_of flat att v off = att_align_nominal off (attalign att)"
proof (cases "0 < attlen att")
  case True
  then show ?thesis using stored_fixed(1) [OF assms(1)] by (simp add: place_of_def)
next
  case False
  then show ?thesis using assms stored_cstring(2) [OF assms(1)] by (cases "attlen att = - 1") (auto simp: place_of_def att_align_nominal_def)
qed

lemma align_pointer_place:
  assumes "valid_val flat att v" "attlen att = - 1" "drop off dat = piece flat att (Some v) off @ rest"
  shows "att_align_pointer off (attalign att) (- 1) (drop off dat) = Inr (place_of flat att v off)"
proof (cases "place_of flat att v off = off")
  case True
  have ne: "snd (stored flat att v) \<noteq> []" using stored_varlena(1) [OF assms(1,2)] wf_varlena_nonempty by blast
  have d: "drop off dat = snd (stored flat att v) @ rest" using assms(3) True by (simp add: piece_def)
  have "va_header (drop off dat) = Inr (hd (snd (stored flat att v)))" using ne unfolding d by (simp add: va_header_Inr)
  then show ?thesis using True stored_varlena(2) [OF assms(1,2)] VARATT_IS_1B_nonzero
    by (auto simp: att_align_pointer_def place_of_def split: if_splits)
next
  case False
  then have a: "fst (stored flat att v)" "off < att_align_nominal off (attalign att)"
    by (auto simp: place_of_def le_neq_implies_less split: if_splits)
  then obtain k where "place_of flat att v off - off = Suc k" by (metis Suc_diff_Suc place_of_def)
  then have "va_header (drop off dat) = Inr 0" unfolding assms(3) by (simp add: piece_def va_header_def)
  with a(1) show ?thesis by (simp add: att_align_pointer_def place_of_def)
qed

lemma deform_offset_ok:
  assumes "valid_val flat att v" "drop off dat = piece flat att (Some v) off @ rest" "\<not> slow \<longrightarrow> fo = Some off" "cached_ok fo att"
  obtains att1 slow1 where "deform_offset dat att off slow = Inr (att1, place_of flat att v off, slow1)"
    "same_att att att1" "cached_ok fo att1" "\<not> slow1 \<longrightarrow> \<not> slow \<and> 0 \<le> attcacheoff att1" "att1 = att \<or> attcacheoff att < 0"
proof (cases "\<not> slow \<and> attcacheoff att \<ge> 0")
  case True
  with assms(3,4) have "fo = Some off" "attcacheoff att = int (att_align_nominal off (attalign att))"
    "attlen att = - 1 \<longrightarrow> att_align_nominal off (attalign att) = off" by (auto simp: cached_ok_def)
  with True assms(4) that [of att slow] place_of_nominal [OF assms(1)] show ?thesis by (simp add: deform_offset_def)
next
  case no: False
  show ?thesis
  proof (cases "attlen att = - 1")
    case True
    show ?thesis
    proof (cases "\<not> slow \<and> off = att_align_nominal off (attalign att)")
      case c: True
      with no True assms(3) that [of "att\<lparr>attcacheoff := int off\<rparr>" slow] place_of_nominal [OF assms(1), of off] show ?thesis
        by (simp add: deform_offset_def cached_ok_def)
    next
      case False
      with no True assms(4) align_pointer_place [OF assms(1) True assms(2)] that [of att True] show ?thesis
        by (auto simp: deform_offset_def)
    qed
  next
    case False
    with place_of_nominal [OF assms(1), of off] no assms(3,4) that [of "if slow then att else att\<lparr>attcacheoff := int (att_align_nominal off (attalign att))\<rparr>" slow]
    show ?thesis by (cases slow) (simp_all add: deform_offset_def cached_ok_def Let_def)
  qed
qed

lemma canonical_read:
  assumes "canonical len d"
  shows "fetch_att tp (pre @ le_bytes (nat len) d @ rest) (length pre) True len = Inr d"
proof -
  have r: "read_bytes (pre @ le_bytes n d @ rest) (length pre) n = Inr (le_bytes n d)" for n by (simp add: read_bytes_def)
  show ?thesis using assms r [of 8] r [of 4] r [of 2] r [of 1]
    by (auto simp: canonical_def fetch_att_def le_word_bytes take_bit_word_eq_self split: if_splits)
qed

lemma addlength_stored:
  assumes "valid_val flat att v"
  shows "att_addlength_pointer off (attlen att) (snd (stored flat att v) @ rest) = Inr (off + length (snd (stored flat att v)))"
proof -
  consider "0 < attlen att" | "attlen att = - 1" | "\<not> 0 < attlen att" "attlen att \<noteq> - 1" by blast
  then show ?thesis
  proof cases
    case 1
    then show ?thesis using stored_fixed(2) [OF assms] by (simp add: att_addlength_pointer_def)
  next
    case 2
    then show ?thesis using stored_varlena(1) [OF assms] VARSIZE_ANY_append [of "snd (stored flat att v)" _ rest]
      by (simp add: att_addlength_pointer_def wf_varlena_def)
  next
    case 3
    then show ?thesis using stored_cstring [OF assms 3(2,1)] cstring_strlen [of "snd (stored flat att v)" rest] cstring_length
      by (simp add: att_addlength_pointer_def)
  qed
qed

lemma fetch_stored:
  assumes "valid_val flat att v" "dat = pre @ snd (stored flat att v) @ rest" "length pre = place_of flat att v off"
  shows "fetch_att tp dat (place_of flat att v off) (attbyval att) (attlen att) = Inr (fst (datum_of flat tp off att (Some v)))"
proof (cases v)
  case (ByVal d)
  with assms canonical_read [of "attlen att" d tp pre rest] show ?thesis by (simp add: valid_val_def stored_def datum_of_def)
next
  case (ByRef p)
  with assms(1) show ?thesis by (simp add: valid_val_def fetch_att_def datum_of_def)
qed

lemma snd_datum_of: "snd (datum_of flat tp off att vo) = (vo = None)"
  by (auto simp: datum_of_def split: option.splits val.splits)

lemma deform_att_ok:
  assumes "\<forall>x. vo = Some x \<longrightarrow> valid_val flat att x" "off \<le> length (t_area tup)" "drop off (t_area tup) = piece flat att vo off @ rest"
    "\<not> slow \<longrightarrow> fo = Some off" "cached_ok fo att"
    "(if HeapTupleHasNulls tup then att_isnull i (t_bits tup) else Inr False) = Inr (vo = None)"
  obtains att1 slow1 where
    "deform_att tup i att off slow = Inr (att1, datum_of flat (t_data tup) off att vo, end_of flat att vo off, slow1)"
    "same_att att att1" "cached_ok fo att1" "\<not> slow1 \<longrightarrow> next_fixed fo att1 = Some (end_of flat att vo off)"
    "att1 = att \<or> attcacheoff att < 0" "drop (end_of flat att vo off) (t_area tup) = rest" "end_of flat att vo off \<le> length (t_area tup)"
proof -
  have e: "end_of flat att vo off = off + length (piece flat att vo off)" by (simp add: length_piece)
  have dr: "drop (end_of flat att vo off) (t_area tup) = rest" unfolding e using assms(3) by (metis drop_drop add.commute append_eq_conv_conj)
  have le: "end_of flat att vo off \<le> length (t_area tup)"
    using arg_cong [OF assms(3), of length] assms(2) unfolding e by simp
  show ?thesis
  proof (cases vo)
    case None
    with assms(5,6) dr le that [of att True] show ?thesis by (simp add: deform_att_def end_of_def datum_of_def)
  next
    case (Some v)
    with assms(1) have v: "valid_val flat att v" by simp
    let ?p = "place_of flat att v off"
    obtain att1 slow1 where o: "deform_offset (t_area tup) att off slow = Inr (att1, ?p, slow1)"
      "same_att att att1" "cached_ok fo att1" "\<not> slow1 \<longrightarrow> \<not> slow \<and> 0 \<le> attcacheoff att1" "att1 = att \<or> attcacheoff att < 0"
      using deform_offset_ok [OF v assms(3) [unfolded Some] assms(4,5)] .
    have da: "t_area tup = (take off (t_area tup) @ replicate (?p - off) 0) @ snd (stored flat att v) @ rest"
      using assms(3) Some append_take_drop_id [of off "t_area tup"] by (simp add: piece_def)
    have lp: "length (take off (t_area tup) @ replicate (?p - off) 0) = ?p" using assms(2) by (simp add: min_def)
    have dp: "drop ?p (t_area tup) = snd (stored flat att v) @ rest" using da lp by (metis append_eq_conv_conj)
    have "deform_att tup i att off slow =
        Inr (att1, (fst (datum_of flat (t_data tup) off att (Some v)), False), ?p + length (snd (stored flat att v)), slow1 \<or> attlen att \<le> 0)"
      using assms(6) Some o(1) fetch_stored [OF v da lp] addlength_stored [OF v] by (simp add: deform_att_def dp)
    moreover have "(fst (datum_of flat (t_data tup) off att (Some v)), False) = datum_of flat (t_data tup) off att vo"
      using snd_datum_of [of flat "t_data tup" off att vo] Some by (simp add: prod_eq_iff)
    moreover have "?p + length (snd (stored flat att v)) = end_of flat att vo off" using Some by (simp add: end_of_def)
    moreover have "\<not> (slow1 \<or> attlen att \<le> 0) \<longrightarrow> next_fixed fo att1 = Some (end_of flat att vo off)"
      using o(4) assms(4) stored_fixed [OF v] Some by (auto simp: next_fixed_def end_of_def place_of_def same_att_fields [OF o(2)])
    ultimately show ?thesis using that [OF _ o(2,3) _ o(5) dr le] by simp
  qed
qed

lemma cache_ok_None: "cache_ok None atts \<Longrightarrow> cache_ok fo atts"
  by (induction atts arbitrary: fo) (auto simp: cached_ok_def next_fixed_def)

lemma next_fixed_uncached: "attcacheoff att < 0 \<Longrightarrow> next_fixed fo att = None"
  by (simp add: next_fixed_def split: option.splits)

lemma cache_ok_next:
  "cache_ok (next_fixed fo att) atts \<Longrightarrow> att1 = att \<or> attcacheoff att < 0 \<Longrightarrow> cache_ok (next_fixed fo att1) atts"
  using cache_ok_None next_fixed_uncached by metis

definition fixed_after :: "nat option \<Rightarrow> Attr list \<Rightarrow> nat option" where
  "fixed_after fo atts = foldl next_fixed fo atts"

lemma fixed_after_None [simp]: "fixed_after None atts = None"
  by (induction atts) (simp_all add: fixed_after_def next_fixed_def)

text \<open>The result of the null test the loop makes for the attribute \<open>i\<close>.\<close>

definition null_test :: "HeapTuple \<Rightarrow> nat \<Rightarrow> bool eres" where
  "null_test tup i = (if HeapTupleHasNulls tup then att_isnull i (t_bits tup) else Inr False)"

lemma deform_loop_ok:
  assumes "valid_row flat atts vs" "off \<le> length (t_area tup)" "drop off (t_area tup) = layout flat off atts vs @ rest"
    "\<not> slow \<longrightarrow> fo = Some off" "cache_ok fo atts" "\<forall>j < length vs. null_test tup (i + j) = Inr (vs ! j = None)"
  shows "\<exists>atts1 slow1. deform_loop tup i atts off slow =
      Inr (atts1, datums flat (t_data tup) off atts vs, off + length (layout flat off atts vs), slow1) \<and>
    list_all2 same_att atts atts1 \<and> cache_ok fo atts1 \<and>
    (\<not> slow1 \<longrightarrow> fixed_after fo atts1 = Some (off + length (layout flat off atts vs))) \<and>
    (fixed_after fo atts1 = fixed_after fo atts \<or> fixed_after fo atts = None)"
  using assms
proof (induction atts arbitrary: vs off slow fo i)
  case Nil
  then show ?case by (simp add: fixed_after_def)
next
  case (Cons att atts)
  from Cons.prems(1) obtain v vs' where vs: "vs = v # vs'" by (cases vs) auto
  let ?e = "end_of flat att v off"
  have v: "\<forall>x. v = Some x \<longrightarrow> valid_val flat att x" "valid_row flat atts vs'" using Cons.prems(1) vs by simp_all
  have d: "drop off (t_area tup) = piece flat att v off @ (layout flat ?e atts vs' @ rest)" using Cons.prems(3) vs by simp
  have n: "(if HeapTupleHasNulls tup then att_isnull i (t_bits tup) else Inr False) = Inr (v = None)"
    using spec [OF Cons.prems(6), of 0] vs by (simp add: null_test_def)
  have c: "cached_ok fo att" "cache_ok (next_fixed fo att) atts" using Cons.prems(5) by simp_all
  obtain att1 slow1 where a: "deform_att tup i att off slow = Inr (att1, datum_of flat (t_data tup) off att v, ?e, slow1)"
    "same_att att att1" "cached_ok fo att1" "\<not> slow1 \<longrightarrow> next_fixed fo att1 = Some ?e" "att1 = att \<or> attcacheoff att < 0"
    "drop ?e (t_area tup) = layout flat ?e atts vs' @ rest" "?e \<le> length (t_area tup)"
    using deform_att_ok [OF v(1) Cons.prems(2) d Cons.prems(4) c(1) n] .
  have "null_test tup (Suc i + j) = Inr (vs' ! j = None)" if "j < length vs'" for j
    using spec [OF Cons.prems(6), of "Suc j"] that vs by simp
  then obtain atts1 slow2 where l: "deform_loop tup (Suc i) atts ?e slow1 =
      Inr (atts1, datums flat (t_data tup) ?e atts vs', ?e + length (layout flat ?e atts vs'), slow2)"
    "list_all2 same_att atts atts1" "cache_ok (next_fixed fo att1) atts1"
    "\<not> slow2 \<longrightarrow> fixed_after (next_fixed fo att1) atts1 = Some (?e + length (layout flat ?e atts vs'))"
    "fixed_after (next_fixed fo att1) atts1 = fixed_after (next_fixed fo att1) atts \<or> fixed_after (next_fixed fo att1) atts = None"
    using Cons.IH [OF v(2) a(7,6,4) cache_ok_next [OF c(2) a(5)]] by blast
  have f: "fixed_after (next_fixed fo att1) atts1 = fixed_after (next_fixed fo att) atts \<or> fixed_after (next_fixed fo att) atts = None"
    using l(5) a(5) fixed_after_None [of atts] next_fixed_uncached [of att fo] by metis
  have e: "off + length (layout flat off (att # atts) vs) = ?e + length (layout flat ?e atts vs')"
    unfolding vs by (rule length_layout_Cons)
  show ?case
    by (rule exI [of _ "att1 # atts1"], rule exI [of _ slow2])
      (use a l e f in \<open>simp add: vs fixed_after_def\<close>)
qed

lemma storesD:
  assumes "stores flat tup atts vs"
  shows "valid_row flat atts vs" "t_natts tup = length vs" "t_area tup = layout flat 0 atts vs" "HeapTupleHasNulls tup \<longleftrightarrow> None \<in> set vs"
    "None \<in> set vs \<Longrightarrow> j < length vs \<Longrightarrow> att_isnull j (t_bits tup) = Inr (vs ! j = None)"
  using assms by (simp_all only: stores_def)

lemma stores_null_test: "stores flat tup atts vs \<Longrightarrow> \<forall>j < length vs. null_test tup (0 + j) = Inr (vs ! j = None)"
proof (intro allI impI)
  fix j assume s: "stores flat tup atts vs" and j: "j < length vs"
  have "vs ! j \<noteq> None" if "None \<notin> set vs" using nth_mem [OF j] that by metis
  with storesD(4,5) [OF s] j show "null_test tup (0 + j) = Inr (vs ! j = None)" by (auto simp: null_test_def)
qed

text \<open>Deforming a tuple that stores \<open>vs\<close>, with a descriptor that may have columns the tuple does not have.\<close>

lemma heap_deform_tuple_ok:
  assumes "stores flat tup (take (t_natts tup) desc) vs" "cache_ok (Some 0) (take (t_natts tup) desc)" "t_natts tup \<le> length desc"
  shows "\<exists>atts1. heap_deform_tuple tup desc =
      Inr (datums flat (t_data tup) 0 (take (t_natts tup) desc) vs @ map getmissingattr (drop (t_natts tup) desc),
           atts1 @ drop (t_natts tup) desc) \<and>
    list_all2 same_att (take (t_natts tup) desc) atts1 \<and> cache_ok (Some 0) atts1"
proof -
  define atts where "atts = take (t_natts tup) desc"
  have m: "take (min (t_natts tup) (length desc)) desc = atts" "min (t_natts tup) (length desc) = t_natts tup"
    using assms(3) by (simp_all add: atts_def)
  have "drop 0 (t_area tup) = layout flat 0 atts vs @ []" using storesD(3) [OF assms(1)] by (simp add: atts_def)
  then obtain atts1 slow1 where "deform_loop tup 0 atts 0 False =
      Inr (atts1, datums flat (t_data tup) 0 atts vs, 0 + length (layout flat 0 atts vs), slow1)"
    "list_all2 same_att atts atts1" "cache_ok (Some 0) atts1"
    using deform_loop_ok [OF storesD(1) [OF assms(1)], folded atts_def, of 0 tup "[]" False "Some 0" 0] assms(2) stores_null_test [OF assms(1)]
    by (auto simp: atts_def)
  then show ?thesis by (simp add: heap_deform_tuple_def Let_def m atts_def [symmetric])
qed

section \<open>Slots with a heap tuple\<close>

text \<open>
  A \<open>HeapTupleTableSlot\<close> has the fields of \<open>TupleTableSlot\<close> (\<open>base\<close>), its descriptor, the tuple and the
  state that deforming saves. The field \<open>tts_tuple\<close> of \<open>base\<close> is not used by the code; it says which
  attributes the tuple has.
\<close>

record HeapTupleTableSlot =
  base :: TupleTableSlot
  hs_desc :: "Attr list"
  hs_tuple :: HeapTuple
  hs_off :: nat
  hs_slow :: bool

definition slot_deform_heap_tuple :: "HeapTupleTableSlot \<Rightarrow> nat \<Rightarrow> HeapTupleTableSlot eres" where
  "slot_deform_heap_tuple slot natts =
     (let n = min (t_natts (hs_tuple slot)) natts; attnum = tts_nvalid (base slot);
          off = (if attnum = 0 then 0 else hs_off slot); slow = (if attnum = 0 then False else hs_slow slot)
      in if length (hs_desc slot) < n then Inl (Fault OutOfBounds)
         else bindE (deform_loop (hs_tuple slot) attnum (take (n - attnum) (drop attnum (hs_desc slot))) off slow) (\<lambda>(atts, ds, off1, slow1).
           Inr (slot\<lparr>base := (base slot)\<lparr>tts_values := (\<lambda>i. if attnum \<le> i \<and> i < n then ds ! (i - attnum) else tts_values (base slot) i),
                       tts_nvalid := max attnum n\<rparr>,
                     hs_desc := take attnum (hs_desc slot) @ atts @ drop (max attnum n) (hs_desc slot), hs_off := off1, hs_slow := slow1\<rparr>)))"

definition tts_heap_getsomeattrs :: "HeapTupleTableSlot \<Rightarrow> nat \<Rightarrow> HeapTupleTableSlot eres" where
  "tts_heap_getsomeattrs slot natts = slot_deform_heap_tuple slot natts"

text \<open>\<open>slot_getsomeattrs_int\<close> with the routine \<open>tts_ops->getsomeattrs\<close> of the slot.\<close>

definition getsomeattrs_by ::
  "('s \<Rightarrow> nat \<Rightarrow> 's eres) \<Rightarrow> ('s \<Rightarrow> TupleTableSlot) \<Rightarrow> (TupleTableSlot \<Rightarrow> 's \<Rightarrow> 's) \<Rightarrow> 's \<Rightarrow> nat \<Rightarrow> 's eres" where
  "getsomeattrs_by getsome get_base set_base slot attnum =
     (if attnum \<le> tts_nvalid (get_base slot) then Inr slot
      else if length (tts_attrs (get_base slot)) < attnum then Inl (ERROR ERRCODE_INTERNAL_ERROR)
      else
        bindE (getsome slot attnum) (\<lambda>slot1.
          let b = get_base slot1
          in if tts_nvalid b < attnum
             then Inr (set_base ((slot_getmissingattrs b (tts_nvalid b) attnum)\<lparr>tts_nvalid := attnum\<rparr>) slot1)
             else Inr slot1))"

lemma getsomeattrs_fields:
  assumes "getsomeattrs b n = Inr b1"
  shows "tts_attrs b1 = tts_attrs b" "tts_tuple b1 = tts_tuple b" "tts_missing b1 = tts_missing b"
    "tts_nvalid b1 < n \<Longrightarrow> length (tts_tuple b1) \<le> tts_nvalid b1"
  using assms by (auto simp: getsomeattrs_def Let_def split: if_splits)

text \<open>What \<open>slot_getsomeattrs\<close> does: the columns not yet valid get the values of the tuple or the missing values.\<close>

definition column :: "TupleTableSlot \<Rightarrow> nat \<Rightarrow> NullableDatum" where
  "column b i = (if i < length (tts_tuple b) then tts_tuple b ! i
     else case tts_missing b of None \<Rightarrow> (0, True) | Some attrmiss \<Rightarrow> attrmiss i)"

lemma slot_getsomeattrs_columns:
  assumes "slot_getsomeattrs b n = Inr b1"
  shows "b1 = b\<lparr>tts_values := (\<lambda>i. if tts_nvalid b \<le> i \<and> i < n then column b i else tts_values b i), tts_nvalid := max (tts_nvalid b) n\<rparr>"
proof (cases "tts_nvalid b < n")
  case True
  with assms have a: "\<not> tts_virtual b" "\<not> length (tts_attrs b) < n"
    by (auto simp: slot_getsomeattrs_def slot_getsomeattrs_int_def getsomeattrs_def split: if_splits)
  define b' where "b' = b\<lparr>tts_values := (\<lambda>i. if tts_nvalid b \<le> i \<and> i < min n (length (tts_tuple b)) then tts_tuple b ! i else tts_values b i),
      tts_nvalid := max (tts_nvalid b) (min n (length (tts_tuple b)))\<rparr>"
  have g: "getsomeattrs b n = Inr b'" using a(1) by (simp add: getsomeattrs_def b'_def Let_def)
  have nv: "tts_nvalid b' < n \<longleftrightarrow> length (tts_tuple b) < n" using True by (auto simp: b'_def)
  have "Inr b1 = (if length (tts_tuple b) < n then Inr ((slot_getmissingattrs b' (tts_nvalid b') n)\<lparr>tts_nvalid := n\<rparr>) else Inr b')"
    using assms True a(2) by (simp add: slot_getsomeattrs_def slot_getsomeattrs_int_def g nv split: if_splits)
  then show ?thesis using True
    by (cases "length (tts_tuple b) < n")
      (auto simp: b'_def slot_getmissingattrs_def column_def fun_eq_iff min_def max_def intro!: TupleTableSlot.equality)
next
  case False
  have "(\<lambda>i. if tts_nvalid b \<le> i \<and> i < n then column b i else tts_values b i) = tts_values b" using False by (auto simp: fun_eq_iff)
  with assms False show ?thesis by (simp add: slot_getsomeattrs_def)
qed

lemma slot_getsomeattrs_twice:
  assumes "m \<le> n" "slot_getsomeattrs b m = Inr b1" "slot_getsomeattrs b1 n = Inr b2" "slot_getsomeattrs b n = Inr b3"
  shows "b2 = b3"
proof -
  have c: "column b1 i = column b i" for i using slot_getsomeattrs_columns [OF assms(2)] by (simp add: column_def)
  show ?thesis
    unfolding slot_getsomeattrs_columns [OF assms(3)] slot_getsomeattrs_columns [OF assms(4)] c
    unfolding slot_getsomeattrs_columns [OF assms(2)] using assms(1) by (auto simp: fun_eq_iff intro!: TupleTableSlot.equality)
qed

text \<open>What a kind of slot promises: its routine does what \<open>getsomeattrs\<close> does on the common fields.\<close>

locale slot_ops =
  fixes getsome :: "'s \<Rightarrow> nat \<Rightarrow> 's eres"
    and get_base :: "'s \<Rightarrow> TupleTableSlot"
    and set_base :: "TupleTableSlot \<Rightarrow> 's \<Rightarrow> 's"
    and inv :: "'s \<Rightarrow> bool"
  assumes getsome_base: "inv s \<Longrightarrow> n \<le> length (tts_attrs (get_base s)) \<Longrightarrow>
      \<exists>s'. getsome s n = Inr s' \<and> inv s' \<and> getsomeattrs (get_base s) n = Inr (get_base s')"
    and base_set [simp]: "get_base (set_base b s) = b"
    and inv_missing: "inv s \<Longrightarrow> tts_nvalid (get_base s) < n \<Longrightarrow> length (tts_tuple (get_base s)) \<le> tts_nvalid (get_base s) \<Longrightarrow>
      n \<le> length (tts_attrs (get_base s)) \<Longrightarrow>
      inv (set_base ((slot_getmissingattrs (get_base s) (tts_nvalid (get_base s)) n)\<lparr>tts_nvalid := n\<rparr>) s)"
begin

lemma getsomeattrs_by_base:
  assumes "inv s" "n \<le> length (tts_attrs (get_base s))"
  shows "\<exists>s'. getsomeattrs_by getsome get_base set_base s n = Inr s' \<and> inv s' \<and> slot_getsomeattrs (get_base s) n = Inr (get_base s')"
proof (cases "n \<le> tts_nvalid (get_base s)")
  case True
  with assms(1) show ?thesis by (simp add: getsomeattrs_by_def slot_getsomeattrs_def)
next
  case False
  obtain s1 where s1: "getsome s n = Inr s1" "inv s1" "getsomeattrs (get_base s) n = Inr (get_base s1)"
    using getsome_base [OF assms] by blast
  note b = getsomeattrs_fields [OF s1(3)]
  show ?thesis
  proof (cases "tts_nvalid (get_base s1) < n")
    case True
    with False s1 b assms(2) inv_missing [OF s1(2) True] show ?thesis
      by (simp add: getsomeattrs_by_def slot_getsomeattrs_def slot_getsomeattrs_int_def Let_def)
  next
    case nm: False
    with False s1 assms(2) show ?thesis
      by (simp add: getsomeattrs_by_def slot_getsomeattrs_def slot_getsomeattrs_int_def Let_def)
  qed
qed

text \<open>Reading attributes in steps or at once is the same.\<close>

lemma getsomeattrs_by_twice:
  assumes "inv s" "m \<le> n" "n \<le> length (tts_attrs (get_base s))"
    "getsomeattrs_by getsome get_base set_base s m = Inr s1" "getsomeattrs_by getsome get_base set_base s1 n = Inr s2"
    "getsomeattrs_by getsome get_base set_base s n = Inr s3"
  shows "get_base s2 = get_base s3"
proof -
  have m: "m \<le> length (tts_attrs (get_base s))" using assms(2,3) by simp
  have b1: "inv s1" "slot_getsomeattrs (get_base s) m = Inr (get_base s1)" using getsomeattrs_by_base [OF assms(1) m] assms(4) by auto
  then have b2: "slot_getsomeattrs (get_base s1) n = Inr (get_base s2)"
    using getsomeattrs_by_base [OF b1(1), of n] arg_cong [OF slot_getsomeattrs_columns [OF b1(2)], of tts_attrs] assms(3,5) by auto
  have b3: "slot_getsomeattrs (get_base s) n = Inr (get_base s3)" using getsomeattrs_by_base [OF assms(1,3)] assms(6) by auto
  show ?thesis using slot_getsomeattrs_twice [OF assms(2) b1(2) b2 b3] .
qed

end

section \<open>Heap slots keep the contract\<close>

lemma same_att_stored:
  assumes "same_att att att'"
  shows "stored flat att' = stored flat att" "place_of flat att' = place_of flat att" "end_of flat att' = end_of flat att"
    "piece flat att' = piece flat att" "valid_val flat att' = valid_val flat att" "datum_of flat tp off att' = datum_of flat tp off att"
proof -
  note f = same_att_fields [OF assms]
  show s: "stored flat att' = stored flat att" by (auto simp: fun_eq_iff stored_def f VARLENA_ATT_IS_PACKABLE_def split: val.splits)
  show p: "place_of flat att' = place_of flat att" by (simp add: fun_eq_iff place_of_def s f)
  show "end_of flat att' = end_of flat att" by (simp add: fun_eq_iff end_of_def s p split: option.splits)
  show "piece flat att' = piece flat att" by (simp add: fun_eq_iff piece_def s p split: option.splits)
  show "valid_val flat att' = valid_val flat att" by (auto simp: fun_eq_iff valid_val_def f split: val.splits)
  show "datum_of flat tp off att' = datum_of flat tp off att" by (simp add: fun_eq_iff datum_of_def p split: option.splits val.splits)
qed

lemma same_atts:
  assumes "list_all2 same_att atts atts'"
  shows "layout flat off atts' vs = layout flat off atts vs" "datums flat tp off atts' vs = datums flat tp off atts vs"
    "valid_row flat atts' vs = valid_row flat atts vs"
  using assms
proof (induction arbitrary: off vs rule: list_all2_induct)
  case (Cons att atts att' atts')
  note e = same_att_stored [OF Cons.hyps(1)]
  { case 1 show ?case by (cases vs) (simp_all add: e Cons.IH) }
  { case 2 show ?case by (cases vs) (simp_all add: e Cons.IH) }
  { case 3 show ?case by (cases vs) (simp_all add: e Cons.IH) }
qed simp_all

lemma same_atts_varwidth:
  assumes "list_all2 same_att atts atts'"
  shows "(\<exists>(att, v) \<in> set (zip atts' vs). attlen att \<le> 0 \<and> v \<noteq> None) \<longleftrightarrow> (\<exists>(att, v) \<in> set (zip atts vs). attlen att \<le> 0 \<and> v \<noteq> None)"
  using assms
proof (induction arbitrary: vs rule: list_all2_induct)
  case (Cons att atts att' atts')
  show ?case using Cons.IH same_att_fields(1) [OF Cons.hyps(1)] by (cases vs) simp_all
qed simp

lemma stores_same: "list_all2 same_att atts atts' \<Longrightarrow> stores flat tup atts vs \<Longrightarrow> stores flat tup atts' vs"
  unfolding stores_def by (auto simp only: same_atts same_atts_varwidth)

lemma layout_append:
  "length atts1 = length vs1 \<Longrightarrow>
   layout flat off (atts1 @ atts2) (vs1 @ vs2) = layout flat off atts1 vs1 @ layout flat (off + length (layout flat off atts1 vs1)) atts2 vs2"
proof (induction atts1 vs1 arbitrary: off rule: list_induct2)
  case (Cons att atts v vs)
  then show ?case by (simp add: add.assoc flip: length_piece)
qed simp

lemma datums_append:
  "length atts1 = length vs1 \<Longrightarrow>
   datums flat tp off (atts1 @ atts2) (vs1 @ vs2) = datums flat tp off atts1 vs1 @ datums flat tp (off + length (layout flat off atts1 vs1)) atts2 vs2"
proof (induction atts1 vs1 arbitrary: off rule: list_induct2)
  case (Cons att atts v vs)
  then show ?case by (simp add: add.assoc flip: length_piece)
qed simp

lemma length_datums: "length atts = length vs \<Longrightarrow> length (datums flat tp off atts vs) = length vs"
  by (induction atts vs arbitrary: off rule: list_induct2) simp_all

lemma cache_ok_append: "cache_ok fo (atts1 @ atts2) \<longleftrightarrow> cache_ok fo atts1 \<and> cache_ok (fixed_after fo atts1) atts2"
  by (induction atts1 arbitrary: fo) (simp_all add: fixed_after_def)

lemma fixed_after_append: "fixed_after fo (atts1 @ atts2) = fixed_after (fixed_after fo atts1) atts2"
  by (simp add: fixed_after_def)

text \<open>The invariant of a slot with a heap tuple.\<close>

definition heap_slot_ok :: "(byte list \<Rightarrow> byte list) \<Rightarrow> val option list \<Rightarrow> HeapTupleTableSlot \<Rightarrow> bool" where
  "heap_slot_ok flat vs hs \<longleftrightarrow>
     t_natts (hs_tuple hs) \<le> length (hs_desc hs) \<and> stores flat (hs_tuple hs) (take (t_natts (hs_tuple hs)) (hs_desc hs)) vs \<and>
     cache_ok (Some 0) (take (t_natts (hs_tuple hs)) (hs_desc hs)) \<and>
     \<not> tts_virtual (base hs) \<and> length (tts_attrs (base hs)) = length (hs_desc hs) \<and>
     tts_tuple (base hs) = datums flat (t_data (hs_tuple hs)) 0 (take (t_natts (hs_tuple hs)) (hs_desc hs)) vs \<and>
     (0 < tts_nvalid (base hs) \<and> tts_nvalid (base hs) \<le> t_natts (hs_tuple hs) \<longrightarrow>
        hs_off hs = length (layout flat 0 (take (tts_nvalid (base hs)) (hs_desc hs)) (take (tts_nvalid (base hs)) vs)) \<and>
        (\<not> hs_slow hs \<longrightarrow> fixed_after (Some 0) (take (tts_nvalid (base hs)) (hs_desc hs)) = Some (hs_off hs)))"

text \<open>Deforming the attributes between \<open>k\<close> and \<open>n\<close> of a tuple.\<close>

lemma deform_middle:
  assumes "stores flat tup atts vs" "cache_ok (Some 0) atts" "k \<le> n" "n \<le> length vs"
    "off = length (layout flat 0 (take k atts) (take k vs))" "\<not> slow \<longrightarrow> fixed_after (Some 0) (take k atts) = Some off"
  shows "\<exists>atts1 off1 slow1. deform_loop tup k (take (n - k) (drop k atts)) off slow =
      Inr (atts1, take (n - k) (drop k (datums flat (t_data tup) 0 atts vs)), off1, slow1) \<and>
    list_all2 same_att (take (n - k) (drop k atts)) atts1 \<and> cache_ok (Some 0) (take k atts @ atts1 @ drop n atts) \<and>
    off1 = length (layout flat 0 (take n atts) (take n vs)) \<and> (\<not> slow1 \<longrightarrow> fixed_after (Some 0) (take k atts @ atts1) = Some off1)"
proof -
  let ?A = "take k atts" and ?M = "take (n - k) (drop k atts)" and ?R = "drop n atts"
  let ?a = "take k vs" and ?m = "take (n - k) (drop k vs)" and ?r = "drop n vs"
  note s = storesD [OF assms(1)]
  have l: "length atts = length vs" using valid_row_length [OF s(1)] by simp
  have la: "length ?A = length ?a" "length ?M = length ?m" using l by simp_all
  have tn: "take n atts = ?A @ ?M" "take n vs = ?a @ ?m" using assms(3) by (metis le_add_diff_inverse take_add)+
  have at: "atts = ?A @ ?M @ ?R" "vs = ?a @ ?m @ ?r" using tn by (metis append_assoc append_take_drop_id)+
  have lay: "layout flat 0 atts vs = layout flat 0 ?A ?a @ layout flat off ?M ?m @ layout flat (off + length (layout flat off ?M ?m)) ?R ?r"
    using layout_append [OF la(1), of flat 0 "?M @ ?R" "?m @ ?r"] layout_append [OF la(2), of flat off ?R ?r] at assms(5) by simp
  have dat: "datums flat (t_data tup) 0 atts vs = datums flat (t_data tup) 0 ?A ?a @ datums flat (t_data tup) off ?M ?m @
      datums flat (t_data tup) (off + length (layout flat off ?M ?m)) ?R ?r"
    using datums_append [OF la(1), of flat "t_data tup" 0 "?M @ ?R" "?m @ ?r"] datums_append [OF la(2), of flat "t_data tup" off ?R ?r] at assms(5) by simp
  have "valid_row flat (?A @ ?M @ ?R) (?a @ ?m @ ?r)" using s(1) at by simp
  then have v: "valid_row flat ?M ?m" using la by (simp add: valid_row_def list_all2_append)
  have d: "drop off (t_area tup) = layout flat off ?M ?m @ layout flat (off + length (layout flat off ?M ?m)) ?R ?r" "off \<le> length (t_area tup)"
    using s(3) lay assms(5) by simp_all
  have c: "cache_ok (Some 0) ?A" "cache_ok (fixed_after (Some 0) ?A) ?M" "cache_ok (fixed_after (fixed_after (Some 0) ?A) ?M) ?R"
    using assms(2) at(1) by (metis cache_ok_append)+
  have nt: "\<forall>j < length ?m. null_test tup (k + j) = Inr (?m ! j = None)"
    using stores_null_test [OF assms(1)] assms(3,4) by simp
  obtain atts1 slow1 where r: "deform_loop tup k ?M off slow = Inr (atts1, datums flat (t_data tup) off ?M ?m, off + length (layout flat off ?M ?m), slow1)"
    "list_all2 same_att ?M atts1" "cache_ok (fixed_after (Some 0) ?A) atts1"
    "\<not> slow1 \<longrightarrow> fixed_after (fixed_after (Some 0) ?A) atts1 = Some (off + length (layout flat off ?M ?m))"
    "fixed_after (fixed_after (Some 0) ?A) atts1 = fixed_after (fixed_after (Some 0) ?A) ?M \<or> fixed_after (fixed_after (Some 0) ?A) ?M = None"
    using deform_loop_ok [OF v d(2,1) assms(6) c(2) nt] by blast
  have o: "off + length (layout flat off ?M ?m) = length (layout flat 0 (take n atts) (take n vs))"
    unfolding tn using layout_append [OF la(1), of flat 0 ?M ?m] assms(5) by simp
  have dd: "take (n - k) (drop k (datums flat (t_data tup) 0 atts vs)) = datums flat (t_data tup) off ?M ?m"
    using dat length_datums [OF la(1), of flat "t_data tup" 0] length_datums [OF la(2), of flat "t_data tup" off] assms(3,4) by simp
  have "cache_ok (Some 0) (?A @ atts1 @ ?R)" using c r(3,5) cache_ok_None by (auto simp: cache_ok_append)
  with r o dd show ?thesis unfolding fixed_after_append by auto
qed

lemma heap_slot_deform:
  assumes "heap_slot_ok flat vs hs" "k = tts_nvalid (base hs)" "n' = min (t_natts (hs_tuple hs)) n" "k \<le> n'"
  shows "\<exists>atts1 off1 slow1. deform_loop (hs_tuple hs) k (take (n' - k) (drop k (hs_desc hs))) (if k = 0 then 0 else hs_off hs) (if k = 0 then False else hs_slow hs) =
      Inr (atts1, take (n' - k) (drop k (tts_tuple (base hs))), off1, slow1) \<and>
    list_all2 same_att (take (n' - k) (drop k (hs_desc hs))) atts1 \<and>
    heap_slot_ok flat vs (hs\<lparr>base := (base hs)\<lparr>tts_values := f, tts_nvalid := n'\<rparr>,
      hs_desc := take k (hs_desc hs) @ atts1 @ drop n' (hs_desc hs), hs_off := off1, hs_slow := slow1\<rparr>)"
proof -
  let ?N = "t_natts (hs_tuple hs)" and ?D = "take (t_natts (hs_tuple hs)) (hs_desc hs)"
  note h = assms(1) [unfolded heap_slot_ok_def]
  have s: "stores flat (hs_tuple hs) ?D vs" "cache_ok (Some 0) ?D" "?N \<le> length (hs_desc hs)" using h by blast+
  have N: "n' \<le> ?N" "k \<le> ?N" "length vs = ?N" using assms(3,4) storesD(2) [OF s(1)] by simp_all
  have t: "take (n' - k) (drop k ?D) = take (n' - k) (drop k (hs_desc hs))" "take k ?D = take k (hs_desc hs)" "take n' ?D = take n' (hs_desc hs)"
    using N by (simp_all add: drop_take min_def)
  have o: "(if k = 0 then 0 else hs_off hs) = length (layout flat 0 (take k ?D) (take k vs))"
    "\<not> (if k = 0 then False else hs_slow hs) \<longrightarrow> fixed_after (Some 0) (take k ?D) = Some (if k = 0 then 0 else hs_off hs)"
    using h assms(2) N(2) unfolding t by (auto simp: fixed_after_def)
  obtain atts1 off1 slow1 where r: "deform_loop (hs_tuple hs) k (take (n' - k) (drop k (hs_desc hs))) (if k = 0 then 0 else hs_off hs)
        (if k = 0 then False else hs_slow hs) = Inr (atts1, take (n' - k) (drop k (tts_tuple (base hs))), off1, slow1)"
    "list_all2 same_att (take (n' - k) (drop k (hs_desc hs))) atts1" "cache_ok (Some 0) (take k (hs_desc hs) @ atts1 @ drop n' ?D)"
    "off1 = length (layout flat 0 (take n' (hs_desc hs)) (take n' vs))"
    "\<not> slow1 \<longrightarrow> fixed_after (Some 0) (take k (hs_desc hs) @ atts1) = Some off1"
    using deform_middle [OF s(1,2) assms(4) _ o] N h unfolding t by auto
  let ?d = "take k (hs_desc hs) @ atts1 @ drop n' (hs_desc hs)"
  have la: "length atts1 = n' - k" using list_all2_lengthD [OF r(2)] N s(3) by simp
  have td: "take ?N ?d = take k (hs_desc hs) @ atts1 @ drop n' ?D" "length ?d = length (hs_desc hs)"
    using N s(3) la assms(4) by (simp_all add: drop_take)
  have tk: "take n' ?d = take k (hs_desc hs) @ atts1" using N s(3) la assms(4) by simp
  have "hs_desc hs = take k (hs_desc hs) @ take (n' - k) (drop k (hs_desc hs)) @ drop n' (hs_desc hs)"
    using assms(4) by (metis append.assoc append_take_drop_id le_add_diff_inverse take_add)
  then have sd: "list_all2 same_att (hs_desc hs) ?d"
    using r(2) list_all2_refl [of same_att] by (metis list_all2_appendI same_att_refl)
  then have sa: "list_all2 same_att ?D (take ?N ?d)" "list_all2 same_att (take n' (hs_desc hs)) (take n' ?d)" by (rule list_all2_takeI)+
  have "heap_slot_ok flat vs (hs\<lparr>base := (base hs)\<lparr>tts_values := f, tts_nvalid := n'\<rparr>, hs_desc := ?d, hs_off := off1, hs_slow := slow1\<rparr>)"
    using h r(3,4) r(5) [folded tk] td stores_same [OF sa(1) s(1)] same_atts [OF sa(1)] same_atts [OF sa(2)] N
    by (simp add: heap_slot_ok_def)
  with r(1,2) show ?thesis by blast
qed

lemma tts_heap_getsomeattrs_ok:
  assumes "heap_slot_ok flat vs hs"
  shows "\<exists>hs'. tts_heap_getsomeattrs hs n = Inr hs' \<and> heap_slot_ok flat vs hs' \<and> getsomeattrs (base hs) n = Inr (base hs')"
proof -
  define k where "k = tts_nvalid (base hs)"
  define n' where "n' = min (t_natts (hs_tuple hs)) n"
  note h = assms [unfolded heap_slot_ok_def]
  have s: "stores flat (hs_tuple hs) (take (t_natts (hs_tuple hs)) (hs_desc hs)) vs" "t_natts (hs_tuple hs) \<le> length (hs_desc hs)" using h by blast+
  have lt: "length (tts_tuple (base hs)) = t_natts (hs_tuple hs)"
    using h s(2) storesD(2) [OF s(1)] by (simp add: length_datums)
  have g: "getsomeattrs (base hs) n = Inr ((base hs)\<lparr>tts_values := (\<lambda>i. if k \<le> i \<and> i < n' then tts_tuple (base hs) ! i else tts_values (base hs) i),
      tts_nvalid := max k n'\<rparr>)"
    using h lt by (simp add: getsomeattrs_def Let_def k_def n'_def min.commute conj_commute)
  have b: "\<not> length (hs_desc hs) < n'" using s(2) by (simp add: n'_def)
  show ?thesis
  proof (cases "k \<le> n'")
    case True
    let ?ds = "take (n' - k) (drop k (tts_tuple (base hs)))"
    have f: "(\<lambda>i. if k \<le> i \<and> i < n' then ?ds ! (i - k) else tts_values (base hs) i) =
        (\<lambda>i. if k \<le> i \<and> i < n' then tts_tuple (base hs) ! i else tts_values (base hs) i)"
      using lt True by (auto simp: fun_eq_iff n'_def)
    from heap_slot_deform [OF assms k_def n'_def True, of "\<lambda>i. if k \<le> i \<and> i < n' then tts_tuple (base hs) ! i else tts_values (base hs) i"]
    obtain atts1 off1 slow1 where r: "deform_loop (hs_tuple hs) k (take (n' - k) (drop k (hs_desc hs))) (if k = 0 then 0 else hs_off hs)
          (if k = 0 then False else hs_slow hs) = Inr (atts1, ?ds, off1, slow1)"
      "heap_slot_ok flat vs (hs\<lparr>base := (base hs)\<lparr>tts_values := (\<lambda>i. if k \<le> i \<and> i < n' then tts_tuple (base hs) ! i else tts_values (base hs) i), tts_nvalid := n'\<rparr>,
        hs_desc := take k (hs_desc hs) @ atts1 @ drop n' (hs_desc hs), hs_off := off1, hs_slow := slow1\<rparr>)" by blast
    have "tts_heap_getsomeattrs hs n = Inr (hs\<lparr>base := (base hs)\<lparr>tts_values := (\<lambda>i. if k \<le> i \<and> i < n' then tts_tuple (base hs) ! i else tts_values (base hs) i), tts_nvalid := n'\<rparr>,
        hs_desc := take k (hs_desc hs) @ atts1 @ drop n' (hs_desc hs), hs_off := off1, hs_slow := slow1\<rparr>)"
      using r(1) b True f unfolding tts_heap_getsomeattrs_def slot_deform_heap_tuple_def k_def [symmetric] n'_def [symmetric] Let_def
      by (simp add: max_def)
    with r(2) g True show ?thesis by (simp add: max_def)
  next
    case False
    then have k0: "k \<noteq> 0" "max k n' = k" by auto
    have f: "(\<lambda>i. if k \<le> i \<and> i < n' then X i else tts_values (base hs) i) = tts_values (base hs)" for X using False by (auto simp: fun_eq_iff)
    have "(base hs)\<lparr>tts_values := tts_values (base hs), tts_nvalid := k\<rparr> = base hs" by (simp add: k_def)
    then have "tts_heap_getsomeattrs hs n = Inr (hs\<lparr>base := base hs, hs_desc := hs_desc hs, hs_off := hs_off hs, hs_slow := hs_slow hs\<rparr>)"
      using False b k0 unfolding tts_heap_getsomeattrs_def slot_deform_heap_tuple_def k_def [symmetric] n'_def [symmetric] Let_def f by simp
    moreover have "getsomeattrs (base hs) n = Inr (base hs)" unfolding g k0(2) f by (simp add: k_def)
    ultimately show ?thesis using assms by simp
  qed
qed

interpretation heap: slot_ops tts_heap_getsomeattrs base "\<lambda>b hs. hs\<lparr>base := b\<rparr>" "heap_slot_ok flat vs" for flat vs
proof
  show "\<exists>s'. tts_heap_getsomeattrs s n = Inr s' \<and> heap_slot_ok flat vs s' \<and> getsomeattrs (base s) n = Inr (base s')"
    if "heap_slot_ok flat vs s" for s n
    using tts_heap_getsomeattrs_ok [OF that] .
next
  fix s n
  assume h: "heap_slot_ok flat vs s" and n: "tts_nvalid (base s) < n" "length (tts_tuple (base s)) \<le> tts_nvalid (base s)"
  have "length (tts_tuple (base s)) = t_natts (hs_tuple s)"
    using h storesD(2) [of flat "hs_tuple s"] by (auto simp: heap_slot_ok_def length_datums)
  with h n show "heap_slot_ok flat vs (s\<lparr>base := slot_getmissingattrs (base s) (tts_nvalid (base s)) n\<lparr>tts_nvalid := n\<rparr>\<rparr>)"
    by (simp add: heap_slot_ok_def slot_getmissingattrs_def)
qed simp

section \<open>Round trip\<close>

text \<open>
  The pointer \<open>q\<close> points to the object \<open>p\<close>: an expanded object has been flattened, a variable-length
  value in line has the same data, perhaps behind another header, and everything else is unchanged.
\<close>

definition same_object :: "(byte list \<Rightarrow> byte list) \<Rightarrow> Attr \<Rightarrow> byte list \<Rightarrow> byte list \<Rightarrow> bool" where
  "same_object flat att p q \<longleftrightarrow>
     (if attlen att = - 1 \<and> is_expanded p then take (length (flat p)) q = flat p
      else if attlen att = - 1 \<and> \<not> VARATT_IS_1B_E (hd p) then VARDATA_ANY q = VARDATA_ANY p
      else take (length p) q = p)"

text \<open>The datum \<open>d\<close> read from \<open>tup\<close> stands for the value \<open>vo\<close> that was stored.\<close>

definition reads_back :: "(byte list \<Rightarrow> byte list) \<Rightarrow> HeapTuple \<Rightarrow> Attr \<Rightarrow> val option \<Rightarrow> NullableDatum \<Rightarrow> bool" where
  "reads_back flat tup att vo d \<longleftrightarrow>
     (case vo of
        None \<Rightarrow> d = (0, True)
      | Some (ByVal w) \<Rightarrow> d = (w, False)
      | Some (ByRef p) \<Rightarrow> \<exists>off. d = (of_nat (t_data tup + off), False) \<and> same_object flat att p (drop off (t_area tup)))"

lemma VARDATA_ANY_append:
  assumes "wf_varlena p" "\<not> VARATT_IS_1B_E (hd p)"
  shows "VARDATA_ANY (p @ q) = VARDATA_ANY p"
proof -
  have h: "va_header p = Inr (hd p)" "va_header (p @ q) = Inr (hd p)" "p \<noteq> []"
    using wf_varlena_nonempty [OF assms(1)] by (simp_all add: va_header_Inr)
  have s: "VARSIZE_ANY p = Inr (length p)" "VARSIZE_ANY (p @ q) = Inr (length p)"
    using assms(1) VARSIZE_ANY_append by (auto simp: wf_varlena_def)
  show ?thesis
  proof (cases "VARATT_IS_1B (hd p)")
    case True
    with h s show ?thesis by (cases p) (simp_all add: VARDATA_ANY_def read_bytes_def)
  next
    case False
    with h s VARSIZE_4B_length [OF wf_varlena_4B [OF assms(1) False]] show ?thesis by (simp add: VARDATA_ANY_def read_bytes_def)
  qed
qed

lemma same_object_stored:
  assumes "valid_val flat att (ByRef p)"
  shows "same_object flat att p (snd (stored flat att (ByRef p)) @ rest)"
proof (cases "attlen att = - 1")
  case True
  then have w: "wf_varlena p" using assms by (simp add: valid_val_def)
  show ?thesis
  proof (cases "is_expanded p")
    case e: True
    with True show ?thesis by (simp add: same_object_def stored_def)
  next
    case False
    have "VARDATA_ANY (make_short p @ rest) = VARDATA_ANY p" if "VARATT_CAN_MAKE_SHORT p = Inr True"
      using VARDATA_ANY_append [OF make_short_wf(1,3) [OF w that]] VARDATA_ANY_make_short [OF w that] by simp
    moreover have "\<not> VARATT_IS_1B_E (hd p)" if "\<not> VARATT_IS_1B (hd p)" using that VARATT_IS_1B_E_1B by blast
    ultimately show ?thesis using False True VARDATA_ANY_append [OF w] by (auto simp: same_object_def stored_def)
  qed
next
  case False
  then show ?thesis by (simp add: same_object_def stored_def)
qed

lemma datum_of_reads_back:
  assumes "\<forall>x. vo = Some x \<longrightarrow> valid_val flat att x" "off \<le> length (t_area tup)" "drop off (t_area tup) = piece flat att vo off @ rest"
  shows "reads_back flat tup att vo (datum_of flat (t_data tup) off att vo)"
proof -
  { fix p assume vo: "vo = Some (ByRef p)"
    let ?o = "place_of flat att (ByRef p) off"
    have "t_area tup = (take off (t_area tup) @ replicate (?o - off) 0) @ snd (stored flat att (ByRef p)) @ rest"
      using assms(3) vo append_take_drop_id [of off "t_area tup"] by (simp add: piece_def)
    moreover have "length (take off (t_area tup) @ replicate (?o - off) 0) = ?o" using assms(2) by (simp add: min_def)
    ultimately have "drop ?o (t_area tup) = snd (stored flat att (ByRef p)) @ rest" by (metis append_eq_conv_conj)
    with same_object_stored assms(1) vo have "same_object flat att p (drop ?o (t_area tup))" by simp }
  then show ?thesis by (auto simp: reads_back_def datum_of_def split: option.splits val.splits)
qed

lemma datums_read_back:
  assumes "valid_row flat atts vs" "off \<le> length (t_area tup)" "drop off (t_area tup) = layout flat off atts vs @ rest"
  shows "list_all2 (\<lambda>(att, vo) d. reads_back flat tup att vo d) (zip atts vs) (datums flat (t_data tup) off atts vs)"
  using assms
proof (induction atts arbitrary: vs off)
  case (Cons att atts)
  from Cons.prems(1) obtain v vs' where vs: "vs = v # vs'" by (cases vs) auto
  let ?e = "end_of flat att v off"
  have v: "\<forall>x. v = Some x \<longrightarrow> valid_val flat att x" "valid_row flat atts vs'" using Cons.prems(1) vs by simp_all
  have d: "drop off (t_area tup) = piece flat att v off @ (layout flat ?e atts vs' @ rest)" using Cons.prems(3) vs by simp
  have e: "?e = off + length (piece flat att v off)" by (simp add: length_piece)
  have "drop ?e (t_area tup) = layout flat ?e atts vs' @ rest" using d unfolding e by (metis drop_drop add.commute append_eq_conv_conj)
  moreover have "?e \<le> length (t_area tup)" using arg_cong [OF d, of length] Cons.prems(2) unfolding e by simp
  ultimately show ?case using Cons.IH [OF v(2)] datum_of_reads_back [OF v(1) Cons.prems(2) d] vs by simp
qed simp

text \<open>
  C12. For values that fit their types, \<open>heap_form_tuple\<close> never writes outside the memory it allocates: it
  refuses too many columns and too large a tuple, and otherwise fills exactly the size it computed
  beforehand. The offset of the data fits the one byte it is stored in.
\<close>

theorem heap_form_tuple_fits:
  assumes "valid_row flat atts vs" "8 dvd block" "hoff = MAXALIGN (23 + (if None \<in> set vs then BITMAPLEN (length atts) else 0))"
  shows "if MaxTupleAttributeNumber < length atts then heap_form_tuple flat block atts vs = Inl (ERROR ERRCODE_TOO_MANY_COLUMNS)
    else if MaxAllocSize < HEAPTUPLESIZE + (hoff + length (layout flat 0 atts vs))
      then heap_form_tuple flat block atts vs = Inl (ERROR ERRCODE_INTERNAL_ERROR)
    else \<exists>tup. heap_form_tuple flat block atts vs = Inr tup \<and> stores flat tup atts vs \<and> t_hoff tup = hoff \<and> hoff < 256 \<and>
      t_len tup = hoff + length (t_area tup) \<and> 8 dvd t_data tup"
proof (cases "MaxTupleAttributeNumber < length atts \<or> MaxAllocSize < HEAPTUPLESIZE + (hoff + length (layout flat 0 atts vs))")
  case True
  have "heap_compute_data_size flat atts vs 0 = Inr (length (layout flat 0 atts vs))"
    using heap_compute_data_size_layout [OF assms(1), of 0] by simp
  with True show ?thesis unfolding heap_form_tuple_def Let_def assms(3) [symmetric] by auto
next
  case False
  have "8 dvd block + HEAPTUPLESIZE + hoff"
    using assms(2,3) by (simp add: HEAPTUPLESIZE_def MAXALIGN_def align_up_def)
  moreover have "hoff < 256"
  proof -
    have "BITMAPLEN (length atts) \<le> 208" using False div_le_mono [of "length atts + 7" "1671" 8]
      by (simp add: BITMAPLEN_def MaxTupleAttributeNumber_def)
    then show ?thesis using align_up_less [of 8 "23 + (if None \<in> set vs then BITMAPLEN (length atts) else 0)"]
      unfolding assms(3) MAXALIGN_def by (simp split: if_splits)
  qed
  ultimately show ?thesis using False heap_form_tuple_stores [OF assms(1,2) _ assms(3)] by (auto simp: t_data_def)
qed

lemma form_stores:
  assumes "heap_form_tuple flat block atts vs = Inr tup" "valid_row flat atts vs" "8 dvd block"
  shows "stores flat tup atts vs"
proof -
  define hoff where "hoff = MAXALIGN (23 + (if None \<in> set vs then BITMAPLEN (length atts) else 0))"
  have s: "heap_compute_data_size flat atts vs 0 = Inr (length (layout flat 0 atts vs))"
    using heap_compute_data_size_layout [OF assms(2), of 0] by simp
  have "length atts \<le> MaxTupleAttributeNumber" "HEAPTUPLESIZE + (hoff + length (layout flat 0 atts vs)) \<le> MaxAllocSize"
    using assms(1) s unfolding heap_form_tuple_def Let_def hoff_def [symmetric] by (auto split: if_splits)
  from heap_form_tuple_stores [OF assms(2,3) this(1) hoff_def this(2)] assms(1) show ?thesis by auto
qed

text \<open>
  C11. Deforming a tuple gives back the values it was formed from, whatever valid offsets the descriptor
  has cached: nulls, datums by value, and pointers to the same objects. The offsets cached afterwards
  are valid.
\<close>

theorem form_deform_roundtrip:
  assumes "heap_form_tuple flat block atts vs = Inr tup" "valid_row flat atts vs" "8 dvd block"
    and "list_all2 same_att atts desc" "cache_ok (Some 0) desc"
  shows "\<exists>ds desc'. heap_deform_tuple tup desc = Inr (ds, desc') \<and> list_all2 (\<lambda>(att, vo) d. reads_back flat tup att vo d) (zip atts vs) ds \<and>
    list_all2 same_att atts desc' \<and> cache_ok (Some 0) desc'"
proof -
  have st: "stores flat tup atts vs" using form_stores [OF assms(1-3)] .
  have l: "t_natts tup = length desc"
    using storesD(2) [OF st] valid_row_length [OF assms(2)] list_all2_lengthD [OF assms(4)] by simp
  obtain desc' where d: "heap_deform_tuple tup desc = Inr (datums flat (t_data tup) 0 desc vs, desc')"
    "list_all2 same_att desc desc'" "cache_ok (Some 0) desc'"
    using heap_deform_tuple_ok [of flat tup desc vs] stores_same [OF assms(4) st] assms(5) l by auto
  have "list_all2 (\<lambda>(att, vo) d. reads_back flat tup att vo d) (zip atts vs) (datums flat (t_data tup) 0 atts vs)"
    using datums_read_back [OF assms(2), of 0 tup "[]"] storesD(3) [OF st] by simp
  moreover have "list_all2 same_att atts desc'"
    using list_all2_trans [OF _ assms(4) d(2), of same_att] by (auto simp: same_att_def)
  ultimately show ?thesis using d same_atts(2) [OF assms(4)] by simp
qed

text \<open>
  C19. Cached offsets change nothing but the speed: with any valid cache, deforming gives the values it
  gives for a fresh descriptor, in which nothing is cached.
\<close>

theorem deform_cache_irrelevant:
  assumes "stores flat tup (take (t_natts tup) desc) vs" "cache_ok (Some 0) (take (t_natts tup) desc)" "t_natts tup \<le> length desc"
  shows "\<exists>ds desc1 desc2. heap_deform_tuple tup desc = Inr (ds, desc1) \<and>
    heap_deform_tuple tup (map (\<lambda>att. att\<lparr>attcacheoff := - 1\<rparr>) desc) = Inr (ds, desc2)"
proof -
  let ?f = "map (\<lambda>att. att\<lparr>attcacheoff := - 1\<rparr>)"
  have s: "list_all2 same_att (take (t_natts tup) desc) (?f (take (t_natts tup) desc))" by (simp add: list_all2_conv_all_nth)
  have c: "cache_ok fo (?f atts)" for fo atts by (induction atts arbitrary: fo) (simp_all add: cached_ok_def)
  have m: "map getmissingattr (?f xs) = map getmissingattr xs" for xs by (simp add: getmissingattr_def)
  from heap_deform_tuple_ok [OF assms] heap_deform_tuple_ok [of flat tup "?f desc" vs] stores_same [OF s assms(1)] c assms(3) same_atts(2) [OF s]
  show ?thesis by (auto simp: take_map drop_map m simp del: map_map)
qed

text \<open>
  C13. Fetching attributes into a slot with a heap tuple does what fetching into the slots of the
  expression engine does: the same values become valid, from the tuple or the missing values, and
  the saved state of the deforming stays right.
\<close>

theorem heap_slot_refines:
  assumes "heap_slot_ok flat vs hs" "n \<le> length (hs_desc hs)"
  shows "\<exists>hs'. getsomeattrs_by tts_heap_getsomeattrs base (\<lambda>b hs. hs\<lparr>base := b\<rparr>) hs n = Inr hs' \<and>
    slot_getsomeattrs (base hs) n = Inr (base hs') \<and> heap_slot_ok flat vs hs'"
proof -
  have "n \<le> length (tts_attrs (base hs))" using assms by (simp add: heap_slot_ok_def)
  from heap.getsomeattrs_by_base [OF assms(1) this] show ?thesis by blast
qed

text \<open>
  C20. Fetching attributes in two steps leaves the slot as fetching them at once: the deforming can be
  interrupted and resumed at any attribute.
\<close>

theorem heap_slot_resume:
  assumes "heap_slot_ok flat vs hs" "m \<le> n" "n \<le> length (hs_desc hs)"
  shows "\<exists>hs1 hs2 hs3. getsomeattrs_by tts_heap_getsomeattrs base (\<lambda>b hs. hs\<lparr>base := b\<rparr>) hs m = Inr hs1 \<and>
    getsomeattrs_by tts_heap_getsomeattrs base (\<lambda>b hs. hs\<lparr>base := b\<rparr>) hs1 n = Inr hs2 \<and>
    getsomeattrs_by tts_heap_getsomeattrs base (\<lambda>b hs. hs\<lparr>base := b\<rparr>) hs n = Inr hs3 \<and> base hs2 = base hs3"
proof -
  let ?g = "getsomeattrs_by tts_heap_getsomeattrs base (\<lambda>b hs. hs\<lparr>base := b\<rparr>)"
  have n: "n \<le> length (tts_attrs (base hs))" using assms(1,3) by (simp add: heap_slot_ok_def)
  obtain hs1 where 1: "?g hs m = Inr hs1" "heap_slot_ok flat vs hs1" "slot_getsomeattrs (base hs) m = Inr (base hs1)"
    using heap.getsomeattrs_by_base [OF assms(1), of m] n assms(2) by auto
  have "n \<le> length (tts_attrs (base hs1))" using n arg_cong [OF slot_getsomeattrs_columns [OF 1(3)], of tts_attrs] by simp
  then obtain hs2 where 2: "?g hs1 n = Inr hs2" using heap.getsomeattrs_by_base [OF 1(2)] by blast
  obtain hs3 where 3: "?g hs n = Inr hs3" using heap.getsomeattrs_by_base [OF assms(1) n] by blast
  from 1(1) 2 3 heap.getsomeattrs_by_twice [OF assms(1,2) n 1(1) 2 3] show ?thesis by blast
qed

section \<open>Examples\<close>

definition ex_atts :: "Attr list" where
  "ex_atts =
     [\<lparr>attlen = 4, attbyval = True, attalign = TYPALIGN_INT, attstorage = TYPSTORAGE_PLAIN, attcacheoff = - 1, atthasmissing = False, attmissing = (0, False)\<rparr>,
      \<lparr>attlen = - 1, attbyval = False, attalign = TYPALIGN_INT, attstorage = TYPSTORAGE_EXTENDED, attcacheoff = - 1, atthasmissing = False, attmissing = (0, False)\<rparr>,
      \<lparr>attlen = 1, attbyval = True, attalign = TYPALIGN_CHAR, attstorage = TYPSTORAGE_PLAIN, attcacheoff = - 1, atthasmissing = False, attmissing = (0, False)\<rparr>,
      \<lparr>attlen = 8, attbyval = True, attalign = TYPALIGN_DOUBLE, attstorage = TYPSTORAGE_PLAIN, attcacheoff = - 1, atthasmissing = False, attmissing = (0, False)\<rparr>]"

definition ex_vals :: "val option list" where
  "ex_vals = [Some (ByVal 7), Some (ByRef [20, 0, 0, 0, 104]), None, Some (ByVal 9)]"

lemma ex_header:
  "VARSIZE_ANY [20, 0, 0, 0, 104] = Inr 5" "VARATT_CAN_MAKE_SHORT [20, 0, 0, 0, 104] = Inr True" "\<not> is_expanded [20, 0, 0, 0, 104]"
  "\<not> VARATT_IS_1B 20"
  by code_simp+

lemma ex_valid: "valid_row id ex_atts ex_vals" "cache_ok (Some 0) ex_atts"
  by (simp_all add: ex_atts_def ex_vals_def valid_val_def canonical_def wf_varlena_def ex_header cached_ok_def next_fixed_def att_align_nominal_def)

lemma le_bytes_numeral: "le_bytes (numeral k) w = ucast w # le_bytes (pred_numeral k) (drop_bit 8 w)"
  by (simp add: numeral_eq_Suc)

lemma ex_replicate: "replicate (numeral k) x = x # replicate (pred_numeral k) x"
  by (simp add: numeral_eq_Suc)

lemma ex_layout: "layout id 0 ex_atts ex_vals = [7, 0, 0, 0, 5, 104, 0, 0, 9, 0, 0, 0, 0, 0, 0, 0]"
  by (simp add: ex_atts_def ex_vals_def piece_def end_of_def place_of_def stored_def ex_header VARLENA_ATT_IS_PACKABLE_def
      make_short_def SET_VARSIZE_1B_def att_align_nominal_def align_up_def le_bytes_numeral ex_replicate)

lemma ex_form: "\<exists>tup. heap_form_tuple id 4096 ex_atts ex_vals = Inr tup \<and> stores id tup ex_atts ex_vals"
proof -
  have "length ex_atts = 4" "None \<in> set ex_vals" "length (layout id 0 ex_atts ex_vals) = 16"
    unfolding ex_layout by (simp_all add: ex_atts_def ex_vals_def)
  then show ?thesis using heap_form_tuple_stores [OF ex_valid(1), of 4096, OF _ _ refl]
    by (auto simp: MaxTupleAttributeNumber_def HEAPTUPLESIZE_def MaxAllocSize_def MAXALIGN_def align_up_def BITMAPLEN_def)
qed

theorem heap_form_tuple_fits_witness:
  "\<exists>tup. heap_form_tuple id 4096 ex_atts ex_vals = Inr tup \<and> t_len tup = 40 \<and> 8 dvd t_data tup"
proof -
  have l: "length ex_atts = 4" "None \<in> set ex_vals" "length (layout id 0 ex_atts ex_vals) = 16"
    unfolding ex_layout by (simp_all add: ex_atts_def ex_vals_def)
  have h: "24 = MAXALIGN (23 + (if None \<in> set ex_vals then BITMAPLEN (length ex_atts) else 0))"
    using l by (simp add: MAXALIGN_def align_up_def BITMAPLEN_def)
  have "8 dvd (4096 :: nat)" by simp
  from heap_form_tuple_fits [OF ex_valid(1) this h] l show ?thesis
    by (auto simp: MaxTupleAttributeNumber_def HEAPTUPLESIZE_def MaxAllocSize_def dest: storesD(3))
qed

theorem form_deform_roundtrip_witness:
  "\<exists>tup ds desc'. heap_form_tuple id 4096 ex_atts ex_vals = Inr tup \<and> heap_deform_tuple tup ex_atts = Inr (ds, desc') \<and>
    list_all2 (\<lambda>(att, vo) d. reads_back id tup att vo d) (zip ex_atts ex_vals) ds"
proof -
  obtain tup where t: "heap_form_tuple id 4096 ex_atts ex_vals = Inr tup" using ex_form by blast
  have "list_all2 same_att ex_atts ex_atts" by (simp add: list_all2_refl)
  from form_deform_roundtrip [OF t ex_valid(1) _ this ex_valid(2)] t show ?thesis by auto
qed

lemma ex_natts: "stores id tup ex_atts ex_vals \<Longrightarrow> t_natts tup = 4 \<and> take (t_natts tup) ex_atts = ex_atts"
  by (auto dest!: storesD(2) simp: ex_vals_def ex_atts_def)

text \<open>The descriptor with the offsets of the first two attributes cached.\<close>

definition ex_cached :: "Attr list" where
  "ex_cached = ex_atts[0 := (ex_atts ! 0)\<lparr>attcacheoff := 0\<rparr>, 1 := (ex_atts ! 1)\<lparr>attcacheoff := 4\<rparr>]"

lemma ex_cached: "map attcacheoff ex_cached = [0, 4, - 1, - 1]" "length ex_cached = 4" "cache_ok (Some 0) ex_cached"
  "list_all2 same_att ex_atts ex_cached"
  by (simp_all add: ex_cached_def ex_atts_def cached_ok_def next_fixed_def att_align_nominal_def align_up_def same_att_def)

theorem deform_cache_irrelevant_witness:
  "\<exists>tup ds desc1 desc2. heap_form_tuple id 4096 ex_atts ex_vals = Inr tup \<and> map attcacheoff ex_cached = [0, 4, - 1, - 1] \<and>
    heap_deform_tuple tup ex_cached = Inr (ds, desc1) \<and>
    heap_deform_tuple tup (map (\<lambda>att. att\<lparr>attcacheoff := - 1\<rparr>) ex_cached) = Inr (ds, desc2)"
proof -
  obtain tup where t: "heap_form_tuple id 4096 ex_atts ex_vals = Inr tup" "stores id tup ex_atts ex_vals" using ex_form by blast
  have "stores id tup ex_cached ex_vals" using stores_same [OF ex_cached(4) t(2)] .
  moreover have "t_natts tup = 4" using ex_natts [OF t(2)] by simp
  ultimately show ?thesis
    using deform_cache_irrelevant [of id tup ex_cached ex_vals] t(1) ex_cached(1-3) by simp
qed

definition ex_heap_slot :: "HeapTuple \<Rightarrow> HeapTupleTableSlot" where
  "ex_heap_slot tup =
     \<lparr>base = \<lparr>tts_nvalid = 0, tts_values = (\<lambda>i. (0, True)), tts_tuple = datums id (t_data tup) 0 ex_atts ex_vals, tts_missing = None,
              tts_attrs = [(False, 23), (False, 25), (False, 16), (False, 20)], tts_virtual = False\<rparr>,
      hs_desc = ex_atts, hs_tuple = tup, hs_off = 0, hs_slow = False\<rparr>"

lemma ex_heap_slot_ok: "stores id tup ex_atts ex_vals \<Longrightarrow> heap_slot_ok id ex_vals (ex_heap_slot tup)"
  using ex_natts [of tup] ex_valid(2) by (simp add: heap_slot_ok_def ex_heap_slot_def) (simp add: ex_atts_def)

theorem heap_slot_refines_witness:
  "\<exists>tup hs'. heap_form_tuple id 4096 ex_atts ex_vals = Inr tup \<and>
    getsomeattrs_by tts_heap_getsomeattrs base (\<lambda>b hs. hs\<lparr>base := b\<rparr>) (ex_heap_slot tup) 4 = Inr hs' \<and>
    slot_getsomeattrs (base (ex_heap_slot tup)) 4 = Inr (base hs')"
proof -
  obtain tup where t: "heap_form_tuple id 4096 ex_atts ex_vals = Inr tup" "stores id tup ex_atts ex_vals" using ex_form by blast
  have "4 \<le> length (hs_desc (ex_heap_slot tup))" by (simp add: ex_heap_slot_def ex_atts_def)
  from heap_slot_refines [OF ex_heap_slot_ok [OF t(2)] this] t(1) show ?thesis by blast
qed

theorem heap_slot_resume_witness:
  "\<exists>tup hs1 hs2 hs3. heap_form_tuple id 4096 ex_atts ex_vals = Inr tup \<and>
    getsomeattrs_by tts_heap_getsomeattrs base (\<lambda>b hs. hs\<lparr>base := b\<rparr>) (ex_heap_slot tup) 2 = Inr hs1 \<and>
    getsomeattrs_by tts_heap_getsomeattrs base (\<lambda>b hs. hs\<lparr>base := b\<rparr>) hs1 4 = Inr hs2 \<and>
    getsomeattrs_by tts_heap_getsomeattrs base (\<lambda>b hs. hs\<lparr>base := b\<rparr>) (ex_heap_slot tup) 4 = Inr hs3 \<and> base hs2 = base hs3"
proof -
  obtain tup where t: "heap_form_tuple id 4096 ex_atts ex_vals = Inr tup" "stores id tup ex_atts ex_vals" using ex_form by blast
  have "4 \<le> length (hs_desc (ex_heap_slot tup))" by (simp add: ex_heap_slot_def ex_atts_def)
  from heap_slot_resume [OF ex_heap_slot_ok [OF t(2)] _ this, of 2] t(1) show ?thesis by simp
qed

end
