(* ===== verification/Spec2Isabelle.thy ===== *)
theory Spec2Isabelle
  imports ExprFile LevelsFile JitCompile ExprShape HeapDeform
begin

text \<open>
  Verification library for HEX: PostgreSQL 13.9 in which each expression of a statement gets its own
  JIT level. Paths below are relative to \<open>src/PostgreSQL-13.9/src/\<close>.

  \<^bold>\<open>The program.\<close> A backend runs a statement in \<open>exec_simple_query\<close> (\<open>backend/tcop/postgres.c\<close>). For
  each expression of the plan the executor calls \<open>ExecInitExpr\<close> (\<open>backend/executor/execExpr.c\<close>), which
  translates the tree to steps and hands them to \<open>jit_compile_expr\<close> (\<open>backend/jit/jit.c\<close>). HEX registers
  the list of operation codes in a table that all statements share (\<open>backend/utils/init/globals.c\<close>,
  filled from a file by \<open>backend/access/transam/xlog.c\<close>), gives the expression the level chosen for it
  and compiles it with the flags of that level. If it is not compiled, \<open>ExecReadyInterpretedExpr\<close>
  (\<open>backend/executor/execExprInterp.c\<close>) picks an interpreting function; each such function counts its
  evaluations. A repeated statement tries other levels each time and keeps the fastest ones
  (\<open>exec_simple_query\<close> before the run, \<open>standard_ExplainOneQuery\<close> and \<open>ExplainOnePlan\<close> in
  \<open>backend/commands/explain.c\<close> after it). \<open>addPlanTree\<close> stores the operators of the plan that the
  expressions belong to.

  \<^bold>\<open>The theories of HEX.\<close>
  \<^item> \<open>Prelude\<close>: results with faults, checked arrays, C strings; \<open>Eeop\<close>: the operation codes of
    \<open>include/executor/execExpr.h\<close> and the three tables of their names.
  \<^item> \<open>ExprTable\<close>: hash, lookup and insertion of \<open>globals.c\<close>. Probing stays inside the array and
    implements a bounded registry (locale \<open>expr_registry\<close>, interpreted on the table); what a collision
    and a negative hash do is stated too. \<open>ExprFile\<close>: the loader; reading back what insertion logged
    restores all numbers.
  \<^item> \<open>SqlText\<close>: \<open>trim_token\<close>, \<open>identify_query\<close> and \<open>getSqlStatementType\<close>.
  \<^item> \<open>OpInfo\<close>: \<open>addPlanTree\<close>, \<open>findOperatorInfo\<close> and the numbers added by \<open>ExplainNode\<close>; the array of
    operators represents the plan tree.
  \<^item> \<open>JitLevels\<close>: the search for levels as a state machine over repeated runs. With \<open>enableQuartet\<close> on it is
    safe, ends after a bounded number of runs among which each expression had each level alone, and
    then runs the best levels it measured; with the switch off, its default, it reads levels that
    were never set. \<open>LevelsFile\<close>: levels read from a file.
  \<^item> \<open>JitCompile\<close>: \<open>jit_compile_expr\<close> with the hook of HEX and \<open>provider_init\<close>; the provider is asked to
    compile an expression exactly if its level is not 0. The flags of the level are added to those of
    the \<open>EState\<close>, which all expressions of a statement share.

  \<^bold>\<open>The theories of the expression engine.\<close>
  \<^item> \<open>ExprData\<close>: datums (\<open>include/postgres.h\<close>), slots (\<open>include/executor/tuptable.h\<close>,
    \<open>backend/executor/execTuples.c\<close>), trees (\<open>include/nodes/primnodes.h\<close>) and steps. Memory that steps
    share is a numbered store of cells; \<open>place\<close> says which cells an expression may write.
  \<^item> \<open>ExprInit\<close>: \<open>ExecInitExprRec\<close> with its helpers and entry points; \<open>ExprInterp\<close>: \<open>ExecInterpExpr\<close>
    and the functions \<open>ExecEval\<dots>\<close> it calls. The loop may run forever, so \<open>run\<close> is a partial function
    whose value \<open>None\<close> means that it does not end.
  \<^item> \<open>ExprSem\<close>: what a tree means, without steps, cells or jumps. \<open>ExprCorrect\<close>, \<open>ExprJumps\<close>,
    \<open>ExprRows\<close> and \<open>ExprTheorem\<close>: the steps of each node type compute its meaning; \<open>ExprFetch\<close> and
    \<open>ExprEntry\<close>: the deforming steps fetch enough attributes, and the entry points.
  \<^item> \<open>ExprRuns\<close>: running a translated expression ends, with the value, error and effects of its meaning;
    from this, what \<open>ExecQual\<close>, \<open>ExecCheck\<close>, projections, \<open>AND\<close>/\<open>OR\<close>, \<open>CASE\<close>, \<open>ANY\<close>/\<open>ALL\<close>, \<open>GREATEST\<close>/\<open>LEAST\<close>
    and domain coercions compute. The step array is always large enough.
  \<^item> \<open>ExprFast\<close>, \<open>ExprCount\<close>, \<open>ExprShape\<close>: the selection of an evaluation function and its fourteen fast
    paths, each equivalent to the interpreter; the check on the first evaluation; each interpreted
    evaluation is counted once and otherwise undisturbed by the counting; and all of it together for a prepared expression.

  \<^bold>\<open>The theories of heap tuples\<close>, the rows that the slots of the engine read.
  \<^item> \<open>Varlena\<close>: bytes, alignment (\<open>include/c.h\<close>, \<open>include/access/tupmacs.h\<close>) and the headers of
    variable-length values (\<open>include/postgres.h\<close>); packing a value to a short header keeps its data.
  \<^item> \<open>HeapTuple\<close>: \<open>heap_form_tuple\<close> with \<open>heap_compute_data_size\<close> and \<open>heap_fill_tuple\<close>
    (\<open>backend/access/common/heaptuple.c\<close>); the computed size is the size of what is written, each value
    stands at the place of \<open>layout\<close>, and the bitmap marks the nulls.
  \<^item> \<open>HeapDeform\<close>: \<open>heap_deform_tuple\<close>, and \<open>slot_deform_heap_tuple\<close> of \<open>execTuples.c\<close> with the offset it
    saves between calls. Deforming gives back what was formed, whatever valid offsets the descriptor
    caches (\<open>cache_ok\<close>). The locale \<open>slot_ops\<close> is the contract of \<open>TupleTableSlotOps\<close>; it is interpreted
    on heap slots, so they behave as the slots of \<open>ExprData\<close>, and reading in steps is reading at once.

  \<^bold>\<open>Bounds.\<close> The sizes are those of \<open>include/miscadmin.h\<close>: 256 table entries, 64 steps of an expression,
  64 expressions and 64 operators of a statement. Hashes and counters are 64-bit words, levels integers,
  datums 64-bit words. Access outside an array, to freed memory or to a slot never written is a fault,
  so a theorem that a call returns \<open>Inr\<close> also says that it is memory safe. The machine is little-endian
  with 8-byte datums; sizes and offsets in a tuple are natural numbers, since \<open>palloc\<close> refuses more than
  \<open>MaxAllocSize\<close>, 1 gigabyte, and the attributes are at most 1664. Times and costs (\<open>double\<close>) are exact rationals, without rounding or \<open>NaN\<close>. An error is
  its code, without the names in its message. \<open>malloc\<close> succeeds, and a block counts as freed even if its
  address is given out again. There is no fuel: the loops
  are structural, have a termination proof, or are partial functions shown to end.

  \<^bold>\<open>Parameters.\<close> Called SQL functions, catalogue lookups, parameters, sub-plans, sequences, the content of
  arrays and rows are fields of the environments \<open>cenv\<close> and \<open>fenv\<close>, and the attributes of the stored tuple
  a field of the slots, which \<open>HeapDeform\<close> derives from its bytes. The JIT provider, the clock, the outcome
  of opening a file and the flattening of an expanded object (\<open>flat\<close>) are arguments.

  \<^bold>\<open>Not modelled.\<close> The emission of LLVM code (\<open>backend/jit/llvm\<close>): its meaning lies in LLVM. The node types
  whole-row variable, window function, subscript, field selection and storing, array and row
  constructor, array and row-type coercion and XML, and aggregate transition programs: they build
  values in formats of other modules. Access to a single attribute of a tuple (\<open>nocachegetattr\<close>), minimal
  tuples and buffer slots; compressed values and values stored out of line are copied, not read. The table of node tag names and the report at the end of
  \<open>exec_simple_query\<close>: output only. Parser, planner, plan nodes, storage, transactions, replication,
  clients and extensions: PostgreSQL as released, inputs of the model. Scripts and data analysis.
\<close>

end
